(* ===== verification/Prelude.thy ===== *)
theory Prelude
  imports Main "HOL-Library.Word" "HOL-Library.Monad_Syntax"
begin

text \<open>
  Shared vocabulary of the development: the C types the program uses, checked accesses to C
  arrays, C strings, and the generic facts on them that the component theories rely on.

  Conventions.
  \<^item> \<open>uint8_t\<close> is \<open>8 word\<close>, \<open>char\<close> is HOL's 8-bit \<open>char\<close>, \<open>int\<close> is HOL's \<open>int\<close>
    (conversions to and from \<open>uint32_t\<close> are written out), \<open>size_t\<close> is \<open>nat\<close> (the sizes of C
    objects, far from the limit of the type).
  \<^item> An array is a list whose length is the array's size. An access outside the array is
    undefined behaviour in C; the model returns \<open>None\<close> there, so every operation that
    indexes memory has an \<open>option\<close> result and \<open>None\<close> means that the C program left its
    object. It never stands for an error that the code reports.
  \<^item> A C string is the list of its characters before the terminating zero. Reading the position
    of the terminator gives the zero character (\<open>chr_at\<close>).
  \<^item> A local array that the code does not initialise has the contents \<open>stack_arr junk n\<close>, for
    an arbitrary function \<open>junk\<close>.
\<close>

named_theorems c_simps \<open>evaluation of checked accesses and C strings\<close>
named_theorems hex_simps \<open>evaluation of the hexadecimal routines on well-formed input\<close>

type_synonym byte = "8 word"
type_synonym bytes = "8 word list"

section \<open>Checked array access\<close>

definition at :: "'a list \<Rightarrow> nat \<Rightarrow> 'a option" where
  "at xs i = (if i < length xs then Some (xs ! i) else None)"

definition put :: "'a list \<Rightarrow> nat \<Rightarrow> 'a \<Rightarrow> 'a list option" where
  "put xs i v = (if i < length xs then Some (xs[i := v]) else None)"

text \<open>The same with a C \<open>int\<close> as the index: a negative index is outside every array.\<close>

definition at_int :: "'a list \<Rightarrow> int \<Rightarrow> 'a option" where
  "at_int xs i = (if i < 0 then None else at xs (nat i))"

definition put_int :: "'a list \<Rightarrow> int \<Rightarrow> 'a \<Rightarrow> 'a list option" where
  "put_int xs i v = (if i < 0 then None else put xs (nat i) v)"

text \<open>\<open>memcpy\<close> of a whole list to the start of an array.\<close>

definition blit :: "'a list \<Rightarrow> 'a list \<Rightarrow> 'a list option" where
  "blit dst src = (if length src \<le> length dst then Some (src @ drop (length src) dst) else None)"

definition stack_arr :: "(nat \<Rightarrow> 'a) \<Rightarrow> nat \<Rightarrow> 'a list" where
  "stack_arr junk n = map junk [0..<n]"

lemma at_Some [c_simps]: "i < length xs \<Longrightarrow> at xs i = Some (xs ! i)"
  by (simp add: at_def)

lemma at_None [c_simps]: "length xs \<le> i \<Longrightarrow> at xs i = None"
  by (simp add: at_def)

lemma at_SomeD: "at xs i = Some v \<Longrightarrow> i < length xs \<and> xs ! i = v"
  by (simp add: at_def split: if_splits)

lemma put_Some [c_simps]: "i < length xs \<Longrightarrow> put xs i v = Some (xs[i := v])"
  by (simp add: put_def)

lemma put_None [c_simps]: "length xs \<le> i \<Longrightarrow> put xs i v = None"
  by (simp add: put_def)

lemma put_SomeD: "put xs i v = Some ys \<Longrightarrow> i < length xs \<and> ys = xs[i := v]"
  by (simp add: put_def split: if_splits)

lemma length_put: "put xs i v = Some ys \<Longrightarrow> length ys = length xs"
  by (auto dest: put_SomeD)

lemma at_int_Some [c_simps]: "0 \<le> i \<Longrightarrow> i < int (length xs) \<Longrightarrow> at_int xs i = Some (xs ! nat i)"
  by (simp add: at_int_def at_def nat_less_iff)

lemma put_int_Some [c_simps]:
  "0 \<le> i \<Longrightarrow> i < int (length xs) \<Longrightarrow> put_int xs i v = Some (xs[nat i := v])"
  by (simp add: put_int_def put_def nat_less_iff)

lemma at_int_SomeD: "at_int xs i = Some v \<Longrightarrow> 0 \<le> i \<and> i < int (length xs) \<and> xs ! nat i = v"
  by (auto simp: at_int_def dest: at_SomeD split: if_splits)

lemma put_int_SomeD: "put_int xs i v = Some ys \<Longrightarrow> 0 \<le> i \<and> i < int (length xs) \<and> ys = xs[nat i := v]"
  by (auto simp: put_int_def dest: put_SomeD split: if_splits)

lemma blit_Some [c_simps]:
  "length src \<le> length dst \<Longrightarrow> blit dst src = Some (src @ drop (length src) dst)"
  by (simp add: blit_def)

lemma blit_None [c_simps]: "length dst < length src \<Longrightarrow> blit dst src = None"
  by (simp add: blit_def)

lemma length_blit: "blit dst src = Some r \<Longrightarrow> length r = length dst"
  by (auto simp: blit_def split: if_splits)

lemma length_stack_arr [simp]: "length (stack_arr junk n) = n"
  by (simp add: stack_arr_def)

lemma drop_stack_arr [simp]: "drop n (stack_arr junk n) = []"
  by simp

text \<open>A flat array seen as rows of \<open>n\<close> elements.\<close>

definition rows :: "nat \<Rightarrow> 'a list \<Rightarrow> 'a list list" where
  "rows n xs = map (\<lambda>i. take n (drop (i * n) xs)) [0..<length xs div n]"

lemma length_concat_rows: "(\<And>r. r \<in> set rs \<Longrightarrow> length r = n) \<Longrightarrow> length (concat rs) = length rs * n"
  by (induction rs) auto

lemma drop_concat_rows:
  "(\<And>r. r \<in> set rs \<Longrightarrow> length r = n) \<Longrightarrow> drop (i * n) (concat rs) = concat (drop i rs)"
proof (induction rs arbitrary: i)
  case Nil
  then show ?case by simp
next
  case (Cons r rs)
  then show ?case
    by (cases i) (auto simp: Cons.IH)
qed

lemma take_concat_rows:
  "(\<And>r. r \<in> set rs \<Longrightarrow> length r = n) \<Longrightarrow> take (i * n) (concat rs) = concat (take i rs)"
proof (induction rs arbitrary: i)
  case Nil
  then show ?case by simp
next
  case (Cons r rs)
  then show ?case
    by (cases i) (auto simp: Cons.IH)
qed

lemma rows_concat:
  assumes len: "\<And>r. r \<in> set rs \<Longrightarrow> length r = n" and "0 < n"
  shows "rows n (concat rs) = rs"
proof (rule nth_equalityI)
  show "length (rows n (concat rs)) = length rs"
    using assms by (simp add: rows_def length_concat_rows)
  fix i assume "i < length (rows n (concat rs))"
  then have i: "i < length rs"
    using assms by (simp add: rows_def length_concat_rows)
  then have "take n (drop (i * n) (concat rs)) = rs ! i"
    using len by (simp add: drop_concat_rows Cons_nth_drop_Suc [symmetric])
  then show "rows n (concat rs) ! i = rs ! i"
    using i assms by (simp add: rows_def length_concat_rows)
qed

section \<open>Characters, bytes and C strings\<close>

abbreviation nul :: char where
  "nul \<equiv> CHR 0x00"

definition ord8 :: "char \<Rightarrow> byte" where
  "ord8 c = word_of_nat (of_char c)"

definition chr8 :: "byte \<Rightarrow> char" where
  "chr8 b = char_of (unat b)"

lemma of_char_less_256 [simp]: "(of_char c :: nat) < 256"
  using nat_of_char_less_256 by blast

lemma chr8_ord8 [simp]: "chr8 (ord8 c) = c"
  by (simp add: chr8_def ord8_def unsigned_of_nat take_bit_eq_mod)

lemma ord8_chr8 [simp]: "ord8 (chr8 b) = b"
proof -
  have "unat b < 256"
    using unsigned_less [of b] by simp
  then show ?thesis
    by (simp add: chr8_def ord8_def take_bit_eq_mod)
qed

lemma map_chr8_ord8 [simp]: "map (chr8 \<circ> ord8) cs = cs"
  by (simp add: o_def)

lemma map_ord8_chr8 [simp]: "map (ord8 \<circ> chr8) bs = bs"
  by (simp add: o_def)

text \<open>Reading a C string: the terminator is readable.\<close>

definition chr_at :: "string \<Rightarrow> nat \<Rightarrow> char" where
  "chr_at s i = (if i < length s then s ! i else nul)"

lemma chr_at_less [c_simps]: "i < length s \<Longrightarrow> chr_at s i = s ! i"
  by (simp add: chr_at_def)

lemma chr_at_end [c_simps]: "length s \<le> i \<Longrightarrow> chr_at s i = nul"
  by (simp add: chr_at_def)

lemma chr_at_drop: "chr_at (drop n s) i = chr_at s (n + i)"
  by (auto simp: chr_at_def)

text \<open>The C string that starts at the beginning of a piece of memory.\<close>

definition cstr :: "char list \<Rightarrow> string" where
  "cstr m = takeWhile (\<lambda>c. c \<noteq> nul) m"

lemma cstr_id [c_simps]: "nul \<notin> set s \<Longrightarrow> cstr s = s"
  by (auto simp: cstr_def)

lemma cstr_terminated [c_simps]: "nul \<notin> set s \<Longrightarrow> cstr (s @ nul # m) = s"
  by (auto simp: cstr_def takeWhile_append)

lemma nul_cstr: "nul \<notin> set (cstr m)"
  by (auto simp: cstr_def dest: set_takeWhileD)

lemma length_cstr_le: "length (cstr m) \<le> length m"
  by (simp add: cstr_def length_takeWhile_le)

section \<open>32-bit integers across the partition boundary\<close>

text \<open>\<open>int\<close> values sent as four bytes, least significant first (Cortex-M33 is little endian).\<close>

definition le32 :: "int \<Rightarrow> bytes" where
  "le32 i = (let n = unat (word_of_int i :: 32 word) in
     [word_of_nat n, word_of_nat (n div 256), word_of_nat (n div 65536), word_of_nat (n div 16777216)])"

definition u32_of_le :: "bytes \<Rightarrow> 32 word" where
  "u32_of_le bs = word_of_nat (foldr (\<lambda>b n. unat b + 256 * n) (take 4 bs) 0)"

definition int_of_le32 :: "bytes \<Rightarrow> int" where
  "int_of_le32 bs = sint (u32_of_le bs)"

lemma length_le32 [simp]: "length (le32 i) = 4"
  by (simp add: le32_def Let_def)

lemma digits_256:
  fixes n :: nat
  assumes "n < 4294967296"
  shows "n mod 256 + (256 * (n div 256 mod 256) + (65536 * (n div 65536 mod 256) +
           16777216 * (n div 16777216 mod 256))) = n"
proof -
  have "n div 65536 = n div 256 div 256" and "n div 16777216 = n div 65536 div 256"
    by (simp_all add: div_mult2_eq [symmetric])
  moreover have "n div 16777216 mod 256 = n div 16777216"
    using assms by (simp add: less_mult_imp_div_less)
  ultimately show ?thesis
    using div_mult_mod_eq [of n 256] div_mult_mod_eq [of "n div 256" 256]
      div_mult_mod_eq [of "n div 65536" 256] by linarith
qed

lemma foldr_bytes_of_nat:
  "n < 4294967296 \<Longrightarrow> foldr (\<lambda>b n. unat b + 256 * n)
     [word_of_nat n :: byte, word_of_nat (n div 256), word_of_nat (n div 65536), word_of_nat (n div 16777216)] 0 = n"
  using digits_256 [of n] by (simp add: unsigned_of_nat take_bit_eq_mod distrib_left)

lemma u32_of_le_le32 [simp]: "u32_of_le (le32 i) = word_of_int i"
proof -
  have "unat (word_of_int i :: 32 word) < 4294967296"
    using unsigned_less [of "word_of_int i :: 32 word"] by simp
  from foldr_bytes_of_nat [OF this] have "foldr (\<lambda>b n. unat b + 256 * n) (take 4 (le32 i)) 0 =
      unat (word_of_int i :: 32 word)"
    unfolding le32_def Let_def by (simp only: take_Cons_numeral take_Nil pred_numeral_simps list.simps)
      simp
  then show ?thesis
    by (simp add: u32_of_le_def)
qed

lemma int_of_le32_le32:
  "- (2 ^ 31) \<le> i \<Longrightarrow> i < 2 ^ 31 \<Longrightarrow> int_of_le32 (le32 i) = i"
  by (simp add: int_of_le32_def signed_take_bit_int_eq_self signed_of_int)

end
