(* ===== verification/Common.thy ===== *)
theory Common
  imports Prelude
begin

text \<open>
  \<^verbatim>\<open>src/lib/common.c\<close> and \<^verbatim>\<open>src/lib/common.h\<close>: the error codes, the hexadecimal codec, the
  validation of hexadecimal text and the printer of public keys, and the copies of the codec
  that \<^verbatim>\<open>src/lib/bls_hsm.h\<close> carries under the suffix \<open>_todo\<close>.

  The codec works on caller-provided arrays. \<open>buf\<close> and \<open>hex\<close> are the arrays the pointers refer
  to, \<open>buflen\<close> and \<open>hexlen\<close> the sizes the caller claims; the two differ at some call sites, and
  a write past the real array is \<open>None\<close>.
\<close>

unbundle bit_operations_syntax

section \<open>Error codes\<close>

abbreviation (input) BADLEN :: int where "BADLEN \<equiv> -1"
abbreviation (input) BADFORMAT :: int where "BADFORMAT \<equiv> -2"
abbreviation (input) RNGERR :: int where "RNGERR \<equiv> -3"
abbreviation (input) PKNOTFOUND :: int where "PKNOTFOUND \<equiv> 2"
abbreviation (input) BADPKLEN :: int where "BADPKLEN \<equiv> 3"
abbreviation (input) EXISTINGKEY :: int where "EXISTINGKEY \<equiv> 4"
abbreviation (input) BADSKLEN :: int where "BADSKLEN \<equiv> 5"
abbreviation (input) KEYSLIMIT :: int where "KEYSLIMIT \<equiv> 6"
abbreviation (input) HEX2BINERR :: int where "HEX2BINERR \<equiv> 7"
abbreviation (input) BIN2HEXERR :: int where "BIN2HEXERR \<equiv> 8"
abbreviation (input) BADSIGLEN :: int where "BADSIGLEN \<equiv> 9"
abbreviation (input) BLSTSUCCESS :: int where "BLSTSUCCESS \<equiv> 11"
abbreviation (input) BLSTFAIL :: int where "BLSTFAIL \<equiv> 12"
abbreviation (input) INVPASSWORD :: int where "INVPASSWORD \<equiv> 13"
abbreviation (input) BADJSONFORMAT :: int where "BADJSONFORMAT \<equiv> 14"

section \<open>The hexadecimal codec of common.c\<close>

definition between :: "char \<Rightarrow> char \<Rightarrow> char \<Rightarrow> bool" where
  "between lo c hi \<longleftrightarrow> ord8 lo \<le> ord8 c \<and> ord8 c \<le> ord8 hi"

text \<open>Character classes of the C library, and the value of a text of decimal digits.\<close>

definition is_space :: "char \<Rightarrow> bool" where
  "is_space c \<longleftrightarrow> c \<in> {CHR '' '', CHR 0x09, CHR 0x0A, CHR 0x0B, CHR 0x0C, CHR 0x0D}"

definition is_digit :: "char \<Rightarrow> bool" where
  "is_digit c \<longleftrightarrow> between (CHR ''0'') c (CHR ''9'')"

definition of_dec :: "string \<Rightarrow> nat" where
  "of_dec s = foldl (\<lambda>a c. a * 10 + unat (ord8 c - ord8 (CHR ''0''))) 0 s"

text \<open>\<open>char2hex c x\<close>: the return code and the contents of \<open>*x\<close> afterwards.\<close>

definition char2hex :: "char \<Rightarrow> byte \<Rightarrow> int \<times> byte" where
  "char2hex c x =
     (if between (CHR ''0'') c (CHR ''9'') then (0, ord8 c - ord8 (CHR ''0''))
      else if between (CHR ''a'') c (CHR ''f'') then (0, ord8 c - ord8 (CHR ''a'') + 10)
      else if between (CHR ''A'') c (CHR ''F'') then (0, ord8 c - ord8 (CHR ''A'') + 10)
      else (-22, x))"

definition hex2char :: "byte \<Rightarrow> char \<Rightarrow> int \<times> char" where
  "hex2char x c =
     (if x \<le> 9 then (0, chr8 (x + ord8 (CHR ''0'')))
      else if x \<le> 15 then (0, chr8 (x - 10 + ord8 (CHR ''a'')))
      else (-22, c))"

text \<open>
  The loop of \<open>bin2hex\<close> from index \<open>i\<close> with \<open>n\<close> rounds left. \<open>Some (False, h)\<close> is the early
  \<open>return 0\<close>.
\<close>

primrec bin2hex_loop :: "nat \<Rightarrow> bytes \<Rightarrow> nat \<Rightarrow> string \<Rightarrow> (bool \<times> string) option" where
  "bin2hex_loop 0 buf i hex = Some (True, hex)"
| "bin2hex_loop (Suc n) buf i hex = do {
     b \<leftarrow> at buf i;
     old1 \<leftarrow> at hex (2 * i);
     let (r1, c1) = hex2char (drop_bit 4 b) old1;
     hex1 \<leftarrow> put hex (2 * i) c1;
     if r1 < 0 then Some (False, hex1)
     else do {
       old2 \<leftarrow> at hex1 (2 * i + 1);
       let (r2, c2) = hex2char (b AND 15) old2;
       hex2 \<leftarrow> put hex1 (2 * i + 1) c2;
       if r2 < 0 then Some (False, hex2) else bin2hex_loop n buf (Suc i) hex2
     }
   }"

definition bin2hex :: "bytes \<Rightarrow> nat \<Rightarrow> string \<Rightarrow> nat \<Rightarrow> (nat \<times> string) option" where
  "bin2hex buf buflen hex hexlen =
     (if hexlen + 1 < buflen * 2 then Some (0, hex)
      else do {
        (ok, hex1) \<leftarrow> bin2hex_loop buflen buf 0 hex;
        if ok then do { hex2 \<leftarrow> put hex1 (2 * buflen) nul; Some (2 * buflen, hex2) }
        else Some (0, hex1)
      })"

text \<open>
  The loop of \<open>hex2bin\<close>: \<open>off\<close> is 1 after the leading nibble of an odd-length text (the code
  advances both pointers), else 0.
\<close>

primrec hex2bin_loop :: "nat \<Rightarrow> string \<Rightarrow> nat \<Rightarrow> nat \<Rightarrow> byte \<Rightarrow> bytes \<Rightarrow> (bool \<times> bytes) option" where
  "hex2bin_loop 0 hex off i dec buf = Some (True, buf)"
| "hex2bin_loop (Suc n) hex off i dec buf = (
     let (r1, dec1) = char2hex (chr_at hex (off + 2 * i)) dec in
     if r1 < 0 then Some (False, buf)
     else do {
       buf1 \<leftarrow> put buf (off + i) (push_bit 4 dec1);
       let (r2, dec2) = char2hex (chr_at hex (off + (2 * i + 1))) dec1;
       if r2 < 0 then Some (False, buf1)
       else do {
         b \<leftarrow> at buf1 (off + i);
         buf2 \<leftarrow> put buf1 (off + i) (b + dec2);
         hex2bin_loop n hex off (Suc i) dec2 buf2
       }
     })"

definition hex2bin :: "string \<Rightarrow> nat \<Rightarrow> bytes \<Rightarrow> nat \<Rightarrow> (nat \<times> bytes) option" where
  "hex2bin hex hexlen buf buflen =
     (if buflen < hexlen div 2 + hexlen mod 2 then Some (0, buf)
      else do {
        (ok, off, dec, buf1) \<leftarrow>
          (if hexlen mod 2 \<noteq> 0 then
             let (r, dec) = char2hex (chr_at hex 0) 0 in
             if r < 0 then Some (False, 0, dec, buf)
             else do { buf1 \<leftarrow> put buf 0 dec; Some (True, 1, dec, buf1) }
           else Some (True, 0, 0, buf));
        if \<not> ok then Some (0, buf1)
        else do {
          (ok2, buf2) \<leftarrow> hex2bin_loop (hexlen div 2) hex off 0 dec buf1;
          Some (if ok2 then hexlen div 2 + hexlen mod 2 else 0, buf2)
        }
      })"

section \<open>Validation and printing\<close>

primrec char_chk_loop :: "nat \<Rightarrow> string \<Rightarrow> nat \<Rightarrow> int" where
  "char_chk_loop 0 aux i = 0"
| "char_chk_loop (Suc n) aux i =
     (let c = chr_at aux i in
      if \<not> (between (CHR ''0'') c (CHR ''9'') \<or> between (CHR ''a'') c (CHR ''f'') \<or>
            between (CHR ''A'') c (CHR ''F''))
      then 1 else char_chk_loop n aux (Suc i))"

definition char_chk :: "string \<Rightarrow> int \<Rightarrow> int" where
  "char_chk aux len = char_chk_loop (nat len) aux 0"

definition parse_hex :: "string \<Rightarrow> int \<Rightarrow> int" where
  "parse_hex str len =
     (let strl = int (length str);
          offset = (if chr_at str 0 = CHR ''0'' \<and> chr_at str 1 = CHR ''x''
                    then (if strl = len + 2 then 2 else BADLEN)
                    else (if strl = len then 0 else BADLEN))
      in if offset \<ge> 0 \<and> char_chk (drop (nat offset) str) len \<noteq> 0 then BADFORMAT else offset)"

definition msg_len :: "string \<Rightarrow> int" where
  "msg_len msg =
     (if chr_at msg 0 = CHR ''0'' \<and> chr_at msg 1 = CHR ''x'' then int (length (drop 2 msg))
      else int (length msg))"

text \<open>\<open>print_pk\<close> appends to the C string in \<open>buff\<close>; the key is an array of at least 96 characters.\<close>

primrec print_pk_loop :: "nat \<Rightarrow> char list \<Rightarrow> nat \<Rightarrow> string \<Rightarrow> string option" where
  "print_pk_loop 0 pk i buff = Some buff"
| "print_pk_loop (Suc n) pk i buff = do {
     c \<leftarrow> at pk i;
     print_pk_loop n pk (Suc i) (buff @ cstr [c, nul])
   }"

definition print_pk :: "char list \<Rightarrow> string \<Rightarrow> string option" where
  "print_pk public_key_hex buff = do {
     buff1 \<leftarrow> print_pk_loop 96 public_key_hex 0 (buff @ ''0x'');
     Some (buff1 @ ''\<newline>'')
   }"

section \<open>What the codec computes\<close>

definition hexdigit :: "byte \<Rightarrow> char" where
  "hexdigit x = snd (hex2char x nul)"

definition hexstr :: "bytes \<Rightarrow> string" where
  "hexstr bs = concat (map (\<lambda>b. [hexdigit (drop_bit 4 b), hexdigit (b AND 15)]) bs)"

definition is_hex :: "char \<Rightarrow> bool" where
  "is_hex c \<longleftrightarrow> between (CHR ''0'') c (CHR ''9'') \<or> between (CHR ''a'') c (CHR ''f'') \<or>
     between (CHR ''A'') c (CHR ''F'')"

definition nibble :: "char \<Rightarrow> byte" where
  "nibble c = snd (char2hex c 0)"

fun unhex :: "string \<Rightarrow> bytes" where
  "unhex (a # b # r) = (push_bit 4 (nibble a) + nibble b) # unhex r"
| "unhex _ = []"

lemma char2hex_eq: "char2hex c x = (if is_hex c then (0, nibble c) else (-22, x))"
  by (simp add: char2hex_def is_hex_def nibble_def)

lemma nibble_cases:
  fixes x :: byte
  assumes "x \<le> 15"
  shows "x \<in> {0, 1, 2, 3, 4, 5, 6, 7, 8, 9, 10, 11, 12, 13, 14, 15}"
proof -
  have "unat x \<le> 15"
    using assms by (simp add: word_le_nat_alt)
  then have "unat x \<in> {0, 1, 2, 3, 4, 5, 6, 7, 8, 9, 10, 11, 12, 13, 14, 15}"
    by (simp only: insert_iff empty_iff) presburger
  then show ?thesis
    by (elim insertE emptyE) (simp_all add: word_unat_eq_iff)
qed

lemma hexdigit_table:
  "x \<le> 15 \<Longrightarrow> hex2char x c = (0, hexdigit x) \<and> is_hex (hexdigit x) \<and> nibble (hexdigit x) = x"
  by (drule nibble_cases, elim insertE emptyE)
     (simp_all add: hex2char_def hexdigit_def is_hex_def nibble_def char2hex_def between_def ord8_def chr8_def)

lemma high_nibble: "drop_bit 4 (b::byte) \<le> 15"
proof -
  have "unat b < 256"
    using unsigned_less [of b] by simp
  then show ?thesis
    by (simp add: word_le_nat_alt drop_bit_eq_div unat_div)
qed

lemma low_nibble: "(b::byte) AND 15 \<le> 15"
  by (rule word_and_le1)

lemma nibbles_join: "push_bit 4 (drop_bit 4 b) + (b AND 15) = (b::byte)"
proof -
  have "b AND 15 = take_bit 4 b"
    by (simp add: take_bit_eq_mask mask_numeral)
  then show ?thesis
    by (simp add: bits_ident)
qed

lemma hexstr_simps [simp]:
  "hexstr [] = []"
  "hexstr (b # bs) = hexdigit (drop_bit 4 b) # hexdigit (b AND 15) # hexstr bs"
  by (simp_all add: hexstr_def)

lemma length_hexstr [simp]: "length (hexstr bs) = 2 * length bs"
  by (induction bs) simp_all

lemmas hex2char_nibble = hexdigit_table [THEN conjunct1]
lemmas is_hex_hexdigit = hexdigit_table [THEN conjunct2, THEN conjunct1]
lemmas nibble_hexdigit = hexdigit_table [THEN conjunct2, THEN conjunct2]

lemma length_unhex: "length (unhex s) = length s div 2"
  by (induction s rule: unhex.induct) auto

lemma is_hex_hexstr: "c \<in> set (hexstr bs) \<Longrightarrow> is_hex c"
  by (induction bs) (auto simp: is_hex_hexdigit high_nibble low_nibble)

lemma unhex_hexstr [simp]: "unhex (hexstr bs) = bs"
  by (induction bs) (simp_all add: nibble_hexdigit high_nibble low_nibble nibbles_join)

lemma nul_not_hex [simp]: "\<not> is_hex nul"
  by (simp add: is_hex_def between_def ord8_def)

lemma bin2hex_loop_ok:
  "i + n \<le> length buf \<Longrightarrow> 2 * (i + n) \<le> length hex \<Longrightarrow>
   bin2hex_loop n buf i hex =
     Some (True, take (2 * i) hex @ hexstr (take n (drop i buf)) @ drop (2 * (i + n)) hex)"
proof (induction n arbitrary: i hex)
  case 0
  then show ?case by simp
next
  case (Suc n)
  let ?b = "buf ! i"
  let ?hex = "hex[2 * i := hexdigit (drop_bit 4 ?b), Suc (2 * i) := hexdigit (?b AND 15)]"
  have "bin2hex_loop (Suc n) buf i hex = bin2hex_loop n buf (Suc i) ?hex"
    using Suc.prems by (simp add: c_simps hex2char_nibble high_nibble low_nibble)
  also have "\<dots> = Some (True, take (2 * Suc i) ?hex @ hexstr (take n (drop (Suc i) buf)) @
      drop (2 * (Suc i + n)) ?hex)"
    using Suc.prems by (intro Suc.IH) simp_all
  also have "take (2 * Suc i) ?hex = take (2 * i) hex @ [hexdigit (drop_bit 4 ?b), hexdigit (?b AND 15)]"
    using Suc.prems by (simp add: take_Suc_conv_app_nth)
  finally show ?case
    using Suc.prems by (simp add: Cons_nth_drop_Suc [symmetric])
qed

lemma bin2hex_prefix:
  assumes "n \<le> length buf" and "2 * n < length hex" and "2 * n \<le> hexlen + 1"
  shows "bin2hex buf n hex hexlen = Some (2 * n, hexstr (take n buf) @ nul # drop (2 * n + 1) hex)"
  using assms by (simp add: bin2hex_def bin2hex_loop_ok c_simps list_update_append
      Cons_nth_drop_Suc [symmetric])

lemma bin2hex_ok:
  assumes "length buf = n" and "2 * n < length hex" and "2 * n \<le> hexlen + 1"
  shows "bin2hex buf n hex hexlen = Some (2 * n, hexstr buf @ nul # drop (2 * n + 1) hex)"
  using bin2hex_prefix [of n buf hex hexlen] assms by simp

lemma hex2bin_loop_ok:
  "(\<forall>k < 2 * n. is_hex (chr_at hex (off + 2 * i + k))) \<Longrightarrow> off + i + n \<le> length buf \<Longrightarrow>
   off + 2 * (i + n) \<le> length hex \<Longrightarrow>
   hex2bin_loop n hex off i dec buf =
     Some (True, take (off + i) buf @ unhex (take (2 * n) (drop (off + 2 * i) hex)) @ drop (off + i + n) buf)"
proof (induction n arbitrary: i dec buf)
  case 0
  then show ?case by simp
next
  case (Suc n)
  let ?a = "hex ! (off + 2 * i)" and ?b = "hex ! Suc (off + 2 * i)"
  let ?v = "push_bit 4 (nibble ?a) + nibble ?b"
  have hx: "is_hex (chr_at hex (off + 2 * i))" "is_hex (chr_at hex (Suc (off + 2 * i)))"
    using Suc.prems(1) by (auto dest: spec [of _ 0] spec [of _ 1])
  have "hex2bin_loop (Suc n) hex off i dec buf = hex2bin_loop n hex off (Suc i) (nibble ?b) (buf[off + i := ?v])"
    using Suc.prems hx by (simp add: c_simps char2hex_eq)
  also have "\<dots> = Some (True, take (off + Suc i) (buf[off + i := ?v]) @
      unhex (take (2 * n) (drop (off + 2 * Suc i) hex)) @ drop (off + Suc i + n) (buf[off + i := ?v]))"
  proof (rule Suc.IH)
    show "\<forall>k<2 * n. is_hex (chr_at hex (off + 2 * Suc i + k))"
    proof (intro allI impI)
      fix k assume "k < 2 * n"
      then show "is_hex (chr_at hex (off + 2 * Suc i + k))"
        using Suc.prems(1) [THEN spec, of "k + 2"] by (simp add: algebra_simps)
    qed
  qed (use Suc.prems in auto)
  also have "take (off + Suc i) (buf[off + i := ?v]) = take (off + i) buf @ [?v]"
    using Suc.prems by (simp add: take_Suc_conv_app_nth)
  finally show ?case
    using Suc.prems by (simp add: Cons_nth_drop_Suc [symmetric])
qed

lemma hex2bin_loop_bad:
  "\<exists>k < 2 * n. \<not> is_hex (chr_at hex (off + 2 * i + k)) \<Longrightarrow> off + i + n \<le> length buf \<Longrightarrow>
   \<exists>b. hex2bin_loop n hex off i dec buf = Some (False, b) \<and> length b = length buf"
proof (induction n arbitrary: i dec buf)
  case 0
  then show ?case by simp
next
  case (Suc n)
  let ?a = "chr_at hex (off + 2 * i)" and ?b = "chr_at hex (Suc (off + 2 * i))"
  show ?case
  proof (cases "is_hex ?a \<and> is_hex ?b")
    case False
    then show ?thesis
      using Suc.prems(2) by (auto simp: c_simps char2hex_eq)
  next
    case True
    from Suc.prems(1) obtain k where k: "k < 2 * Suc n" "\<not> is_hex (chr_at hex (off + 2 * i + k))"
      by blast
    with True have "k \<noteq> 0"
      by (metis add_0_right)
    moreover from k True have "k \<noteq> 1"
      by (metis Suc_eq_plus1)
    ultimately have "k - 2 < 2 * n" "off + 2 * Suc i + (k - 2) = off + 2 * i + k"
      using k by auto
    with k have "\<exists>k < 2 * n. \<not> is_hex (chr_at hex (off + 2 * Suc i + k))"
      by metis
    from Suc.IH [OF this, of "buf[off + i := push_bit 4 (nibble ?a) + nibble ?b]" "nibble ?b"]
    show ?thesis
      using True Suc.prems(2) by (simp add: c_simps char2hex_eq)
  qed
qed

text \<open>The bytes a hexadecimal text stands for; an odd text has an implicit leading zero.\<close>

definition hexbytes :: "string \<Rightarrow> bytes" where
  "hexbytes s = (if even (length s) then unhex s else nibble (hd s) # unhex (tl s))"

lemma hex2bin_good:
  assumes "buflen \<le> length buf" and need: "hexlen div 2 + hexlen mod 2 \<le> buflen"
    and hx: "\<forall>k < hexlen. is_hex (chr_at hex k)"
  shows "hex2bin hex hexlen buf buflen = Some (hexlen div 2 + hexlen mod 2,
     hexbytes (take hexlen hex) @ drop (hexlen div 2 + hexlen mod 2) buf)"
proof -
  have len: "hexlen \<le> length hex"
  proof (rule ccontr)
    assume "\<not> hexlen \<le> length hex"
    with hx have "is_hex (chr_at hex (length hex))" by auto
    then show False by (simp add: c_simps)
  qed
  show ?thesis
  proof (cases "even hexlen")
    case True
    then have "hex2bin_loop (hexlen div 2) hex 0 0 0 buf =
        Some (True, unhex (take hexlen hex) @ drop (hexlen div 2) buf)"
      using assms len hex2bin_loop_ok [of "hexlen div 2" hex 0 0 buf 0] by auto
    with True need len show ?thesis
      by (simp add: hex2bin_def hexbytes_def odd_iff_mod_2_eq_one [symmetric])
  next
    case False
    then obtain m where m: "hexlen = 2 * m + 1"
      by (auto elim: oddE)
    with need assms(1) obtain b0 bs where buf: "buf = b0 # bs"
      by (cases buf) auto
    let ?d = "nibble (hex ! 0)"
    have "hex2bin_loop m hex 1 0 ?d (buf[0 := ?d]) =
        Some (True, [?d] @ unhex (take (2 * m) (drop 1 hex)) @ drop (1 + m) buf)"
      using assms len m buf hex2bin_loop_ok [of m hex 1 0 "buf[0 := ?d]" ?d] by auto
    moreover have "is_hex (hex ! 0)" and "0 < length hex" and "0 < length buf"
      using hx len m need assms(1) by (auto simp: c_simps dest: spec [of _ 0])
    ultimately show ?thesis
      using need len m by (simp add: hex2bin_def hexbytes_def c_simps char2hex_eq hd_take hd_conv_nth
          tl_take drop_Suc)
  qed
qed

lemma hex2bin_bad:
  assumes "buflen \<le> length buf"
    and bad: "buflen < hexlen div 2 + hexlen mod 2 \<or> (\<exists>k < hexlen. \<not> is_hex (chr_at hex k))"
  shows "\<exists>b. hex2bin hex hexlen buf buflen = Some (0, b) \<and> length b = length buf"
proof (cases "buflen < hexlen div 2 + hexlen mod 2")
  case True
  then show ?thesis by (simp add: hex2bin_def)
next
  case False
  with bad obtain k where k: "k < hexlen" "\<not> is_hex (chr_at hex k)"
    by blast
  show ?thesis
  proof (cases "even hexlen")
    case True
    with k have "\<exists>k < 2 * (hexlen div 2). \<not> is_hex (chr_at hex (0 + 2 * 0 + k))"
      by auto
    from hex2bin_loop_bad [OF this, of buf 0] False True assms(1) show ?thesis
      by (auto simp: hex2bin_def odd_iff_mod_2_eq_one [symmetric])
  next
    case odd: False
    then obtain m where m: "hexlen = 2 * m + 1"
      by (auto elim: oddE)
    show ?thesis
    proof (cases "is_hex (chr_at hex 0)")
      case True
      with k have "k \<noteq> 0" by metis
      with k m have "k - 1 < 2 * m" "1 + 2 * 0 + (k - 1) = k" by auto
      moreover have "0 < length buf" using False m assms(1) by auto
      ultimately have "\<exists>k < 2 * m. \<not> is_hex (chr_at hex (1 + 2 * 0 + k))"
        using k by metis
      from hex2bin_loop_bad [OF this, of "buf[0 := nibble (chr_at hex 0)]" "nibble (chr_at hex 0)"]
        False m True assms(1) \<open>0 < length buf\<close> show ?thesis
        by (auto simp: hex2bin_def char2hex_eq c_simps)
    next
      case bad0: False
      then show ?thesis
        using False m by (simp add: hex2bin_def char2hex_eq)
    qed
  qed
qed
definition has0x :: "string \<Rightarrow> bool" where
  "has0x s \<longleftrightarrow> take 2 s = ''0x''"

definition strip0x :: "string \<Rightarrow> string" where
  "strip0x s = (if has0x s then drop 2 s else s)"

lemma has0x_chr_at: "has0x s \<longleftrightarrow> chr_at s 0 = CHR ''0'' \<and> chr_at s 1 = CHR ''x''"
  by (cases s; cases "tl s") (auto simp: has0x_def chr_at_def)

lemmas has0x_chr_at' = has0x_chr_at [unfolded One_nat_def]

lemma char_chk_loop_eq:
  "char_chk_loop n aux i = (if \<forall>k < n. is_hex (chr_at aux (i + k)) then 0 else 1)"
proof (induction n arbitrary: i)
  case 0
  then show ?case by simp
next
  case (Suc n)
  have "(\<forall>k < Suc n. is_hex (chr_at aux (i + k))) \<longleftrightarrow>
      is_hex (chr_at aux i) \<and> (\<forall>k < n. is_hex (chr_at aux (Suc i + k)))"
    by (auto simp: less_Suc_eq_0_disj)
  then show ?case
    by (simp add: Suc.IH is_hex_def [symmetric])
qed

lemma char_chk_eq:
  "int (length s) = len \<Longrightarrow> char_chk s len = (if list_all is_hex s then 0 else 1)"
  by (auto simp: char_chk_def char_chk_loop_eq list_all_length chr_at_def)

lemma parse_hex_eq:
  assumes "0 \<le> len"
  shows "parse_hex str len =
    (if int (length (strip0x str)) \<noteq> len then BADLEN
     else if list_all is_hex (strip0x str) then (if has0x str then 2 else 0) else BADFORMAT)"
proof (cases "has0x str")
  case True
  then have "2 \<le> length str"
    by (auto simp: has0x_def dest: arg_cong [where f = length])
  with True assms show ?thesis
    by (auto simp: parse_hex_def Let_def has0x_chr_at' [symmetric] strip0x_def char_chk_eq)
next
  case False
  with assms show ?thesis
    by (auto simp: parse_hex_def Let_def has0x_chr_at' [symmetric] strip0x_def char_chk_eq)
qed

lemma msg_len_eq: "msg_len msg = int (length (strip0x msg))"
  by (simp add: msg_len_def strip0x_def has0x_chr_at)

lemma parse_hex_msg_len:
  "parse_hex msg (msg_len msg) =
     (if list_all is_hex (strip0x msg) then (if has0x msg then 2 else 0) else BADFORMAT)"
  by (simp add: msg_len_eq parse_hex_eq)

lemma parse_hex_offset:
  "parse_hex str len \<ge> 0 \<Longrightarrow> 0 \<le> len \<Longrightarrow>
   drop (nat (parse_hex str len)) str = strip0x str \<and> int (length (strip0x str)) = len \<and>
   list_all is_hex (strip0x str)"
  by (auto simp: parse_hex_eq strip0x_def split: if_splits)

lemma print_pk_loop_ok:
  "i + n \<le> length pk \<Longrightarrow> nul \<notin> set pk \<Longrightarrow>
   print_pk_loop n pk i buff = Some (buff @ take n (drop i pk))"
proof (induction n arbitrary: i buff)
  case 0
  then show ?case by simp
next
  case (Suc n)
  have "pk ! i \<noteq> nul"
    using Suc.prems by (metis Suc_le_lessD add_Suc_right le_add1 le_trans less_le_trans nth_mem not_less_eq_eq)
  with Suc show ?case
    by (simp add: c_simps cstr_def Cons_nth_drop_Suc [symmetric])
qed

lemma print_pk_ok:
  "length pk = 96 \<Longrightarrow> nul \<notin> set pk \<Longrightarrow> print_pk pk buff = Some (buff @ ''0x'' @ pk @ ''\<newline>'')"
  by (simp add: print_pk_def print_pk_loop_ok)

section \<open>The copies in bls_hsm.h\<close>

text \<open>\<^verbatim>\<open>src/lib/bls_hsm.h\<close> repeats the codec so that the secure partition can be built without
  \<^verbatim>\<open>common.c\<close>'s guarded part. The copies are modelled on their own and shown equal below.\<close>

definition char2hex_todo :: "char \<Rightarrow> byte \<Rightarrow> int \<times> byte" where
  "char2hex_todo c x =
     (if between (CHR ''0'') c (CHR ''9'') then (0, ord8 c - ord8 (CHR ''0''))
      else if between (CHR ''a'') c (CHR ''f'') then (0, ord8 c - ord8 (CHR ''a'') + 10)
      else if between (CHR ''A'') c (CHR ''F'') then (0, ord8 c - ord8 (CHR ''A'') + 10)
      else (-22, x))"

definition hex2char_todo :: "byte \<Rightarrow> char \<Rightarrow> int \<times> char" where
  "hex2char_todo x c =
     (if x \<le> 9 then (0, chr8 (x + ord8 (CHR ''0'')))
      else if x \<le> 15 then (0, chr8 (x - 10 + ord8 (CHR ''a'')))
      else (-22, c))"

primrec bin2hex_todo_loop :: "nat \<Rightarrow> bytes \<Rightarrow> nat \<Rightarrow> string \<Rightarrow> (bool \<times> string) option" where
  "bin2hex_todo_loop 0 buf i hex = Some (True, hex)"
| "bin2hex_todo_loop (Suc n) buf i hex = do {
     b \<leftarrow> at buf i;
     old1 \<leftarrow> at hex (2 * i);
     let (r1, c1) = hex2char_todo (drop_bit 4 b) old1;
     hex1 \<leftarrow> put hex (2 * i) c1;
     if r1 < 0 then Some (False, hex1)
     else do {
       old2 \<leftarrow> at hex1 (2 * i + 1);
       let (r2, c2) = hex2char_todo (b AND 15) old2;
       hex2 \<leftarrow> put hex1 (2 * i + 1) c2;
       if r2 < 0 then Some (False, hex2) else bin2hex_todo_loop n buf (Suc i) hex2
     }
   }"

definition bin2hex_todo :: "bytes \<Rightarrow> nat \<Rightarrow> string \<Rightarrow> nat \<Rightarrow> (nat \<times> string) option" where
  "bin2hex_todo buf buflen hex hexlen =
     (if hexlen + 1 < buflen * 2 then Some (0, hex)
      else do {
        (ok, hex1) \<leftarrow> bin2hex_todo_loop buflen buf 0 hex;
        if ok then do { hex2 \<leftarrow> put hex1 (2 * buflen) nul; Some (2 * buflen, hex2) }
        else Some (0, hex1)
      })"

primrec hex2bin_todo_loop :: "nat \<Rightarrow> string \<Rightarrow> nat \<Rightarrow> nat \<Rightarrow> byte \<Rightarrow> bytes \<Rightarrow> (bool \<times> bytes) option" where
  "hex2bin_todo_loop 0 hex off i dec buf = Some (True, buf)"
| "hex2bin_todo_loop (Suc n) hex off i dec buf = (
     let (r1, dec1) = char2hex_todo (chr_at hex (off + 2 * i)) dec in
     if r1 < 0 then Some (False, buf)
     else do {
       buf1 \<leftarrow> put buf (off + i) (push_bit 4 dec1);
       let (r2, dec2) = char2hex_todo (chr_at hex (off + (2 * i + 1))) dec1;
       if r2 < 0 then Some (False, buf1)
       else do {
         b \<leftarrow> at buf1 (off + i);
         buf2 \<leftarrow> put buf1 (off + i) (b + dec2);
         hex2bin_todo_loop n hex off (Suc i) dec2 buf2
       }
     })"

definition hex2bin_todo :: "string \<Rightarrow> nat \<Rightarrow> bytes \<Rightarrow> nat \<Rightarrow> (nat \<times> bytes) option" where
  "hex2bin_todo hex hexlen buf buflen =
     (if buflen < hexlen div 2 + hexlen mod 2 then Some (0, buf)
      else do {
        (ok, off, dec, buf1) \<leftarrow>
          (if hexlen mod 2 \<noteq> 0 then
             let (r, dec) = char2hex_todo (chr_at hex 0) 0 in
             if r < 0 then Some (False, 0, dec, buf)
             else do { buf1 \<leftarrow> put buf 0 dec; Some (True, 1, dec, buf1) }
           else Some (True, 0, 0, buf));
        if \<not> ok then Some (0, buf1)
        else do {
          (ok2, buf2) \<leftarrow> hex2bin_todo_loop (hexlen div 2) hex off 0 dec buf1;
          Some (if ok2 then hexlen div 2 + hexlen mod 2 else 0, buf2)
        }
      })"

lemma char2hex_todo_eq: "char2hex_todo = char2hex"
  by (intro ext) (simp add: char2hex_todo_def char2hex_def)

lemma hex2char_todo_eq: "hex2char_todo = hex2char"
  by (intro ext) (simp add: hex2char_todo_def hex2char_def)

lemma bin2hex_todo_loop_eq: "bin2hex_todo_loop n = bin2hex_loop n"
  by (induction n) (intro ext, simp add: hex2char_todo_eq cong del: prod.case_cong_weak if_weak_cong)+

lemma hex2bin_todo_loop_eq: "hex2bin_todo_loop n = hex2bin_loop n"
  by (induction n) (intro ext, simp add: char2hex_todo_eq cong del: prod.case_cong_weak if_weak_cong)+

lemma bin2hex_todo_eq [simp]: "bin2hex_todo = bin2hex"
  unfolding fun_eq_iff bin2hex_todo_def bin2hex_def bin2hex_todo_loop_eq by simp

lemma hex2bin_todo_eq [simp]: "hex2bin_todo = hex2bin"
  unfolding fun_eq_iff hex2bin_todo_def hex2bin_def hex2bin_todo_loop_eq char2hex_todo_eq by simp

section \<open>Properties\<close>

lemma nul_hexstr: "nul \<notin> set (hexstr bs)"
  using is_hex_hexstr nul_not_hex by blast

lemma is_hex_chr_at_hexstr: "k < 2 * length bs \<Longrightarrow> is_hex (chr_at (hexstr bs) k)"
  by (simp add: c_simps) (metis is_hex_hexstr length_hexstr nth_mem)

lemma hex2bin_hexstr:
  "length out = length bs \<Longrightarrow> hex2bin (hexstr bs) (2 * length bs) out (length bs) = Some (length bs, bs)"
  using hex2bin_good [of "length bs" out "2 * length bs" "hexstr bs"]
  by (simp add: is_hex_chr_at_hexstr hexbytes_def)

lemma bin2hex_loop_short:
  "length hex = 2 * (i + k) + 1 \<Longrightarrow> i + k < length buf \<Longrightarrow> bin2hex_loop (Suc k) buf i hex = None"
proof (induction k arbitrary: i hex)
  case 0
  then show ?case by (auto simp: c_simps hex2char_nibble high_nibble)
next
  case (Suc k)
  have "bin2hex_loop (Suc k) buf (Suc i) (hex[2 * i := x, Suc (2 * i) := y]) = None" for x y
    using Suc.prems by (intro Suc.IH) auto
  with Suc.prems show ?case
    by (simp only: bin2hex_loop.simps(2) [of "Suc k"])
       (simp add: c_simps hex2char_nibble high_nibble low_nibble del: bin2hex_loop.simps)
qed

text \<open>Round trip of the codec: converting bytes to hexadecimal text in an array with room for
  the terminator and converting the resulting C string back with \<open>hex2bin\<close> gives the bytes, and
  both routines report the full length. Every key and signature of the program passes
  through this pair.\<close>

theorem bin2hex_hex2bin_roundtrip:
  assumes "length hex = 2 * length bs + 1" and "length out = length bs"
  shows "\<exists>h. bin2hex bs (length bs) hex (length hex) = Some (2 * length bs, h) \<and> cstr h = hexstr bs \<and>
     hex2bin (cstr h) (2 * length bs) out (length out) = Some (length bs, bs)"
  using assms hex2bin_hexstr [of out bs] cstr_terminated [OF nul_hexstr, of bs]
  by (simp add: bin2hex_ok)

theorem bin2hex_hex2bin_roundtrip_witness:
  "\<exists>h. bin2hex [0xab, 0x01] 2 (replicate 5 nul) 5 = Some (4, h) \<and> cstr h = ''ab01'' \<and>
     hex2bin (cstr h) 4 [0, 0] 2 = Some (2, [0xab, 0x01])"
proof -
  have "hexstr [0xab, 0x01] = ''ab01''" by code_simp
  then show ?thesis
    using bin2hex_hex2bin_roundtrip [of "replicate 5 nul" "[0xab, 0x01]" "[0, 0]"]
    by (simp add: eval_nat_numeral)
qed

text \<open>Complete behaviour of \<open>hex2bin\<close> on an array of at least the claimed size: if the output
  fits and the first \<open>hexlen\<close> characters are hexadecimal digits, it returns the number of
  bytes and stores exactly the bytes the text stands for (an odd text gets a leading zero
  nibble), leaving the rest of the array unchanged; in every other case it returns 0. It
  never writes outside the array.\<close>

theorem hex2bin_spec:
  assumes "buflen \<le> length buf"
  shows "if hexlen div 2 + hexlen mod 2 \<le> buflen \<and> (\<forall>k < hexlen. is_hex (chr_at hex k))
    then hex2bin hex hexlen buf buflen = Some (hexlen div 2 + hexlen mod 2,
           hexbytes (take hexlen hex) @ drop (hexlen div 2 + hexlen mod 2) buf)
    else \<exists>b. hex2bin hex hexlen buf buflen = Some (0, b) \<and> length b = length buf"
  using hex2bin_good [OF assms, of hexlen hex] hex2bin_bad [OF assms, of hexlen hex] by auto

theorem hex2bin_spec_witness:
  "hex2bin ''F0a'' 3 [7, 7, 7] 3 = Some (2, [0x0F, 0x0a, 7]) \<and>
   (\<exists>b. hex2bin ''0g'' 2 [7] 1 = Some (0, b) \<and> length b = length [7::byte])"
proof
  have hx: "\<forall>k < 3. is_hex (chr_at ''F0a'' k)"
    by (simp add: numeral_3_eq_3 less_Suc_eq is_hex_def between_def ord8_def chr_at_def)
  show "hex2bin ''F0a'' 3 [7, 7, 7] 3 = Some (2, [0x0F, 0x0a, 7])"
    using hex2bin_spec [of 3 "[7, 7, 7]" 3 "''F0a''"] hx
    by (simp add: hexbytes_def nibble_def char2hex_def between_def ord8_def)
  have bad: "\<not> is_hex (chr_at ''0g'' 1)"
    by (simp add: is_hex_def between_def ord8_def chr_at_def)
  have "\<not> (\<forall>k < 2. is_hex (chr_at ''0g'' k))"
    using bad by (auto intro: exI [of _ 1])
  with hex2bin_spec [of 1 "[7]" 2 "''0g''"]
  show "\<exists>b. hex2bin ''0g'' 2 [7] 1 = Some (0, b) \<and> length b = length [7::byte]"
    by (simp only: if_False simp_thms) simp
qed

lemma bin2hex_small:
  assumes "length buf = n" and "length hex \<le> 2 * n" and "2 * n \<le> length hex + 1"
  shows "bin2hex buf n hex (length hex) = None"
proof (cases "length hex = 2 * n")
  case True
  then show ?thesis
    using assms by (simp add: bin2hex_def bin2hex_loop_ok c_simps)
next
  case False
  with assms have "n \<noteq> 0" and len: "length hex = 2 * (n - 1) + 1"
    by auto
  then show ?thesis
    using assms bin2hex_loop_short [of hex 0 "n - 1" buf] by (simp add: bin2hex_def)
qed

text \<open>The size check of \<open>bin2hex\<close> is too weak: for an array of exactly twice the input (or one
  less) the check passes and the routine writes behind the array. \<open>verify_password\<close> calls it
  with such an array.\<close>

theorem bin2hex_overflow:
  assumes "length buf = n" and "length hex \<le> 2 * n" and "2 * n \<le> length hex + 1"
  shows "bin2hex buf n hex (length hex) = None"
  by (rule bin2hex_small [OF assms])

theorem bin2hex_overflow_witness: "bin2hex (replicate 32 0) 32 (replicate 64 nul) 64 = None"
  using bin2hex_overflow [of "replicate 32 0" 32 "replicate 64 nul"] by simp

text \<open>\<open>parse_hex\<close> accepts exactly the hexadecimal texts of the expected length, with or
  without the prefix 0x, returning the offset of the first digit, and tells a wrong length
  (\<open>BADLEN\<close>) from a wrong character (\<open>BADFORMAT\<close>).\<close>

theorem parse_hex_spec:
  assumes "0 \<le> len"
  shows "parse_hex str len =
    (if int (length (strip0x str)) \<noteq> len then BADLEN
     else if list_all is_hex (strip0x str) then (if has0x str then 2 else 0) else BADFORMAT)"
  by (rule parse_hex_eq [OF assms])

theorem parse_hex_spec_witness: "parse_hex ''0xAb'' 2 = 2 \<and> parse_hex ''0x'' 2 = BADLEN \<and> parse_hex ''0z'' 2 = BADFORMAT"
  using parse_hex_spec [of 2 "''0xAb''"] parse_hex_spec [of 2 "''0x''"] parse_hex_spec [of 2 "''0z''"]
  by (simp add: strip0x_def has0x_def is_hex_def between_def ord8_def)

text \<open>The copies of the codec in \<^verbatim>\<open>bls_hsm.h\<close> compute what the originals in
  \<^verbatim>\<open>common.c\<close> compute, on every input, memory effects included.\<close>

theorem todo_copies_agree:
  "char2hex_todo = char2hex \<and> hex2char_todo = hex2char \<and> bin2hex_todo = bin2hex \<and> hex2bin_todo = hex2bin"
  by (simp add: char2hex_todo_eq hex2char_todo_eq)

end
