(* ===== verification/Bls_Hsm.thy ===== *)
theory Bls_Hsm
  imports Common
begin

text \<open>
  \<^verbatim>\<open>src/lib/bls_hsm.h\<close>: the keystore that holds up to ten BLS secret keys with the hexadecimal
  text of their public keys, its persistence in PSA protected storage, and the operations on it:
  generation, import, lookup, signing, verification and reset.

  The globals \<open>secret_keys_store\<close>, \<open>public_keys_hex_store\<close> and \<open>keystore_size\<close> are the record
  \<open>hsm\<close>; its field \<open>plat\<close> is the state of the platform services (storage, entropy source).
  The libraries the header calls (blst, PSA crypto and storage, the Oberon primitives) are not part
  of the repository: their functions are the record \<open>ext\<close>, an argument of the operations.
  The build variants select code by macros; \<open>build\<close> names the three that the repository builds.
  Log output is not modelled.
\<close>

section \<open>State, external functions and build variants\<close>

text \<open>\<open>Native\<close>: neither NRF nor TFM; \<open>Nrf_Wifi\<close>: NRF and \<open>CONFIG_WIFI_NRF700X\<close>; \<open>Nrf_Tfm\<close>: NRF and TFM.\<close>

datatype build = Native | Nrf_Wifi | Nrf_Tfm

text \<open>Structures of the libraries are byte lists; \<open>blst_scalar\<close> has 32 bytes.\<close>

record 'p ext =
  psa_crypto_init :: "'p \<Rightarrow> int"
  psa_ps_set :: "nat \<Rightarrow> bytes \<Rightarrow> 'p \<Rightarrow> int \<times> 'p"
  psa_ps_get :: "nat \<Rightarrow> nat \<Rightarrow> nat \<Rightarrow> 'p \<Rightarrow> int \<times> bytes"
  psa_ps_remove :: "nat \<Rightarrow> 'p \<Rightarrow> int \<times> 'p"
  psa_generate_random :: "nat \<Rightarrow> 'p \<Rightarrow> int \<times> bytes \<times> 'p"
  libc_rand :: "'p \<Rightarrow> int \<times> 'p"
  psa_hash_compute :: "bytes \<Rightarrow> bytes \<Rightarrow> 'p \<Rightarrow> int \<times> bytes \<times> nat"
  ocrypto_sha256 :: "bytes \<Rightarrow> bytes"
  blst_keygen :: "bytes \<Rightarrow> bytes \<Rightarrow> bytes"
  blst_scalar_from_bendian :: "bytes \<Rightarrow> bytes"
  blst_sk_to_pk_in_g1 :: "bytes \<Rightarrow> bytes"
  blst_p1_compress :: "bytes \<Rightarrow> bytes"
  blst_p1_uncompress :: "bytes \<Rightarrow> bytes"
  blst_p2_compress :: "bytes \<Rightarrow> bytes"
  blst_p2_uncompress :: "bytes \<Rightarrow> bytes"
  blst_hash_to_g2 :: "bytes \<Rightarrow> bytes \<Rightarrow> bytes"
  blst_sign_pk_in_g1 :: "bytes \<Rightarrow> bytes \<Rightarrow> bytes"
  blst_core_verify_pk_in_g1 :: "bytes \<Rightarrow> bytes \<Rightarrow> bytes \<Rightarrow> bytes \<Rightarrow> int"

record 'p hsm =
  secret_keys_store :: "bytes list"
  public_keys_hex_store :: "string list"
  keystore_size :: int
  plat :: 'p

abbreviation (input) MAX_KEYSTORE_SIZE :: int where "MAX_KEYSTORE_SIZE \<equiv> 10"
abbreviation (input) UID_KEYSTORE_SIZE :: nat where "UID_KEYSTORE_SIZE \<equiv> 11"
abbreviation (input) UID_KEYSTORE :: nat where "UID_KEYSTORE \<equiv> 1"
abbreviation (input) PSA_SUCCESS :: int where "PSA_SUCCESS \<equiv> 0"
abbreviation (input) BLST_SUCCESS :: int where "BLST_SUCCESS \<equiv> 0"

text \<open>The static initial values of the globals.\<close>

definition hsm_boot :: "'p \<Rightarrow> 'p hsm" where
  "hsm_boot p = \<lparr>secret_keys_store = replicate 10 (replicate 32 0),
     public_keys_hex_store = replicate 10 (replicate 96 nul), keystore_size = 0, plat = p\<rparr>"

text \<open>\<open>sizeof (char *)\<close> on the Cortex-M33.\<close>

definition sizeof_ptr :: nat where
  "sizeof_ptr = 4"

section \<open>Public keys and persistence\<close>

text \<open>
  The text of the public key of \<open>sk\<close>, as \<open>init\<close>, \<open>secure_keygen\<close> and \<open>import_sk\<close> compute it into
  a local array of 97 characters (all of them written), claiming \<open>hexlen\<close>.
\<close>

definition pk_hex_of :: "'p ext \<Rightarrow> bytes \<Rightarrow> nat \<Rightarrow> (nat \<times> string) option" where
  "pk_hex_of ext sk hexlen = (
     let pk = blst_sk_to_pk_in_g1 ext sk;
         pk_bin = blst_p1_compress ext pk
     in bin2hex_todo pk_bin 48 (replicate 97 nul) hexlen)"

primrec init_loop :: "nat \<Rightarrow> 'p ext \<Rightarrow> int \<Rightarrow> 'p hsm \<Rightarrow> (int \<times> 'p hsm) option" where
  "init_loop 0 ext i st = Some (PSA_SUCCESS, st)"
| "init_loop (Suc n) ext i st = do {
     sk \<leftarrow> at_int (secret_keys_store st) (i - 1);
     (r, pk_hex) \<leftarrow> pk_hex_of ext sk 96;
     if r = 0 then Some (- BIN2HEXERR, st)
     else do {
       pks \<leftarrow> put_int (public_keys_hex_store st) (i - 1) (take 96 pk_hex);
       init_loop n ext (i + 1) (st\<lparr>public_keys_hex_store := pks\<rparr>)
     }
   }"

definition init :: "'p ext \<Rightarrow> 'p hsm \<Rightarrow> (int \<times> 'p hsm) option" where
  "init ext st = (
     if psa_crypto_init ext (plat st) \<noteq> PSA_SUCCESS then Some (-1, st)
     else
       let (status, data) = psa_ps_get ext UID_KEYSTORE_SIZE 0 4 (plat st) in
       if status \<noteq> PSA_SUCCESS then Some (PSA_SUCCESS, st\<lparr>keystore_size := 0\<rparr>)
       else do {
         raw \<leftarrow> blit (le32 (keystore_size st)) data;
         let ksize = int_of_le32 raw;
         let (status2, keys) = psa_ps_get ext UID_KEYSTORE 0 (unat (word_of_int (32 * ksize) :: 32 word)) (plat st);
         flat \<leftarrow> blit (concat (secret_keys_store st)) keys;
         let st1 = st\<lparr>keystore_size := ksize, secret_keys_store := rows 32 flat\<rparr>;
         if status2 \<noteq> PSA_SUCCESS then Some (status2, st1)
         else init_loop (nat ksize) ext 1 st1
       })"

definition add_sk :: "build \<Rightarrow> 'p ext \<Rightarrow> bytes \<Rightarrow> 'p hsm \<Rightarrow> (int \<times> 'p hsm) option" where
  "add_sk b ext sk st = do {
     sks \<leftarrow> put_int (secret_keys_store st) (keystore_size st) sk;
     let st1 = st\<lparr>secret_keys_store := sks, keystore_size := keystore_size st + 1\<rparr>;
     if b \<noteq> Nrf_Tfm then Some (0, st1)
     else
       let (s1, p1) = psa_ps_set ext UID_KEYSTORE (concat sks) (plat st1); st2 = st1\<lparr>plat := p1\<rparr> in
       if s1 \<noteq> PSA_SUCCESS then Some (s1, st2)
       else
         let (s2, p2) = psa_ps_set ext UID_KEYSTORE_SIZE (le32 (keystore_size st2)) (plat st2);
             st3 = st2\<lparr>plat := p2\<rparr> in
         if s2 \<noteq> PSA_SUCCESS then Some (s2, st3) else Some (0, st3)
   }"

section \<open>Serialisation and parsing\<close>

definition pk_serialize :: "'p ext \<Rightarrow> bytes \<Rightarrow> bytes" where
  "pk_serialize ext pk = blst_p1_compress ext pk"

definition sig_serialize :: "'p ext \<Rightarrow> bytes \<Rightarrow> bytes" where
  "sig_serialize ext sig = blst_p2_compress ext sig"

definition dst_tag :: bytes where
  "dst_tag = map ord8 ''BLS_SIG_BLS12381G2_XMD:SHA-256_SSWU_RO_POP_''"

definition get_point_from_msg :: "'p ext \<Rightarrow> bytes \<Rightarrow> nat \<Rightarrow> bytes" where
  "get_point_from_msg ext msg_bin len = blst_hash_to_g2 ext (take len msg_bin) dst_tag"

text \<open>\<open>strcat\<close> of a message to a buffer that may be NULL.\<close>

definition log_to :: "string option \<Rightarrow> string \<Rightarrow> string option" where
  "log_to buff msg = map_option (\<lambda>b. b @ msg) buff"

definition pk_parse :: "'p ext \<Rightarrow> string \<Rightarrow> bytes \<Rightarrow> string option \<Rightarrow> (int \<times> bytes \<times> string option) option" where
  "pk_parse ext pk_hex pk buff = (
     let offset = parse_hex pk_hex 96 in
     if offset = BADLEN then
       Some (BADPKLEN, pk, log_to buff ''Incorrect public key length. It must be 96 characters long.\<newline>'')
     else if offset = BADFORMAT then
       Some (offset, pk, log_to buff ''Public key contains incorrect characters.\<newline>'')
     else do {
       (r, pk_bin) \<leftarrow> hex2bin_todo (drop (nat offset) pk_hex) 96 (replicate 48 0) 48;
       if r = 0 then Some (HEX2BINERR, pk, log_to buff ''Failed converting public key to binary array\<newline>'')
       else Some (0, blst_p1_uncompress ext pk_bin, buff)
     })"

definition msg_parse :: "string \<Rightarrow> bytes \<Rightarrow> int \<Rightarrow> string option \<Rightarrow> (int \<times> bytes \<times> string option) option" where
  "msg_parse msg msg_bin len buff = (
     let offset = parse_hex msg len in
     if offset = BADFORMAT then
       Some (offset, msg_bin, log_to buff ''Message contains incorrect characters.\<newline>'')
     else if offset = BADLEN then
       Some (offset, msg_bin, log_to buff ''Message contains incorrect characters.\<newline>'')
     else do {
       (r, msg_bin1) \<leftarrow> hex2bin_todo (drop (nat offset) msg) (nat len) msg_bin (nat (len div 2 + len mod 2));
       if r = 0 then Some (HEX2BINERR, msg_bin1, log_to buff ''Incorrect message length.\<newline>'')
       else Some (0, msg_bin1, buff)
     })"

definition sig_parse :: "'p ext \<Rightarrow> string \<Rightarrow> bytes \<Rightarrow> string option \<Rightarrow> (int \<times> bytes \<times> string option) option" where
  "sig_parse ext sig_hex sig buff = (
     let offset = parse_hex sig_hex 192 in
     if offset = BADLEN then
       Some (BADSIGLEN, sig, log_to buff ''Incorrect signature length. It must be 192 characters long.\<newline>'')
     else if offset = BADFORMAT then
       Some (offset, sig, log_to buff ''Signature contains incorrect characters.\<newline>'')
     else do {
       (r, sig_bin) \<leftarrow> hex2bin_todo (drop (nat offset) sig_hex) 192 (replicate 96 0) 96;
       if r = 0 then Some (HEX2BINERR, sig, log_to buff ''Failed converting signature to binary array\<newline>'')
       else Some (0, blst_p2_uncompress ext sig_bin, buff)
     })"

section \<open>Access to the keystore\<close>

definition get_keystore_size :: "'p hsm \<Rightarrow> int" where
  "get_keystore_size st = keystore_size st"

definition store_pk :: "string \<Rightarrow> 'p hsm \<Rightarrow> 'p hsm option" where
  "store_pk public_key_hex st = do {
     let cont = keystore_size st - 1;
     row \<leftarrow> at_int (public_keys_hex_store st) cont;
     row1 \<leftarrow> blit row (take 96 public_key_hex);
     pks \<leftarrow> put_int (public_keys_hex_store st) cont row1;
     Some (st\<lparr>public_keys_hex_store := pks\<rparr>)
   }"

text \<open>\<open>get_key index pk\<close>: the return code and the contents of the caller's array afterwards.\<close>

definition get_key :: "int \<Rightarrow> char list \<Rightarrow> 'p hsm \<Rightarrow> (int \<times> char list) option" where
  "get_key index public_key_hex st =
     (if index \<ge> keystore_size st then Some (-1, public_key_hex)
      else do {
        row \<leftarrow> at_int (public_keys_hex_store st) index;
        pk \<leftarrow> blit public_key_hex (take 96 row);
        Some (0, pk)
      })"

primrec get_keys_loop :: "nat \<Rightarrow> nat \<Rightarrow> 'p hsm \<Rightarrow> string list \<Rightarrow> string list option" where
  "get_keys_loop 0 i st dst = Some dst"
| "get_keys_loop (Suc n) i st dst = do {
     row \<leftarrow> at (public_keys_hex_store st) i;
     old \<leftarrow> at dst i;
     new \<leftarrow> blit old (take 96 row);
     dst1 \<leftarrow> put dst i new;
     get_keys_loop n (Suc i) st dst1
   }"

definition get_keys :: "string list \<Rightarrow> 'p hsm \<Rightarrow> string list option" where
  "get_keys dst st = get_keys_loop (nat (keystore_size st)) 0 st dst"

definition hash :: "build \<Rightarrow> 'p ext \<Rightarrow> 'p \<Rightarrow> bytes \<Rightarrow> bytes \<Rightarrow> bytes option" where
  "hash b ext p out inp = (case b of
     Nrf_Tfm \<Rightarrow>
       if psa_crypto_init ext p \<noteq> PSA_SUCCESS then Some out
       else let (status, out1, olen) = psa_hash_compute ext inp out p in Some out1
   | Nrf_Wifi \<Rightarrow> Some (ocrypto_sha256 ext inp)
   | Native \<Rightarrow> if length inp < 32 then None else blit out (take 32 inp))"

text \<open>What \<open>aes128ctr\<close> calls: the PSA cipher functions, each of which returns a status, and the Oberon routine of the build without PSA. The
  operation object is determined by the key and the initialisation vector; the last two PSA calls also return what they have written.\<close>

record cipher_ext =
  cipher_init :: int
  psa_import_key :: "bytes \<Rightarrow> int"
  psa_cipher_encrypt_setup :: "bytes \<Rightarrow> int"
  psa_cipher_set_iv :: "bytes \<Rightarrow> bytes \<Rightarrow> int"
  psa_cipher_update :: "bytes \<Rightarrow> bytes \<Rightarrow> bytes \<Rightarrow> int \<times> bytes"
  psa_cipher_finish :: "bytes \<Rightarrow> bytes \<Rightarrow> bytes \<Rightarrow> int \<times> bytes"
  ocrypto_aes_ctr_decrypt :: "bytes \<Rightarrow> bytes \<Rightarrow> bytes \<Rightarrow> bytes"

text \<open>The contents of \<open>out\<close> afterwards. The function has no result: every error is a silent return.\<close>

definition aes128ctr :: "build \<Rightarrow> cipher_ext \<Rightarrow> bytes \<Rightarrow> bytes \<Rightarrow> bytes \<Rightarrow> bytes \<Rightarrow> bytes option" where
  "aes128ctr b c key iv inp out =
     (if b = Nrf_Wifi then
        if length key < 16 \<or> length iv < 16 \<or> length inp < 32 then None
        else blit out (ocrypto_aes_ctr_decrypt c (take 32 inp) (take 16 key) (take 16 iv))
      else if cipher_init c \<noteq> PSA_SUCCESS then Some out
      else if length key < 16 then None
      else if psa_import_key c (take 16 key) \<noteq> PSA_SUCCESS then Some out
      else if psa_cipher_encrypt_setup c (take 16 key) \<noteq> PSA_SUCCESS then Some out
      else if length iv < 16 then None
      else if psa_cipher_set_iv c (take 16 key) (take 16 iv) \<noteq> PSA_SUCCESS then Some out
      else if length inp < 32 then None
      else let (status, data) = psa_cipher_update c (take 16 key) (take 16 iv) (take 32 inp) in do {
        out \<leftarrow> blit out data;
        if status \<noteq> PSA_SUCCESS then Some out
        else let (_, rest) = psa_cipher_finish c (take 16 key) (take 16 iv) (take 32 inp) in do {
          tail \<leftarrow> blit (drop (length data) out) rest;
          Some (take (length data) out @ tail)
        }
      })"

text \<open>The inner loop of \<open>pk_in_keystore\<close>: 1 as soon as a character differs, else the old flag.\<close>

primrec pk_differs :: "nat \<Rightarrow> nat \<Rightarrow> string \<Rightarrow> nat \<Rightarrow> string \<Rightarrow> int \<Rightarrow> int" where
  "pk_differs 0 j pk offset row c = c"
| "pk_differs (Suc n) j pk offset row c =
     (if chr_at pk (j + offset) \<noteq> chr_at row j then 1 else pk_differs n (Suc j) pk offset row c)"

primrec pk_in_keystore_loop :: "nat \<Rightarrow> int \<Rightarrow> string \<Rightarrow> nat \<Rightarrow> 'p hsm \<Rightarrow> int \<Rightarrow> int \<Rightarrow> int option" where
  "pk_in_keystore_loop 0 i pk offset st c ret = Some ret"
| "pk_in_keystore_loop (Suc n) i pk offset st c ret = do {
     row \<leftarrow> at_int (public_keys_hex_store st) i;
     let c1 = pk_differs 96 0 pk offset row c;
     if c1 = 0 then Some i
     else if i + 1 < keystore_size st then pk_in_keystore_loop n (i + 1) pk offset st 0 ret
     else pk_in_keystore_loop n (i + 1) pk offset st c1 (-1)
   }"

definition pk_in_keystore :: "string \<Rightarrow> nat \<Rightarrow> 'p hsm \<Rightarrow> int option" where
  "pk_in_keystore public_key_hex offset st =
     pk_in_keystore_loop (nat (keystore_size st)) 0 public_key_hex offset st 0
       (if keystore_size st = 0 then -1 else 0)"

section \<open>Key generation, signing, verification, reset, import\<close>

primrec rand_bytes :: "nat \<Rightarrow> 'p ext \<Rightarrow> 'p \<Rightarrow> bytes \<times> 'p" where
  "rand_bytes 0 ext p = ([], p)"
| "rand_bytes (Suc n) ext p =
     (let (r, p1) = libc_rand ext p; (bs, p2) = rand_bytes n ext p1 in (word_of_int r # bs, p2))"

text \<open>The key material: the status of the entropy source, the 32 bytes, the new platform state.\<close>

definition keygen_ikm :: "build \<Rightarrow> 'p ext \<Rightarrow> 'p \<Rightarrow> int \<times> bytes \<times> 'p" where
  "keygen_ikm b ext p = (case b of
     Nrf_Tfm \<Rightarrow> psa_generate_random ext 32 p
   | Nrf_Wifi \<Rightarrow> (0, replicate 32 0, p)
   | Native \<Rightarrow> (let (bs, p1) = rand_bytes 32 ext p in (0, bs, p1)))"

text \<open>
  \<open>info\<close> is the memory the pointer refers to, or \<open>None\<close> for NULL, when a zeroed array of 32
  characters is used. \<open>blst_keygen\<close> reads \<open>sizeof(info)\<close> bytes of it, the size of the pointer.
\<close>

definition info_bytes :: "char list option \<Rightarrow> bytes option" where
  "info_bytes info = (
     let m = (case info of None \<Rightarrow> replicate 32 nul | Some m \<Rightarrow> m) in
     if length m < sizeof_ptr then None else Some (map ord8 (take sizeof_ptr m)))"

definition secure_keygen :: "build \<Rightarrow> 'p ext \<Rightarrow> char list option \<Rightarrow> 'p hsm \<Rightarrow> (int \<times> 'p hsm) option" where
  "secure_keygen b ext info st = (
     if keystore_size st \<ge> MAX_KEYSTORE_SIZE then Some (- KEYSLIMIT, st)
     else
       let (status, ikm, p1) = keygen_ikm b ext (plat st); st1 = st\<lparr>plat := p1\<rparr> in
       if status \<noteq> PSA_SUCCESS then Some (RNGERR, st1)
       else do {
         key_info \<leftarrow> info_bytes info;
         let sk_gen = blst_keygen ext ikm key_info;
         (_, st2) \<leftarrow> add_sk b ext sk_gen st1;
         (r, pk_hex) \<leftarrow> pk_hex_of ext sk_gen 97;
         if r = 0 then Some (- BIN2HEXERR, st2)
         else do {
           pks \<leftarrow> put_int (public_keys_hex_store st2) (keystore_size st2 - 1) (take 96 pk_hex);
           let st3 = st2\<lparr>public_keys_hex_store := pks\<rparr>;
           Some (keystore_size st3 - 1, st3)
         }
       })"

text \<open>\<open>junk\<close> is what the stack holds where \<open>msg_bin\<close> is allocated; \<open>sign\<close> the output string.\<close>

definition sign_pk :: "'p ext \<Rightarrow> (nat \<Rightarrow> byte) \<Rightarrow> string \<Rightarrow> string \<Rightarrow> string \<Rightarrow> 'p hsm \<Rightarrow> (int \<times> string) option" where
  "sign_pk ext junk pk msg sign st = do {
     pk_index \<leftarrow> pk_in_keystore pk 0 st;
     if pk_index \<noteq> -1 then do {
       let len = msg_len msg;
       let n = nat (len div 2 + len mod 2);
       (err, msg_bin, sign1) \<leftarrow> msg_parse msg (stack_arr junk n) len (Some sign);
       if err \<noteq> 1 then do {
         let hash = get_point_from_msg ext msg_bin n;
         sk \<leftarrow> at_int (secret_keys_store st) pk_index;
         let sig_bin = sig_serialize ext (blst_sign_pk_in_g1 ext hash sk);
         (r, sig_hex) \<leftarrow> bin2hex_todo sig_bin 96 (replicate 193 nul) 193;
         if r = 0 then Some (BIN2HEXERR, the sign1) else Some (0, cstr sig_hex)
       } else Some (-99, the sign1)
     } else Some (PKNOTFOUND, sign)
   }"

definition verify_sign :: "'p ext \<Rightarrow> (nat \<Rightarrow> byte) \<Rightarrow> string \<Rightarrow> string \<Rightarrow> string \<Rightarrow> int option" where
  "verify_sign ext junk pk msg sig = do {
     let len = msg_len msg;
     let n = nat (len div 2 + len mod 2);
     (e1, pk_bin, _) \<leftarrow> pk_parse ext pk [] None;
     if e1 \<noteq> 0 then Some (-1)
     else do {
       (e2, msg_bin, _) \<leftarrow> msg_parse msg (stack_arr junk n) len None;
       if e2 \<noteq> 0 then Some (-1)
       else do {
         (e3, sig_bin, _) \<leftarrow> sig_parse ext sig [] None;
         if e3 \<noteq> 0 then Some (-1)
         else if blst_core_verify_pk_in_g1 ext pk_bin sig_bin (take n msg_bin) dst_tag \<noteq> BLST_SUCCESS
         then Some BLSTFAIL else Some BLSTSUCCESS
       }
     }
   }"

primrec remove_uids :: "nat \<Rightarrow> nat \<Rightarrow> 'p ext \<Rightarrow> 'p \<Rightarrow> 'p" where
  "remove_uids 0 i ext p = p"
| "remove_uids (Suc n) i ext p = remove_uids n (Suc i) ext (snd (psa_ps_remove ext i p))"

definition reset :: "build \<Rightarrow> 'p ext \<Rightarrow> 'p hsm \<Rightarrow> 'p hsm" where
  "reset b ext st = (
     let st1 = st\<lparr>secret_keys_store := map (\<lambda>_. replicate 32 0) (secret_keys_store st)\<rparr>;
         p2 = (if b = Nrf_Tfm
               then let (_, p1) = psa_ps_set ext UID_KEYSTORE_SIZE (le32 0) (plat st1)
                    in remove_uids (nat (keystore_size st1)) 1 ext p1
               else plat st1)
     in st1\<lparr>keystore_size := 0, plat := p2,
          public_keys_hex_store := map (\<lambda>_. replicate 96 nul) (public_keys_hex_store st1)\<rparr>)"

primrec sk_differs :: "nat \<Rightarrow> nat \<Rightarrow> bytes \<Rightarrow> bytes \<Rightarrow> int \<Rightarrow> int option" where
  "sk_differs 0 x row sk c = Some c"
| "sk_differs (Suc n) x row sk c = do {
     a \<leftarrow> at row x;
     b \<leftarrow> at sk x;
     if a \<noteq> b then Some 1 else sk_differs n (Suc x) row sk c
   }"

text \<open>The search of \<open>import_sk\<close>: \<open>ret\<close> and the state after the loop.\<close>

primrec import_sk_loop :: "nat \<Rightarrow> int \<Rightarrow> build \<Rightarrow> 'p ext \<Rightarrow> bytes \<Rightarrow> 'p hsm \<Rightarrow> int \<Rightarrow> (int \<times> 'p hsm) option" where
  "import_sk_loop 0 i b ext sk st c = Some (0, st)"
| "import_sk_loop (Suc n) i b ext sk st c = do {
     row \<leftarrow> at_int (secret_keys_store st) i;
     c1 \<leftarrow> sk_differs 32 0 row sk c;
     if c1 = 0 then Some (-1, st)
     else if i + 1 < keystore_size st then import_sk_loop n (i + 1) b ext sk st 0
     else do { (_, st1) \<leftarrow> add_sk b ext sk st; Some (0, st1) }
   }"

text \<open>The whole block that adds the key unless it is there.\<close>

definition import_sk_add :: "build \<Rightarrow> 'p ext \<Rightarrow> bytes \<Rightarrow> 'p hsm \<Rightarrow> (int \<times> 'p hsm) option" where
  "import_sk_add b ext sk st =
     (if keystore_size st = 0
      then do { (_, s) \<leftarrow> add_sk b ext sk st; Some (0, s) }
      else import_sk_loop (nat (keystore_size st)) 0 b ext sk st 0)"

definition import_sk :: "build \<Rightarrow> 'p ext \<Rightarrow> string \<Rightarrow> 'p hsm \<Rightarrow> (int \<times> 'p hsm) option" where
  "import_sk b ext sk st = (
     if keystore_size st \<ge> MAX_KEYSTORE_SIZE then Some (- KEYSLIMIT, st)
     else do {
       (r, sk_bin) \<leftarrow> hex2bin_todo sk 64 (replicate 32 0) 32;
       if r = 0 then Some (- HEX2BINERR, st)
       else do {
         let sk_imp = blst_scalar_from_bendian ext sk_bin;
         (ret, st1) \<leftarrow> import_sk_add b ext sk_imp st;
         if ret \<noteq> 0 then Some (EXISTINGKEY, st1)
         else do {
           (r2, pk_hex) \<leftarrow> pk_hex_of ext sk_imp 97;
           if r2 = 0 then Some (- BIN2HEXERR, st1)
           else do {
             pks \<leftarrow> put_int (public_keys_hex_store st1) (keystore_size st1 - 1) (take 96 pk_hex);
             let st2 = st1\<lparr>public_keys_hex_store := pks\<rparr>;
             Some (keystore_size st2 - 1, st2)
           }
         }
       }
     })"

section \<open>What the operations rely on and what they keep\<close>

text \<open>Documented sizes of the results of blst: a scalar has 32 bytes, a compressed point of G1 has 48, of G2 has 96.\<close>

definition blst_sizes :: "'p ext \<Rightarrow> bool" where
  "blst_sizes ext \<longleftrightarrow>
     (\<forall>ikm info. length (blst_keygen ext ikm info) = 32) \<and>
     (\<forall>bs. length (blst_scalar_from_bendian ext bs) = 32) \<and>
     (\<forall>pk. length (blst_p1_compress ext pk) = 48) \<and>
     (\<forall>sig. length (blst_p2_compress ext sig) = 96)"

definition pkhex :: "'p ext \<Rightarrow> bytes \<Rightarrow> string" where
  "pkhex ext sk = hexstr (blst_p1_compress ext (blst_sk_to_pk_in_g1 ext sk))"

definition hsm_shape :: "'p hsm \<Rightarrow> bool" where
  "hsm_shape st \<longleftrightarrow>
     length (secret_keys_store st) = 10 \<and> (\<forall>r \<in> set (secret_keys_store st). length r = 32) \<and>
     length (public_keys_hex_store st) = 10 \<and> (\<forall>r \<in> set (public_keys_hex_store st). length r = 96) \<and>
     0 \<le> keystore_size st \<and> keystore_size st \<le> 10"

definition hsm_inv :: "'p ext \<Rightarrow> 'p hsm \<Rightarrow> bool" where
  "hsm_inv ext st \<longleftrightarrow> hsm_shape st \<and>
     (\<forall>i < nat (keystore_size st). public_keys_hex_store st ! i = pkhex ext (secret_keys_store st ! i))"

text \<open>The abstract value of a keystore: its secret keys in order of creation.\<close>

definition hsm_keys :: "'p hsm \<Rightarrow> bytes list" where
  "hsm_keys st = take (nat (keystore_size st)) (secret_keys_store st)"

lemma length_pkhex: "blst_sizes ext \<Longrightarrow> length (pkhex ext sk) = 96"
  by (simp add: pkhex_def blst_sizes_def)

lemma nul_pkhex: "nul \<notin> set (pkhex ext sk)"
  by (simp add: pkhex_def nul_hexstr)

lemma pk_hex_of_ok:
  "blst_sizes ext \<Longrightarrow> 95 \<le> hexlen \<Longrightarrow> pk_hex_of ext sk hexlen = Some (96, pkhex ext sk @ [nul])"
  by (simp add: pk_hex_of_def Let_def pkhex_def blst_sizes_def bin2hex_ok)

lemma hsm_shapeD:
  assumes "hsm_shape st"
  shows "length (secret_keys_store st) = 10" "length (public_keys_hex_store st) = 10"
    "0 \<le> keystore_size st" "keystore_size st \<le> 10"
    "\<And>r. r \<in> set (secret_keys_store st) \<Longrightarrow> length r = 32"
    "\<And>r. r \<in> set (public_keys_hex_store st) \<Longrightarrow> length r = 96"
  using assms by (simp_all add: hsm_shape_def)

lemma hsm_inv_shape: "hsm_inv ext st \<Longrightarrow> hsm_shape st"
  by (simp add: hsm_inv_def)

lemma length_hsm_keys: "hsm_shape st \<Longrightarrow> int (length (hsm_keys st)) = keystore_size st"
  by (auto simp: hsm_keys_def hsm_shape_def min_def)

lemma length_hsm_keys_nat: "hsm_shape st \<Longrightarrow> length (hsm_keys st) = nat (keystore_size st)"
  by (auto simp: hsm_keys_def hsm_shape_def min_def)

lemma hsm_keys_nth: "hsm_shape st \<Longrightarrow> i < length (hsm_keys st) \<Longrightarrow> hsm_keys st ! i = secret_keys_store st ! i"
  by (simp add: hsm_keys_def)

lemma hsm_inv_row:
  "hsm_inv ext st \<Longrightarrow> i < length (hsm_keys st) \<Longrightarrow> public_keys_hex_store st ! i = pkhex ext (hsm_keys st ! i)"
  by (simp add: hsm_inv_def length_hsm_keys_nat hsm_keys_nth)

lemma hsm_inv_boot: "hsm_inv ext (hsm_boot p)"
  by (simp add: hsm_inv_def hsm_shape_def hsm_boot_def)

lemma hsm_inv_plat [simp]: "hsm_inv ext (st\<lparr>plat := p\<rparr>) = hsm_inv ext st"
  by (simp add: hsm_inv_def hsm_shape_def)

lemma hsm_keys_plat [simp]: "hsm_keys (st\<lparr>plat := p\<rparr>) = hsm_keys st"
  by (simp add: hsm_keys_def)

lemma hsm_shape_plat [simp]: "hsm_shape (st\<lparr>plat := p\<rparr>) = hsm_shape st"
  by (simp add: hsm_shape_def)

subsection \<open>Adding a key\<close>

text \<open>The keystore after \<open>sk\<close> and the text \<open>pk\<close> were stored as its last pair.\<close>

definition hsm_append :: "bytes \<Rightarrow> string \<Rightarrow> 'p hsm \<Rightarrow> 'p hsm" where
  "hsm_append sk pk st = st\<lparr>
     secret_keys_store := (secret_keys_store st)[nat (keystore_size st) := sk],
     public_keys_hex_store := (public_keys_hex_store st)[nat (keystore_size st) := pk],
     keystore_size := keystore_size st + 1\<rparr>"

lemma hsm_append_keys:
  assumes "hsm_shape st" and "keystore_size st < 10"
  shows "hsm_keys (hsm_append sk pk st) = hsm_keys st @ [sk]"
  using assms by (simp add: hsm_keys_def hsm_append_def hsm_shape_def nat_add_distrib take_Suc_conv_app_nth)

lemma hsm_append_inv:
  assumes "hsm_inv ext st" and "keystore_size st < 10" and "length sk = 32" and "blst_sizes ext"
  shows "hsm_inv ext (hsm_append sk (pkhex ext sk) st)"
  using assms unfolding hsm_inv_def hsm_shape_def hsm_append_def
  by (auto simp: nth_list_update length_pkhex nat_add_distrib dest: set_update_subset_insert [THEN subsetD])

text \<open>The status and the platform state that persisting a changed keystore leaves.\<close>

definition persist :: "build \<Rightarrow> 'p ext \<Rightarrow> bytes list \<Rightarrow> int \<Rightarrow> 'p \<Rightarrow> int \<times> 'p" where
  "persist b ext sks n p = (
     if b \<noteq> Nrf_Tfm then (0, p)
     else let (s1, p1) = psa_ps_set ext UID_KEYSTORE (concat sks) p in
       if s1 \<noteq> PSA_SUCCESS then (s1, p1) else psa_ps_set ext UID_KEYSTORE_SIZE (le32 n) p1)"

lemma add_sk_ok:
  assumes "hsm_shape st" and "keystore_size st < 10"
  shows "add_sk b ext sk st =
    (let sks = (secret_keys_store st)[nat (keystore_size st) := sk];
         (s, p) = persist b ext sks (keystore_size st + 1) (plat st)
     in Some (s, st\<lparr>secret_keys_store := sks, keystore_size := keystore_size st + 1, plat := p\<rparr>))"
  using assms hsm_shapeD [OF assms(1)]
  by (auto simp: add_sk_def persist_def c_simps Let_def split: prod.splits)

lemma store_new_pk:
  assumes "hsm_shape st" and "keystore_size st < 10"
  shows "put_int (public_keys_hex_store st) (keystore_size st) pk =
    Some ((public_keys_hex_store st)[nat (keystore_size st) := pk])"
  using hsm_shapeD [OF assms(1)] assms(2) by (simp add: c_simps)

lemma secure_keygen_ok:
  assumes inv: "hsm_inv ext st" and sz: "blst_sizes ext" and room: "keystore_size st < 10"
    and ikm: "keygen_ikm b ext (plat st) = (0, ikm, p1)"
    and info: "info_bytes info = Some key_info"
    and sk: "sk = blst_keygen ext ikm key_info"
  shows "secure_keygen b ext info st =
    Some (keystore_size st, (hsm_append sk (pkhex ext sk) st)\<lparr>plat := snd (persist b ext
      ((secret_keys_store st)[nat (keystore_size st) := sk]) (keystore_size st + 1) p1)\<rparr>)"
proof -
  have sh: "hsm_shape (st\<lparr>plat := p1\<rparr>)" "keystore_size (st\<lparr>plat := p1\<rparr>) < 10"
    using inv room by (simp_all add: hsm_inv_def)
  show ?thesis
    using room ikm info store_new_pk [OF sh, of "pkhex ext sk"]
    by (simp add: secure_keygen_def Let_def add_sk_ok [OF sh] pk_hex_of_ok [OF sz] sk [symmetric]
        length_pkhex [OF sz] hsm_append_def split: prod.splits)
qed

subsection \<open>Looking a public key up\<close>

definition pk_matches :: "string \<Rightarrow> nat \<Rightarrow> string \<Rightarrow> bool" where
  "pk_matches pk offset row \<longleftrightarrow> (\<forall>j < 96. chr_at pk (j + offset) = chr_at row j)"

lemma pk_differs_eq:
  "pk_differs n j pk offset row c =
     (if \<forall>k < n. chr_at pk (j + k + offset) = chr_at row (j + k) then c else 1)"
proof (induction n arbitrary: j)
  case 0
  then show ?case by simp
next
  case (Suc n)
  have "(\<forall>k < Suc n. chr_at pk (j + k + offset) = chr_at row (j + k)) \<longleftrightarrow>
      chr_at pk (j + offset) = chr_at row j \<and> (\<forall>k < n. chr_at pk (Suc j + k + offset) = chr_at row (Suc j + k))"
    by (auto simp: less_Suc_eq_0_disj)
  then show ?case
    by (simp only: pk_differs.simps Suc.IH) auto
qed

lemma pk_differs_0: "pk_differs 96 0 pk offset row 0 = 0 \<longleftrightarrow> pk_matches pk offset row"
  by (simp add: pk_differs_eq pk_matches_def)

text \<open>The first index from \<open>i\<close> on, among \<open>n\<close>, whose row matches; \<open>-1\<close> when there is none.\<close>

definition index_of :: "(nat \<Rightarrow> bool) \<Rightarrow> nat \<Rightarrow> int" where
  "index_of P n = (case find P [0..<n] of None \<Rightarrow> -1 | Some i \<Rightarrow> int i)"

lemma pk_in_keystore_loop_eq:
  assumes sh: "hsm_shape st" and m: "keystore_size st = int m"
  shows "i + Suc n = m \<Longrightarrow>
    pk_in_keystore_loop (Suc n) (int i) pk offset st 0 0 =
      Some (case find (\<lambda>k. pk_matches pk offset (public_keys_hex_store st ! k)) [i..<m] of
              None \<Rightarrow> -1 | Some k \<Rightarrow> int k)"
proof (induction n arbitrary: i)
  case 0
  then have "at_int (public_keys_hex_store st) (int i) = Some (public_keys_hex_store st ! i)"
    using hsm_shapeD [OF sh] m by (simp add: c_simps)
  with 0 m show ?case
    by (auto simp: pk_differs_0 upt_conv_Cons simp del: pk_differs.simps upt_Suc)
next
  case (Suc n)
  have at: "at_int (public_keys_hex_store st) (int i) = Some (public_keys_hex_store st ! i)"
    using hsm_shapeD [OF sh] Suc.prems m by (simp add: c_simps)
  have IH: "pk_in_keystore_loop (Suc n) (int i + 1) pk offset st 0 0 =
      Some (case find (\<lambda>k. pk_matches pk offset (public_keys_hex_store st ! k)) [Suc i..<m] of
              None \<Rightarrow> -1 | Some k \<Rightarrow> int k)"
    using Suc.IH [of "Suc i"] Suc.prems
    by (simp add: add.commute del: pk_in_keystore_loop.simps upt_Suc)
  have "[i..<m] = i # [Suc i..<m]" "int i + 1 < int m"
    using Suc.prems by (simp_all add: upt_conv_Cons)
  with at m show ?case
    unfolding pk_in_keystore_loop.simps(2) [of "Suc n"]
    by (simp add: pk_differs_0 IH del: pk_differs.simps pk_in_keystore_loop.simps upt_Suc)
qed

lemma pk_in_keystore_eq:
  assumes "hsm_shape st"
  shows "pk_in_keystore pk offset st =
    Some (index_of (\<lambda>k. pk_matches pk offset (public_keys_hex_store st ! k)) (nat (keystore_size st)))"
proof (cases "nat (keystore_size st)")
  case 0
  then show ?thesis
    using hsm_shapeD [OF assms] by (simp add: pk_in_keystore_def index_of_def)
next
  case (Suc n)
  then have "keystore_size st \<noteq> 0" and "keystore_size st = int (Suc n)"
    using hsm_shapeD [OF assms] by auto
  with pk_in_keystore_loop_eq [OF assms, of "Suc n" 0 n pk offset] show ?thesis
    unfolding pk_in_keystore_def index_of_def Suc by (simp del: pk_in_keystore_loop.simps upt_Suc)
qed

lemma index_of_bounds: "index_of P n = int i \<Longrightarrow> i < n \<and> P i"
  by (auto simp: index_of_def find_Some_iff split: option.splits)

lemma index_of_none: "index_of P n = -1 \<longleftrightarrow> (\<forall>i < n. \<not> P i)"
  by (auto simp: index_of_def find_None_iff split: option.splits dest: find_None_iff [THEN iffD1] simp: find_Some_iff)

lemma index_of_first: "i < n \<Longrightarrow> P i \<Longrightarrow> (\<And>j. j < i \<Longrightarrow> \<not> P j) \<Longrightarrow> index_of P n = int i"
  by (auto simp: index_of_def find_None_iff find_Some_iff split: option.splits) (meson nat_neq_iff)

lemma index_of_cases: "index_of P n = -1 \<or> (\<exists>i < n. P i \<and> index_of P n = int i)"
  by (auto simp: index_of_def find_Some_iff split: option.splits)

lemma pk_matches_row:
  "length row = 96 \<Longrightarrow> pk_matches pk 0 row \<longleftrightarrow> map (chr_at pk) [0..<96] = row"
  by (auto simp: pk_matches_def list_eq_iff_nth_eq c_simps)

lemma pk_matches_eq: "length row = 96 \<Longrightarrow> length pk = 96 \<Longrightarrow> pk_matches pk 0 row \<longleftrightarrow> pk = row"
  by (auto simp: pk_matches_def list_eq_iff_nth_eq c_simps)

lemma length_msg_bin:
  "nat (msg_len msg div 2 + msg_len msg mod 2) = length (strip0x msg) div 2 + length (strip0x msg) mod 2"
  by (simp add: msg_len_eq nat_add_distrib nat_div_distrib nat_mod_distrib)

text \<open>What \<open>sign_pk\<close> puts into \<open>msg_bin\<close>: the decoded message, or the stack contents when the text is malformed.\<close>

definition signed_bytes :: "(nat \<Rightarrow> byte) \<Rightarrow> string \<Rightarrow> bytes" where
  "signed_bytes junk msg = (
     let s = strip0x msg in
     if list_all is_hex s then hexbytes s else stack_arr junk (length s div 2 + length s mod 2))"

definition signature_of :: "'p ext \<Rightarrow> bytes \<Rightarrow> bytes \<Rightarrow> string" where
  "signature_of ext sk m = hexstr (blst_p2_compress ext (blst_sign_pk_in_g1 ext (blst_hash_to_g2 ext m dst_tag) sk))"

lemma length_hexbytes: "length (hexbytes s) = length s div 2 + length s mod 2"
proof (cases "even (length s)")
  case True
  then show ?thesis by (simp add: hexbytes_def length_unhex)
next
  case False
  then obtain m where "length s = 2 * m + 1" by (auto elim: oddE)
  then show ?thesis
    by (simp add: hexbytes_def length_unhex)
qed

lemma list_all_chr_at: "list_all is_hex s \<Longrightarrow> k < length s \<Longrightarrow> is_hex (chr_at s k)"
  by (simp add: c_simps list_all_length)

lemma hex2bin_all:
  assumes "list_all is_hex s" and "length s = hexlen" and "length buf = hexlen div 2 + hexlen mod 2"
  shows "hex2bin s hexlen buf (hexlen div 2 + hexlen mod 2) =
    Some (hexlen div 2 + hexlen mod 2, hexbytes s)"
  using hex2bin_good [of "length buf" buf hexlen s] assms by (simp add: list_all_chr_at)

lemma msg_parse_ok:
  assumes "list_all is_hex (strip0x msg)" and "strip0x msg \<noteq> []"
    and "length buf = length (strip0x msg) div 2 + length (strip0x msg) mod 2"
  shows "msg_parse msg buf (msg_len msg) buff = Some (0, hexbytes (strip0x msg), buff)"
proof -
  have "drop (nat (parse_hex msg (msg_len msg))) msg = strip0x msg"
    using assms(1) by (simp add: parse_hex_msg_len strip0x_def)
  moreover have "nat (msg_len msg) = length (strip0x msg)"
    by (simp add: msg_len_eq)
  moreover have "length (strip0x msg) div 2 + length (strip0x msg) mod 2 \<noteq> 0"
    using assms(2) by (metis add_is_0 div_mod_decomp length_0_conv mult_0)
  ultimately show ?thesis
    using assms hex2bin_all [of "strip0x msg" "length (strip0x msg)" buf]
    by (simp add: msg_parse_def Let_def parse_hex_msg_len length_msg_bin)
qed

lemma msg_parse_bad:
  "\<not> list_all is_hex (strip0x msg) \<Longrightarrow>
   msg_parse msg buf (msg_len msg) buff = Some (BADFORMAT, buf, log_to buff ''Message contains incorrect characters.\<newline>'')"
  by (simp add: msg_parse_def Let_def parse_hex_msg_len)

lemma bin2hex_sig:
  "blst_sizes ext \<Longrightarrow> bin2hex (blst_p2_compress ext sig) 96 (replicate 193 nul) 193 =
     Some (192, hexstr (blst_p2_compress ext sig) @ [nul])"
  by (simp add: blst_sizes_def bin2hex_ok)

lemma sign_pk_found:
  assumes inv: "hsm_inv ext st" and sz: "blst_sizes ext" and "strip0x msg \<noteq> []"
    and idx: "index_of (\<lambda>k. pk_matches pk 0 (public_keys_hex_store st ! k)) (length (hsm_keys st)) = int i"
  shows "sign_pk ext junk pk msg sign st = Some (0, signature_of ext (hsm_keys st ! i) (signed_bytes junk msg))"
proof -
  have sh: "hsm_shape st" using inv by (rule hsm_inv_shape)
  have i: "i < length (hsm_keys st)"
    using index_of_bounds [OF idx] by simp
  have sk: "at_int (secret_keys_store st) (int i) = Some (hsm_keys st ! i)"
    using i hsm_shapeD [OF sh] length_hsm_keys [OF sh] by (simp add: c_simps hsm_keys_nth [OF sh])
  have look: "pk_in_keystore pk 0 st = Some (int i)"
    using idx by (simp add: pk_in_keystore_eq [OF sh] length_hsm_keys_nat [OF sh])
  have "\<exists>e s. msg_parse msg (stack_arr junk (nat (msg_len msg div 2 + msg_len msg mod 2))) (msg_len msg) (Some sign) =
      Some (e, signed_bytes junk msg, Some s) \<and> e \<noteq> 1"
    using assms(3) by (auto simp: signed_bytes_def Let_def msg_parse_ok msg_parse_bad log_to_def length_msg_bin)
  moreover have "take (length (strip0x msg) div 2 + length (strip0x msg) mod 2) (signed_bytes junk msg) = signed_bytes junk msg"
    by (simp add: signed_bytes_def Let_def length_hexbytes)
  ultimately show ?thesis
    using look sk bin2hex_sig [OF sz] cstr_terminated [OF nul_hexstr, of _ "[]"]
    by (auto simp: sign_pk_def Let_def get_point_from_msg_def sig_serialize_def signature_of_def length_msg_bin)
qed

lemma sign_pk_not_found:
  assumes "hsm_shape st" and "\<And>i. i < length (hsm_keys st) \<Longrightarrow> \<not> pk_matches pk 0 (public_keys_hex_store st ! i)"
  shows "sign_pk ext junk pk msg sign st = Some (PKNOTFOUND, sign)"
proof -
  have "pk_in_keystore pk 0 st = Some (-1)"
    using assms by (simp add: pk_in_keystore_eq index_of_none length_hsm_keys_nat)
  then show ?thesis
    by (simp add: sign_pk_def)
qed

lemma get_key_ok:
  assumes inv: "hsm_inv ext st" and "blst_sizes ext" and i: "i < length (hsm_keys st)" and "length buf = 96"
  shows "get_key (int i) buf st = Some (0, pkhex ext (hsm_keys st ! i))"
proof -
  note sh = hsm_inv_shape [OF inv]
  have "at_int (public_keys_hex_store st) (int i) = Some (pkhex ext (hsm_keys st ! i))"
    using i hsm_shapeD [OF sh] length_hsm_keys [OF sh] hsm_inv_row [OF inv i] by (simp add: c_simps)
  then show ?thesis
    using assms length_hsm_keys [OF sh] by (simp add: get_key_def c_simps length_pkhex)
qed

lemma get_keys_loop_ok:
  assumes "length (public_keys_hex_store st) = 10" and "\<And>r. r \<in> set (public_keys_hex_store st) \<Longrightarrow> length r = 96"
  shows "i + n = length dst \<Longrightarrow> length dst \<le> 10 \<Longrightarrow> (\<And>r. r \<in> set dst \<Longrightarrow> length r = 96) \<Longrightarrow>
    get_keys_loop n i st dst = Some (take i dst @ take n (drop i (public_keys_hex_store st)))"
proof (induction n arbitrary: i dst)
  case 0
  then show ?case by simp
next
  case (Suc n)
  let ?row = "public_keys_hex_store st ! i"
  have len: "length ?row = 96" "length (dst ! i) = 96"
    using assms Suc.prems by (simp_all add: nth_mem)
  have "get_keys_loop (Suc n) i st dst = get_keys_loop n (Suc i) st (dst[i := ?row])"
    using Suc.prems assms(1) len by (simp add: c_simps)
  also have "\<dots> = Some (take (Suc i) (dst[i := ?row]) @ take n (drop (Suc i) (public_keys_hex_store st)))"
    using Suc.prems len by (intro Suc.IH) (auto dest: set_update_subset_insert [THEN subsetD])
  finally show ?case
    using Suc.prems assms(1) by (simp add: take_Suc_conv_app_nth Cons_nth_drop_Suc [symmetric])
qed

lemma get_keys_ok:
  assumes inv: "hsm_inv ext st" and "length dst = length (hsm_keys st)" and "\<And>r. r \<in> set dst \<Longrightarrow> length r = 96"
  shows "get_keys dst st = Some (map (pkhex ext) (hsm_keys st))"
proof -
  note sh = hsm_inv_shape [OF inv]
  have "get_keys dst st = Some (take (length (hsm_keys st)) (public_keys_hex_store st))"
    using assms hsm_shapeD [OF sh] length_hsm_keys_nat [OF sh] get_keys_loop_ok [of st 0 "length dst" dst]
    by (simp add: get_keys_def)
  also have "take (length (hsm_keys st)) (public_keys_hex_store st) = map (pkhex ext) (hsm_keys st)"
    using hsm_inv_row [OF inv] hsm_shapeD [OF sh] length_hsm_keys_nat [OF sh]
    by (auto intro!: nth_equalityI)
  finally show ?thesis .
qed

subsection \<open>Importing a key\<close>

lemma sk_differs_eq:
  "x + n \<le> length row \<Longrightarrow> length row = length sk \<Longrightarrow>
   sk_differs n x row sk c = Some (if take n (drop x row) = take n (drop x sk) then c else 1)"
proof (induction n arbitrary: x)
  case 0
  then show ?case by simp
next
  case (Suc n)
  then show ?case
    by (simp add: c_simps Cons_nth_drop_Suc [symmetric])
qed

lemma sk_differs_row: "length row = 32 \<Longrightarrow> length sk = 32 \<Longrightarrow> sk_differs 32 0 row sk 0 = Some (if row = sk then 0 else 1)"
  by (subst sk_differs_eq) simp_all

lemma import_sk_loop_eq:
  assumes sh: "hsm_shape st" and sk: "length sk = 32" and m: "keystore_size st = int m"
  shows "i + Suc n = m \<Longrightarrow>
    import_sk_loop (Suc n) (int i) b ext sk st 0 =
      (if sk \<in> set (drop i (hsm_keys st)) then Some (-1, st)
       else do { (_, st1) \<leftarrow> add_sk b ext sk st; Some (0, st1) })"
proof (induction n arbitrary: i)
  case 0
  have km: "length (hsm_keys st) = m"
    using m by (simp add: length_hsm_keys_nat [OF sh])
  have row: "at_int (secret_keys_store st) (int i) = Some (hsm_keys st ! i)" "length (hsm_keys st ! i) = 32"
    using hsm_shapeD [OF sh] 0 m km by (auto simp: c_simps hsm_keys_nth [OF sh])
  with 0 m sk km show ?case
    by (auto simp: sk_differs_row Cons_nth_drop_Suc [symmetric] simp del: sk_differs.simps)
next
  case (Suc n)
  have km: "length (hsm_keys st) = m"
    using m by (simp add: length_hsm_keys_nat [OF sh])
  have row: "at_int (secret_keys_store st) (int i) = Some (hsm_keys st ! i)" "length (hsm_keys st ! i) = 32"
    using hsm_shapeD [OF sh] Suc.prems m km by (auto simp: c_simps hsm_keys_nth [OF sh])
  have IH: "import_sk_loop (Suc n) (int i + 1) b ext sk st 0 =
      (if sk \<in> set (drop (Suc i) (hsm_keys st)) then Some (-1, st)
       else do { (_, st1) \<leftarrow> add_sk b ext sk st; Some (0, st1) })"
    using Suc.IH [of "Suc i"] Suc.prems by (simp add: add.commute del: import_sk_loop.simps)
  have "int i + 1 < int m" "drop i (hsm_keys st) = hsm_keys st ! i # drop (Suc i) (hsm_keys st)"
    using Suc.prems km by (simp_all add: Cons_nth_drop_Suc)
  with row m sk show ?case
    unfolding import_sk_loop.simps(2) [of "Suc n"]
    by (auto simp: sk_differs_row IH simp del: sk_differs.simps import_sk_loop.simps)
qed

lemma import_sk_full: "keystore_size st \<ge> 10 \<Longrightarrow> import_sk b ext sk st = Some (- KEYSLIMIT, st)"
  by (simp add: import_sk_def)

lemma import_sk_bad_hex:
  assumes "keystore_size st < 10" and "\<exists>k < 64. \<not> is_hex (chr_at sk k)"
  shows "import_sk b ext sk st = Some (- HEX2BINERR, st)"
proof -
  obtain bb where "hex2bin sk 64 (replicate 32 0) 32 = Some (0, bb)"
    using hex2bin_bad [of 32 "replicate 32 0" 64 sk] assms(2) by auto
  with assms(1) show ?thesis
    by (simp add: import_sk_def)
qed

lemma import_sk_search:
  assumes sh: "hsm_shape st" and "length sk = 32"
  shows "import_sk_add b ext sk st =
    (if sk \<in> set (hsm_keys st) then Some (-1, st) else do { (_, st1) \<leftarrow> add_sk b ext sk st; Some (0, st1) })"
proof (cases "keystore_size st = 0")
  case True
  then show ?thesis by (simp add: import_sk_add_def hsm_keys_def)
next
  case False
  then obtain n where n: "nat (keystore_size st) = Suc n" "keystore_size st = int (Suc n)"
    using hsm_shapeD [OF sh] by (metis nat_0_iff nat_eq_iff not0_implies_Suc le_antisym)
  show ?thesis
    using import_sk_loop_eq [OF assms n(2), of 0 n b ext] False
    unfolding import_sk_add_def n(1) by (simp del: import_sk_loop.simps)
qed

lemma import_sk_valid:
  assumes inv: "hsm_inv ext st" and sz: "blst_sizes ext" and room: "keystore_size st < 10"
    and hx: "\<And>k. k < 64 \<Longrightarrow> is_hex (chr_at skt k)"
    and sk: "sk = blst_scalar_from_bendian ext (hexbytes (take 64 skt))"
  shows "import_sk b ext skt st =
    (if sk \<in> set (hsm_keys st) then Some (EXISTINGKEY, st)
     else Some (keystore_size st, (hsm_append sk (pkhex ext sk) st)\<lparr>plat := snd (persist b ext
       ((secret_keys_store st)[nat (keystore_size st) := sk]) (keystore_size st + 1) (plat st))\<rparr>))"
proof -
  note sh = hsm_inv_shape [OF inv]
  have len: "length sk = 32"
    using sz by (simp add: sk blst_sizes_def)
  have "hex2bin skt 64 (replicate 32 0) 32 = Some (32, hexbytes (take 64 skt))"
    using hex2bin_good [of 32 "replicate 32 0" 64 skt] hx by simp
  then show ?thesis
    using room store_new_pk [OF sh room, of "pkhex ext sk"]
    by (simp add: import_sk_def sk [symmetric] import_sk_search [OF sh len] add_sk_ok [OF sh room] Let_def
        pk_hex_of_ok [OF sz] length_pkhex [OF sz] hsm_append_def split: prod.splits)
qed

subsection \<open>Reset\<close>

lemma reset_inv: "hsm_shape st \<Longrightarrow> hsm_inv ext (reset b ext st)"
  by (auto simp: hsm_inv_def hsm_shape_def reset_def Let_def)

lemma reset_keys: "hsm_keys (reset b ext st) = []"
  by (simp add: hsm_keys_def reset_def Let_def)

lemma reset_erases:
  "hsm_shape st \<Longrightarrow> secret_keys_store (reset b ext st) = replicate 10 (replicate 32 0) \<and>
     public_keys_hex_store (reset b ext st) = replicate 10 (replicate 96 nul) \<and> keystore_size (reset b ext st) = 0"
  by (simp add: hsm_shape_def reset_def Let_def map_replicate_const)

subsection \<open>Persistence\<close>

text \<open>Documented behaviour of PSA protected storage: what a successful set stores is what get returns, and
  setting or removing an entry does not affect other entries; a removed entry does not exist; get never
  returns more than was asked for; drawing random bytes does not touch the storage.\<close>

definition ps_laws :: "'p ext \<Rightarrow> bool" where
  "ps_laws ext \<longleftrightarrow>
     (\<forall>uid d p p' n. psa_ps_set ext uid d p = (PSA_SUCCESS, p') \<longrightarrow> n \<le> length d \<longrightarrow>
        psa_ps_get ext uid 0 n p' = (PSA_SUCCESS, take n d)) \<and>
     (\<forall>uid d p s p' uid' off n. psa_ps_set ext uid d p = (s, p') \<longrightarrow> uid' \<noteq> uid \<longrightarrow>
        psa_ps_get ext uid' off n p' = psa_ps_get ext uid' off n p) \<and>
     (\<forall>uid p s p' uid' off n. psa_ps_remove ext uid p = (s, p') \<longrightarrow> uid' \<noteq> uid \<longrightarrow>
        psa_ps_get ext uid' off n p' = psa_ps_get ext uid' off n p) \<and>
     (\<forall>uid p p' off n. psa_ps_remove ext uid p = (PSA_SUCCESS, p') \<longrightarrow>
        fst (psa_ps_get ext uid off n p') \<noteq> PSA_SUCCESS \<and> snd (psa_ps_get ext uid off n p') = []) \<and>
     (\<forall>uid off n p. length (snd (psa_ps_get ext uid off n p)) \<le> n) \<and>
     (\<forall>k p s bs p' uid off n. psa_generate_random ext k p = (s, bs, p') \<longrightarrow>
        psa_ps_get ext uid off n p' = psa_ps_get ext uid off n p)"

text \<open>The storage holds the keystore.\<close>

definition persisted :: "'p ext \<Rightarrow> 'p hsm \<Rightarrow> bool" where
  "persisted ext st \<longleftrightarrow>
     psa_ps_get ext UID_KEYSTORE_SIZE 0 4 (plat st) = (PSA_SUCCESS, le32 (keystore_size st)) \<and>
     psa_ps_get ext UID_KEYSTORE 0 (32 * nat (keystore_size st)) (plat st) = (PSA_SUCCESS, concat (hsm_keys st))"

lemma ps_set_get:
  "ps_laws ext \<Longrightarrow> psa_ps_set ext uid d p = (PSA_SUCCESS, p') \<Longrightarrow> n \<le> length d \<Longrightarrow>
   psa_ps_get ext uid 0 n p' = (PSA_SUCCESS, take n d)"
  unfolding ps_laws_def by (elim conjE) simp

lemma ps_set_other:
  "ps_laws ext \<Longrightarrow> psa_ps_set ext uid d p = (s, p') \<Longrightarrow> uid' \<noteq> uid \<Longrightarrow>
   psa_ps_get ext uid' off n p' = psa_ps_get ext uid' off n p"
  unfolding ps_laws_def by (elim conjE) blast

lemma ps_remove_other:
  "ps_laws ext \<Longrightarrow> psa_ps_remove ext uid p = (s, p') \<Longrightarrow> uid' \<noteq> uid \<Longrightarrow>
   psa_ps_get ext uid' off n p' = psa_ps_get ext uid' off n p"
  unfolding ps_laws_def by (elim conjE) blast

lemma ps_remove_get:
  "ps_laws ext \<Longrightarrow> psa_ps_remove ext uid p = (PSA_SUCCESS, p') \<Longrightarrow>
   fst (psa_ps_get ext uid off n p') \<noteq> PSA_SUCCESS \<and> snd (psa_ps_get ext uid off n p') = []"
  unfolding ps_laws_def by (elim conjE) metis

lemma ps_get_length: "ps_laws ext \<Longrightarrow> length (snd (psa_ps_get ext uid off n p)) \<le> n"
  unfolding ps_laws_def by (elim conjE) metis

lemma ps_random_get:
  "ps_laws ext \<Longrightarrow> psa_generate_random ext k p = (s, bs, p') \<Longrightarrow>
   psa_ps_get ext uid off n p' = psa_ps_get ext uid off n p"
  unfolding ps_laws_def by (elim conjE) metis

lemma persist_stores:
  assumes ps: "ps_laws ext" and ok: "persist Nrf_Tfm ext sks n p = (PSA_SUCCESS, p')"
    and len: "m \<le> length (concat sks)"
  shows "psa_ps_get ext UID_KEYSTORE_SIZE 0 4 p' = (PSA_SUCCESS, le32 n)"
    and "psa_ps_get ext UID_KEYSTORE 0 m p' = (PSA_SUCCESS, take m (concat sks))"
proof -
  from ok obtain p1 where p1: "psa_ps_set ext UID_KEYSTORE (concat sks) p = (PSA_SUCCESS, p1)"
    and p': "psa_ps_set ext UID_KEYSTORE_SIZE (le32 n) p1 = (PSA_SUCCESS, p')"
    by (auto simp: persist_def Let_def split: prod.splits if_splits)
  show "psa_ps_get ext UID_KEYSTORE_SIZE 0 4 p' = (PSA_SUCCESS, le32 n)"
    using ps_set_get [OF ps p', of 4] by simp
  show "psa_ps_get ext UID_KEYSTORE 0 m p' = (PSA_SUCCESS, take m (concat sks))"
    using ps_set_other [OF ps p', of UID_KEYSTORE 0 m] ps_set_get [OF ps p1 len] by simp
qed

lemma persisted_append:
  assumes inv: "hsm_inv ext st" and ps: "ps_laws ext" and room: "keystore_size st < 10" and sk: "length sk = 32"
    and ok: "persist Nrf_Tfm ext ((secret_keys_store st)[nat (keystore_size st) := sk]) (keystore_size st + 1) p = (PSA_SUCCESS, p')"
  shows "persisted ext ((hsm_append sk pk st)\<lparr>plat := p'\<rparr>)"
proof -
  note sh = hsm_inv_shape [OF inv]
  let ?sks = "(secret_keys_store st)[nat (keystore_size st) := sk]"
  let ?m = "nat (keystore_size st + 1)"
  have rows: "\<And>r. r \<in> set ?sks \<Longrightarrow> length r = 32"
    using hsm_shapeD [OF sh] sk by (auto dest: set_update_subset_insert [THEN subsetD])
  have m: "?m * 32 \<le> length (concat ?sks)"
    using hsm_shapeD [OF sh] room length_concat_rows [of ?sks 32, OF rows] by simp
  have "hsm_keys ((hsm_append sk pk st)\<lparr>plat := p'\<rparr>) = take ?m ?sks"
    by (simp add: hsm_keys_def hsm_append_def)
  with persist_stores [OF ps ok m] take_concat_rows [of ?sks 32 ?m, OF rows] show ?thesis
    by (simp add: persisted_def hsm_append_def mult.commute)
qed

lemma init_loop_ok:
  assumes sz: "blst_sizes ext"
  shows "hsm_shape st \<Longrightarrow> i + n = nat (keystore_size st) \<Longrightarrow>
    (\<forall>k < i. public_keys_hex_store st ! k = pkhex ext (secret_keys_store st ! k)) \<Longrightarrow>
    \<exists>pks. init_loop n ext (int i + 1) st = Some (PSA_SUCCESS, st\<lparr>public_keys_hex_store := pks\<rparr>) \<and>
      hsm_inv ext (st\<lparr>public_keys_hex_store := pks\<rparr>)"
proof (induction n arbitrary: i st)
  case 0
  then show ?case
    by (auto intro!: exI [of _ "public_keys_hex_store st"] simp: hsm_inv_def)
next
  case (Suc n)
  let ?pk = "pkhex ext (secret_keys_store st ! i)"
  let ?st = "st\<lparr>public_keys_hex_store := (public_keys_hex_store st)[i := ?pk]\<rparr>"
  have i: "i < 10" and ii: "int i < 10"
    using Suc.prems(2) hsm_shapeD [OF Suc.prems(1)] by linarith+
  have sh: "hsm_shape ?st"
    using Suc.prems(1) length_pkhex [OF sz]
    by (auto simp: hsm_shape_def dest: set_update_subset_insert [THEN subsetD])
  have "init_loop (Suc n) ext (int i + 1) st = init_loop n ext (int (Suc i) + 1) ?st"
    using i ii hsm_shapeD [OF Suc.prems(1)]
    by (simp add: c_simps pk_hex_of_ok [OF sz] length_pkhex [OF sz] algebra_simps)
  moreover have "\<forall>k < Suc i. public_keys_hex_store ?st ! k = pkhex ext (secret_keys_store ?st ! k)"
    using Suc.prems(3) i hsm_shapeD [OF Suc.prems(1)] by (auto simp: nth_list_update less_Suc_eq)
  ultimately show ?case
    using Suc.IH [OF sh, of "Suc i"] Suc.prems(2) by simp
qed

lemma init_restores:
  assumes sz: "blst_sizes ext" and inv: "hsm_inv ext st" and per: "persisted ext st"
    and up: "psa_crypto_init ext (plat st) = PSA_SUCCESS"
    and sh0: "hsm_shape st0" and pl: "plat st0 = plat st"
  shows "\<exists>st'. init ext st0 = Some (PSA_SUCCESS, st') \<and> hsm_inv ext st' \<and>
     hsm_keys st' = hsm_keys st \<and> keystore_size st' = keystore_size st \<and> plat st' = plat st"
proof -
  note sh = hsm_inv_shape [OF inv]
  let ?n = "nat (keystore_size st)"
  let ?keys = "concat (hsm_keys st)"
  have n: "0 \<le> keystore_size st" "keystore_size st \<le> 10"
    using hsm_shapeD [OF sh] by auto
  have un: "unat (word_of_int (32 * keystore_size st) :: 32 word) = 32 * ?n"
    using n by (simp only: unsigned_of_int) (simp add: take_bit_int_eq_self nat_mult_distrib)
  have rl: "\<And>r. r \<in> set (hsm_keys st) \<Longrightarrow> length r = 32"
    using hsm_shapeD [OF sh] by (auto simp: hsm_keys_def dest: in_set_takeD)
  have kl: "length ?keys = ?n * 32"
    using length_concat_rows [of "hsm_keys st" 32] rl by (simp add: length_hsm_keys_nat [OF sh])
  define sks where "sks = hsm_keys st @ drop ?n (secret_keys_store st0)"
  have "?keys @ drop (length ?keys) (concat (secret_keys_store st0)) = concat sks"
    using kl drop_concat_rows [of "secret_keys_store st0" 32 ?n] hsm_shapeD [OF sh0] by (simp add: sks_def)
  moreover have "length (concat (secret_keys_store st0)) = 320"
    using length_concat_rows [of "secret_keys_store st0" 32] hsm_shapeD [OF sh0] by simp
  ultimately have blit: "blit (concat (secret_keys_store st0)) ?keys = Some (concat sks)"
    using kl n by (simp add: blit_def)
  have sl: "\<And>r. r \<in> set sks \<Longrightarrow> length r = 32"
    using rl hsm_shapeD [OF sh0] by (auto simp: sks_def dest: in_set_dropD)
  have rows: "rows 32 (concat sks) = sks"
    by (rule rows_concat) (auto dest: sl)
  let ?st1 = "st0\<lparr>keystore_size := keystore_size st, secret_keys_store := sks\<rparr>"
  have sh1: "hsm_shape ?st1"
    using n length_hsm_keys_nat [OF sh] hsm_shapeD [OF sh0] sl by (simp add: hsm_shape_def) (simp add: sks_def)
  obtain pks where pks: "init_loop ?n ext 1 ?st1 = Some (PSA_SUCCESS, ?st1\<lparr>public_keys_hex_store := pks\<rparr>)"
    "hsm_inv ext (?st1\<lparr>public_keys_hex_store := pks\<rparr>)"
    using init_loop_ok [OF sz sh1, of 0 ?n] by auto
  have "init ext st0 = Some (PSA_SUCCESS, ?st1\<lparr>public_keys_hex_store := pks\<rparr>)"
    using up per pks(1) n blit rows un pl
    by (simp add: init_def Let_def persisted_def blit_Some [of "le32 _"] int_of_le32_le32)
  moreover have "hsm_keys (?st1\<lparr>public_keys_hex_store := pks\<rparr>) = hsm_keys st"
    using length_hsm_keys_nat [OF sh] by (simp add: hsm_keys_def [of "_\<lparr>public_keys_hex_store := pks\<rparr>"] sks_def)
  ultimately show ?thesis
    using pks(2) pl by auto
qed

section \<open>The cipher of key files\<close>

text \<open>The documented behaviour of the cipher calls when all of them succeed: together they write the 32 bytes of \<open>aes\<close>, AES-128 in counter mode.\<close>

definition cipher_works :: "cipher_ext \<Rightarrow> (bytes \<Rightarrow> bytes \<Rightarrow> bytes \<Rightarrow> bytes) \<Rightarrow> bool" where
  "cipher_works c aes \<longleftrightarrow> (\<forall>k v m. length m = 32 \<longrightarrow> length (aes k v m) = 32) \<and>
     cipher_init c = PSA_SUCCESS \<and> (\<forall>k. psa_import_key c k = PSA_SUCCESS \<and> psa_cipher_encrypt_setup c k = PSA_SUCCESS) \<and>
     (\<forall>k v. psa_cipher_set_iv c k v = PSA_SUCCESS) \<and> (\<forall>k v m. fst (psa_cipher_update c k v m) = PSA_SUCCESS) \<and>
     (\<forall>k v m. snd (psa_cipher_update c k v m) @ snd (psa_cipher_finish c k v m) = aes k v m) \<and>
     (\<forall>k v m. ocrypto_aes_ctr_decrypt c m k v = aes k v m)"

text \<open>Then \<open>aes128ctr\<close> writes the decrypted block to the start of \<open>out\<close>, in both kinds of builds, however the library divides it between the two
  calls.\<close>

theorem aes128ctr_decrypts:
  assumes "cipher_works c aes" and "16 \<le> length key" and "16 \<le> length iv" and "32 \<le> length inp" and "32 \<le> length out"
  shows "aes128ctr b c key iv inp out = Some (aes (take 16 key) (take 16 iv) (take 32 inp) @ drop 32 out)"
proof -
  let ?k = "take 16 key" and ?v = "take 16 iv" and ?m = "take 32 inp"
  have "fst (psa_cipher_update c ?k ?v ?m) = 0" using assms(1) by (simp add: cipher_works_def)
  then obtain data where u: "psa_cipher_update c ?k ?v ?m = (0, data)" by (cases "psa_cipher_update c ?k ?v ?m") simp
  obtain s rest where f: "psa_cipher_finish c ?k ?v ?m = (s, rest)" by (cases "psa_cipher_finish c ?k ?v ?m")
  have d: "data @ rest = aes ?k ?v ?m" using assms(1) u f unfolding cipher_works_def by (metis snd_conv)
  have "length (aes ?k ?v ?m) = 32" using assms(1,4) by (simp add: cipher_works_def)
  then have l: "length data + length rest = 32" unfolding d [symmetric] by simp
  have "aes128ctr Nrf_Tfm c key iv inp out = Some (data @ rest @ drop 32 out)"
    using assms u f l by (simp add: aes128ctr_def cipher_works_def c_simps add.commute)
  moreover have "aes128ctr Nrf_Wifi c key iv inp out = Some (aes ?k ?v ?m @ drop 32 out)"
    using assms \<open>length (aes ?k ?v ?m) = 32\<close> by (simp add: aes128ctr_def cipher_works_def c_simps)
  moreover have "aes128ctr Native c key iv inp out = aes128ctr Nrf_Tfm c key iv inp out" by (simp add: aes128ctr_def)
  ultimately show ?thesis using d by (cases b) simp_all
qed

text \<open>When the library cannot be started, or refuses the key, the caller's array keeps what it held, and the caller is not told.\<close>

lemma aes128ctr_silent:
  assumes "b \<noteq> Nrf_Wifi" and "16 \<le> length key"
    and "cipher_init c \<noteq> PSA_SUCCESS \<or> psa_import_key c (take 16 key) \<noteq> PSA_SUCCESS \<or> psa_cipher_encrypt_setup c (take 16 key) \<noteq> PSA_SUCCESS"
  shows "aes128ctr b c key iv inp out = Some out"
  using assms by (auto simp: aes128ctr_def)

lemma hash_length:
  assumes "\<And>bs. length (ocrypto_sha256 ext bs) = 32" and "\<And>bs out. length out = 32 \<Longrightarrow> length (fst (snd (psa_hash_compute ext bs out p))) = 32"
    and "length out = 32" and "hash b ext p out inp = Some r"
  shows "length r = 32"
  using assms(1,3,4) assms(2) [OF assms(3), of inp]
  by (auto simp: hash_def length_blit split: build.splits if_splits prod.splits)

end
