(* ===== verification/Keystore.thy ===== *)
theory Keystore
  imports Bls_Hsm
begin

text \<open>
  Correctness of the keystore of \<^verbatim>\<open>src/lib/bls_hsm.h\<close>: the states a partition can reach, and what
  generation, import, lookup, signing, verification, persistence and reset do on them. The abstract
  value of a keystore is the list \<open>hsm_keys\<close> of its secret keys; each operation is described by its
  result and its effect on that list.
\<close>

section \<open>Reachable keystores\<close>

text \<open>What a running partition can do to its keystore; the other operations do not change it.\<close>

inductive hsm_step :: "build \<Rightarrow> 'p ext \<Rightarrow> 'p hsm \<Rightarrow> 'p hsm \<Rightarrow> bool" for b ext where
  keygen: "secure_keygen b ext info st = Some (r, st') \<Longrightarrow> hsm_step b ext st st'"
| import: "import_sk b ext sk st = Some (r, st') \<Longrightarrow> hsm_step b ext st st'"
| reset: "hsm_step b ext st (reset b ext st)"

text \<open>
  A keystore is reachable when the partition got there from its static initial values, with
  any number of reboots at moments when the storage held the keystore.
\<close>

inductive hsm_reach :: "build \<Rightarrow> 'p ext \<Rightarrow> 'p hsm \<Rightarrow> bool" for b ext where
  boot: "hsm_reach b ext (hsm_boot p)"
| reboot: "hsm_reach b ext st \<Longrightarrow> persisted ext st \<Longrightarrow> init ext (hsm_boot (plat st)) = Some (r, st') \<Longrightarrow>
    hsm_reach b ext st'"
| step: "hsm_reach b ext st \<Longrightarrow> hsm_step b ext st st' \<Longrightarrow> hsm_reach b ext st'"

inductive_cases hsm_stepE: "hsm_step b ext st st'"

lemma secure_keygen_full: "keystore_size st \<ge> 10 \<Longrightarrow> secure_keygen b ext info st = Some (- KEYSLIMIT, st)"
  by (simp add: secure_keygen_def)

lemma secure_keygen_rng:
  "keystore_size st < 10 \<Longrightarrow> keygen_ikm b ext (plat st) = (s, ikm, p1) \<Longrightarrow> s \<noteq> PSA_SUCCESS \<Longrightarrow>
   secure_keygen b ext info st = Some (RNGERR, st\<lparr>plat := p1\<rparr>)"
  by (simp add: secure_keygen_def)

lemma secure_keygen_info: 
  "secure_keygen b ext info st = Some (r, st') \<Longrightarrow> keystore_size st < 10 \<Longrightarrow>
   keygen_ikm b ext (plat st) = (PSA_SUCCESS, ikm, p1) \<Longrightarrow> \<exists>key_info. info_bytes info = Some key_info"
  by (simp add: secure_keygen_def split: bind_splits)

lemma secure_keygen_inv:
  assumes inv: "hsm_inv ext st" and sz: "blst_sizes ext" and ok: "secure_keygen b ext info st = Some (r, st')"
  shows "hsm_inv ext st'"
proof -
  obtain s ikm p1 where ikm: "keygen_ikm b ext (plat st) = (s, ikm, p1)"
    by (metis prod_cases3)
  consider "keystore_size st \<ge> 10" | "keystore_size st < 10" "s \<noteq> PSA_SUCCESS" | "keystore_size st < 10" "s = PSA_SUCCESS"
    by linarith
  then show ?thesis
  proof cases
    case 1
    then show ?thesis using ok inv by (simp add: secure_keygen_full)
  next
    case 2
    then show ?thesis using ok inv ikm by (auto simp: secure_keygen_rng)
  next
    case 3
    then obtain key_info where "info_bytes info = Some key_info"
      using secure_keygen_info [OF ok] ikm by blast
    with 3 show ?thesis
      using secure_keygen_ok [OF inv sz 3(1), of b ikm p1 info key_info] ok ikm sz
        hsm_append_inv [OF inv 3(1) _ sz, of "blst_keygen ext ikm key_info"]
      by (auto simp: blst_sizes_def)
  qed
qed

lemma import_sk_inv:
  assumes inv: "hsm_inv ext st" and sz: "blst_sizes ext" and ok: "import_sk b ext skt st = Some (r, st')"
  shows "hsm_inv ext st'"
proof -
  consider "keystore_size st \<ge> 10" | "keystore_size st < 10" "\<exists>k < 64. \<not> is_hex (chr_at skt k)"
    | "keystore_size st < 10" "\<And>k. k < 64 \<Longrightarrow> is_hex (chr_at skt k)"
    by fastforce
  then show ?thesis
  proof cases
    case 3
    then show ?thesis
      using import_sk_valid [OF inv sz 3(1) 3(2) refl, of b] ok inv sz
        hsm_append_inv [OF inv 3(1) _ sz, of "blst_scalar_from_bendian ext (hexbytes (take 64 skt))"]
      by (auto simp: blst_sizes_def split: if_splits)
  qed (use ok inv in \<open>simp_all add: import_sk_full import_sk_bad_hex\<close>)
qed

lemma hsm_boot_shape [simp]: "hsm_shape (hsm_boot p)" "plat (hsm_boot p) = p"
  by (simp_all add: hsm_shape_def hsm_boot_def)

lemma init_inv:
  assumes "blst_sizes ext" and "hsm_inv ext st" and "persisted ext st" and "hsm_inv ext st0" and "plat st0 = plat st"
  shows "\<exists>r st'. init ext st0 = Some (r, st') \<and> hsm_inv ext st'"
proof (cases "psa_crypto_init ext (plat st) = PSA_SUCCESS")
  case True
  then show ?thesis
    using init_restores [OF assms(1-3) True hsm_inv_shape [OF assms(4)] assms(5)] by auto
next
  case False
  then show ?thesis
    using assms(4,5) by (simp add: init_def)
qed

lemma hsm_step_inv: "blst_sizes ext \<Longrightarrow> hsm_step b ext st st' \<Longrightarrow> hsm_inv ext st \<Longrightarrow> hsm_inv ext st'"
  by (auto elim!: hsm_stepE intro: secure_keygen_inv import_sk_inv reset_inv hsm_inv_shape)

lemma hsm_reach_inv: "hsm_reach b ext st \<Longrightarrow> blst_sizes ext \<Longrightarrow> hsm_inv ext st"
  by (induction rule: hsm_reach.induct) (auto intro: hsm_inv_boot hsm_step_inv dest: init_inv [OF _ _ _ hsm_inv_boot])

section \<open>Correctness of the operations\<close>

text \<open>A concrete instance of the libraries, on which the laws hold and the operations run:
  the platform is a storage, a key is its own public key, a signature repeats the key and the message.\<close>

definition pad :: "nat \<Rightarrow> bytes \<Rightarrow> bytes" where
  "pad n bs = take n (bs @ replicate n 0)"

definition demo_ext :: "(nat \<Rightarrow> bytes option) ext" where
  "demo_ext = \<lparr>
     psa_crypto_init = \<lambda>p. 0,
     psa_ps_set = \<lambda>uid d p. (0, p(uid := Some d)),
     psa_ps_get = \<lambda>uid off n p. (case p uid of None \<Rightarrow> (-140, []) | Some d \<Rightarrow> (0, take n (drop off d))),
     psa_ps_remove = \<lambda>uid p. (if p uid = None then -140 else 0, p(uid := None)),
     psa_generate_random = \<lambda>n p. (0, replicate n 7, p),
     libc_rand = \<lambda>p. (4, p),
     psa_hash_compute = \<lambda>inp out p. (0, pad 32 inp, 32),
     ocrypto_sha256 = pad 32,
     blst_keygen = \<lambda>ikm info. pad 32 (info @ ikm),
     blst_scalar_from_bendian = pad 32,
     blst_sk_to_pk_in_g1 = id,
     blst_p1_compress = pad 48,
     blst_p1_uncompress = take 32,
     blst_p2_compress = pad 96,
     blst_p2_uncompress = id,
     blst_hash_to_g2 = \<lambda>m dst. pad 32 m,
     blst_sign_pk_in_g1 = \<lambda>h sk. sk @ h,
     blst_core_verify_pk_in_g1 = \<lambda>pk sig m dst. if sig = pad 96 (pk @ pad 32 m) then 0 else 5\<rparr>"

lemma length_pad [simp]: "length (pad n bs) = n"
  by (simp add: pad_def)

lemma pad_id: "length bs = n \<Longrightarrow> pad n bs = bs"
  by (simp add: pad_def)

lemma demo_sizes: "blst_sizes demo_ext"
  by (simp add: blst_sizes_def demo_ext_def)

definition demo_hsm :: "(nat \<Rightarrow> bytes option) hsm" where
  "demo_hsm = hsm_boot (\<lambda>_. None)"

lemma demo_hsm_simps [simp]:
  "hsm_inv demo_ext demo_hsm" "hsm_keys demo_hsm = []" "plat demo_hsm = (\<lambda>_. None)"
  "hsm_reach b demo_ext demo_hsm" "keystore_size demo_hsm = 0"
  by (simp_all add: demo_hsm_def hsm_inv_boot hsm_reach.boot) (simp_all add: hsm_keys_def hsm_boot_def)

lemma demo_keygen_simps [simp]:
  "keygen_ikm Nrf_Tfm demo_ext p = (0, replicate 32 7, p)"
  "blst_keygen demo_ext ikm info = pad 32 (info @ ikm)"
  "blst_scalar_from_bendian demo_ext = pad 32"
  by (simp_all add: keygen_ikm_def demo_ext_def)

lemma hexbytes_hexstr [simp]: "hexbytes (hexstr bs) = bs"
  by (simp add: hexbytes_def)

lemma list_all_hexstr [simp]: "list_all is_hex (hexstr bs)"
  by (simp add: list_all_iff is_hex_hexstr)

lemma info_bytes_None: "info_bytes None = Some (replicate 4 0)"
  by (simp add: info_bytes_def sizeof_ptr_def ord8_def numeral_eq_Suc)

lemma demo_ps_laws: "ps_laws demo_ext"
  unfolding ps_laws_def by (intro conjI) (auto simp: demo_ext_def split: option.splits)

lemma first_hex_iff: "(n \<le> length s \<and> list_all is_hex (take n s)) \<longleftrightarrow> (\<forall>k < n. is_hex (chr_at s k))"
proof
  assume hx: "\<forall>k < n. is_hex (chr_at s k)"
  have "n \<le> length s"
  proof (rule ccontr)
    assume "\<not> n \<le> length s"
    with hx have "is_hex (chr_at s (length s))" by simp
    then show False by (simp add: c_simps)
  qed
  with hx show "n \<le> length s \<and> list_all is_hex (take n s)"
    by (auto simp: list_all_length c_simps)
qed (auto simp: list_all_length c_simps)

text \<open>C6: Every reachable keystore is consistent: it never holds more than ten keys, all arrays keep
  their sizes, and the text stored next to each secret key is the hexadecimal form of its compressed public key.\<close>

theorem hsm_reachable_consistent:
  assumes "hsm_reach b ext st" and "blst_sizes ext"
  shows "hsm_shape st \<and> keystore_size st = int (length (hsm_keys st)) \<and> length (hsm_keys st) \<le> 10 \<and>
    (\<forall>i < length (hsm_keys st). public_keys_hex_store st ! i = pkhex ext (hsm_keys st ! i))"
  using hsm_reach_inv [OF assms] hsm_inv_shape [of ext st] hsm_inv_row [of ext st] length_hsm_keys [of st]
    hsm_shapeD(4) [of st]
  by auto

theorem hsm_reachable_consistent_witness:
  "hsm_shape (reset Nrf_Tfm demo_ext demo_hsm)"
  using hsm_reachable_consistent [OF hsm_reach.step [OF demo_hsm_simps(4) hsm_step.reset] demo_sizes] by blast

lemma secure_keygen_total:
  assumes "hsm_inv ext st" and "blst_sizes ext" and "info_bytes info = Some key_info"
    and "keygen_ikm b ext (plat st) = (status, ikm, p1)"
  shows "\<exists>r st'. secure_keygen b ext info st = Some (r, st') \<and> hsm_inv ext st' \<and>
    (r, hsm_keys st') =
      (if length (hsm_keys st) = 10 then (- KEYSLIMIT, hsm_keys st)
       else if status \<noteq> PSA_SUCCESS then (RNGERR, hsm_keys st)
       else (int (length (hsm_keys st)), hsm_keys st @ [blst_keygen ext ikm key_info]))"
proof -
  note sh = hsm_inv_shape [OF assms(1)]
  let ?sk = "blst_keygen ext ikm key_info"
  consider "keystore_size st \<ge> 10" | "keystore_size st < 10" "status \<noteq> PSA_SUCCESS"
    | "keystore_size st < 10" "status = PSA_SUCCESS"
    by linarith
  then show ?thesis
  proof cases
    case 1
    then have "length (hsm_keys st) = 10"
      using hsm_shapeD [OF sh] length_hsm_keys [OF sh] by linarith
    with 1 show ?thesis
      using assms by (simp add: secure_keygen_full)
  next
    case 2
    then show ?thesis
      using assms length_hsm_keys [OF sh] by (auto simp: secure_keygen_rng)
  next
    case 3
    then show ?thesis
      using secure_keygen_ok [OF assms(1,2) 3(1), of b ikm p1 info key_info ?sk] assms
        hsm_append_inv [OF assms(1) 3(1) _ assms(2), of ?sk] hsm_append_keys [OF sh 3(1), of ?sk]
        length_hsm_keys [OF sh]
      by (auto simp: blst_sizes_def)
  qed
qed

text \<open>C19: \<open>secure_keygen\<close>. A full keystore is left unchanged with the error \<open>-KEYSLIMIT\<close>; a failure of the
  entropy source gives \<open>RNGERR\<close> and no key; otherwise exactly one key is appended, the one derived
  from the drawn bytes and the first four bytes of \<open>info\<close>, and its index is returned. The keystore stays consistent.\<close>

theorem secure_keygen_spec:
  assumes "hsm_inv ext st" and "blst_sizes ext" and "info_bytes info = Some key_info"
    and "keygen_ikm b ext (plat st) = (status, ikm, p1)"
  shows "\<exists>r st'. secure_keygen b ext info st = Some (r, st') \<and> hsm_inv ext st' \<and>
    (r, hsm_keys st') =
      (if length (hsm_keys st) = 10 then (- KEYSLIMIT, hsm_keys st)
       else if status \<noteq> PSA_SUCCESS then (RNGERR, hsm_keys st)
       else (int (length (hsm_keys st)), hsm_keys st @ [blst_keygen ext ikm key_info]))"
  by (rule secure_keygen_total [OF assms])

theorem secure_keygen_spec_witness:
  "\<exists>st'. secure_keygen Nrf_Tfm demo_ext None demo_hsm = Some (0, st') \<and>
     hsm_keys st' = [replicate 4 0 @ replicate 28 7]"
  using secure_keygen_spec [OF demo_hsm_simps(1) demo_sizes info_bytes_None, of Nrf_Tfm] by (auto simp: pad_def)

lemma import_sk_total:
  assumes "hsm_inv ext st" and "blst_sizes ext"
  shows "\<exists>r st'. import_sk b ext skt st = Some (r, st') \<and> hsm_inv ext st' \<and>
    (let sk = blst_scalar_from_bendian ext (hexbytes (take 64 skt)) in
     (r, hsm_keys st') =
      (if length (hsm_keys st) = 10 then (- KEYSLIMIT, hsm_keys st)
       else if \<not> (64 \<le> length skt \<and> list_all is_hex (take 64 skt)) then (- HEX2BINERR, hsm_keys st)
       else if sk \<in> set (hsm_keys st) then (EXISTINGKEY, hsm_keys st)
       else (int (length (hsm_keys st)), hsm_keys st @ [sk])))"
proof -
  note sh = hsm_inv_shape [OF assms(1)]
  let ?sk = "blst_scalar_from_bendian ext (hexbytes (take 64 skt))"
  have hex: "(64 \<le> length skt \<and> list_all is_hex (take 64 skt)) \<longleftrightarrow> (\<forall>k < 64. is_hex (chr_at skt k))"
    by (rule first_hex_iff)
  consider "keystore_size st \<ge> 10" | "keystore_size st < 10" "\<exists>k < 64. \<not> is_hex (chr_at skt k)"
    | "keystore_size st < 10" "\<And>k. k < 64 \<Longrightarrow> is_hex (chr_at skt k)"
    by fastforce
  then show ?thesis
  proof cases
    case 1
    then have "length (hsm_keys st) = 10"
      using hsm_shapeD [OF sh] length_hsm_keys [OF sh] by linarith
    with 1 show ?thesis
      using assms by (simp add: import_sk_full)
  next
    case 2
    then show ?thesis
      using assms length_hsm_keys [OF sh] hex by (auto simp: import_sk_bad_hex)
  next
    case 3
    then show ?thesis
      using import_sk_valid [OF assms 3 refl, of b] assms hex
        hsm_append_inv [OF assms(1) 3(1) _ assms(2), of ?sk] hsm_append_keys [OF sh 3(1), of ?sk]
        length_hsm_keys [OF sh]
      by (auto simp: blst_sizes_def Let_def)
  qed
qed

text \<open>C20: \<open>import_sk\<close> on every branch: full keystore, malformed text, key already present, and a new key.
  A malformed or known key leaves the keystore unchanged, so imports never create duplicates.\<close>

theorem import_sk_spec:
  assumes "hsm_inv ext st" and "blst_sizes ext"
  shows "\<exists>r st'. import_sk b ext skt st = Some (r, st') \<and> hsm_inv ext st' \<and>
    (let sk = blst_scalar_from_bendian ext (hexbytes (take 64 skt)) in
     (r, hsm_keys st') =
      (if length (hsm_keys st) = 10 then (- KEYSLIMIT, hsm_keys st)
       else if \<not> (64 \<le> length skt \<and> list_all is_hex (take 64 skt)) then (- HEX2BINERR, hsm_keys st)
       else if sk \<in> set (hsm_keys st) then (EXISTINGKEY, hsm_keys st)
       else (int (length (hsm_keys st)), hsm_keys st @ [sk])))"
  by (rule import_sk_total [OF assms])

theorem import_sk_spec_witness:
  "\<exists>st'. import_sk Native demo_ext (hexstr (replicate 32 5)) demo_hsm = Some (0, st') \<and>
     hsm_keys st' = [replicate 32 5]"
  using import_sk_spec [OF demo_hsm_simps(1) demo_sizes, of Native "hexstr (replicate 32 5)"]
  by (auto simp: pad_id)

subsection \<open>Lookup, signing and verification\<close>

text \<open>The position of the first key whose public key is the first 96 characters of \<open>pk\<close>.\<close>

definition find_pk :: "'p ext \<Rightarrow> string \<Rightarrow> bytes list \<Rightarrow> nat option" where
  "find_pk ext pk keys = find (\<lambda>i. pkhex ext (keys ! i) = take 96 pk) [0..<length keys]"

lemma find_pk_SomeD:
  "find_pk ext pk keys = Some i \<Longrightarrow> i < length keys \<and> pkhex ext (keys ! i) = take 96 pk"
  by (auto simp: find_pk_def find_Some_iff)

lemma find_pk_None: "find_pk ext pk keys = None \<longleftrightarrow> (\<forall>sk \<in> set keys. pkhex ext sk \<noteq> take 96 pk)"
  by (auto simp: find_pk_def find_None_iff all_set_conv_all_nth)

lemma pk_matches_prefix:
  assumes "length row = 96" and "nul \<notin> set row"
  shows "pk_matches pk 0 row \<longleftrightarrow> row = take 96 pk"
proof
  assume m: "pk_matches pk 0 row"
  have "96 \<le> length pk"
  proof (rule ccontr)
    assume "\<not> 96 \<le> length pk"
    with m assms(1) have "chr_at pk (length pk) = chr_at row (length pk)" and "length pk < length row"
      by (simp_all add: pk_matches_def)
    then have "row ! length pk = nul" and "length pk < length row"
      by (simp_all add: c_simps)
    with assms(2) show False by (metis nth_mem)
  qed
  with m assms(1) show "row = take 96 pk"
    by (auto simp: pk_matches_def list_eq_iff_nth_eq c_simps)
next
  assume "row = take 96 pk"
  with assms(1) show "pk_matches pk 0 row"
    by (auto simp: pk_matches_def c_simps)
qed

lemma pk_matches_key:
  assumes inv: "hsm_inv ext st" and sz: "blst_sizes ext" and i: "i < length (hsm_keys st)"
  shows "pk_matches pk 0 (public_keys_hex_store st ! i) \<longleftrightarrow> pkhex ext (hsm_keys st ! i) = take 96 pk"
  by (simp add: hsm_inv_row [OF inv i] pk_matches_prefix length_pkhex [OF sz] nul_pkhex)

lemma find_cong_set: "(\<And>x. x \<in> set xs \<Longrightarrow> P x = Q x) \<Longrightarrow> find P xs = find Q xs"
  by (induction xs) auto

lemma index_of_find_pk:
  assumes inv: "hsm_inv ext st" and sz: "blst_sizes ext"
  shows "index_of (\<lambda>k. pk_matches pk 0 (public_keys_hex_store st ! k)) (length (hsm_keys st)) =
    (case find_pk ext pk (hsm_keys st) of None \<Rightarrow> -1 | Some i \<Rightarrow> int i)"
  unfolding index_of_def find_pk_def
  by (subst find_cong_set [of _ _ "\<lambda>i. pkhex ext (hsm_keys st ! i) = take 96 pk"])
    (simp_all add: pk_matches_key [OF inv sz])

lemma sign_pk_eq:
  assumes inv: "hsm_inv ext st" and sz: "blst_sizes ext" and "strip0x msg \<noteq> []"
  shows "sign_pk ext junk pk msg sign st = Some (case find_pk ext pk (hsm_keys st) of
      None \<Rightarrow> (PKNOTFOUND, sign)
    | Some i \<Rightarrow> (0, signature_of ext (hsm_keys st ! i) (signed_bytes junk msg)))"
proof (cases "find_pk ext pk (hsm_keys st)")
  case None
  then have "\<not> pk_matches pk 0 (public_keys_hex_store st ! i)" if "i < length (hsm_keys st)" for i
    using pk_matches_key [OF inv sz that] that by (auto simp: find_pk_None)
  with None show ?thesis
    using sign_pk_not_found [OF hsm_inv_shape [OF inv], of pk] by simp
next
  case (Some i)
  then show ?thesis
    using sign_pk_found [OF assms, of pk i] index_of_find_pk [OF inv sz, of pk] by simp
qed

lemma pk_parse_eq:
  "pk_parse ext pk p buff = Some (
     if length (strip0x pk) \<noteq> 96 then
       (BADPKLEN, p, log_to buff ''Incorrect public key length. It must be 96 characters long.\<newline>'')
     else if \<not> list_all is_hex (strip0x pk) then (BADFORMAT, p, log_to buff ''Public key contains incorrect characters.\<newline>'')
     else (0, blst_p1_uncompress ext (hexbytes (strip0x pk)), buff))"
proof (cases "length (strip0x pk) = 96 \<and> list_all is_hex (strip0x pk)")
  case True
  then have "hex2bin (strip0x pk) 96 (replicate 48 0) 48 = Some (48, hexbytes (strip0x pk))"
    using hex2bin_all [of "strip0x pk" 96 "replicate 48 0"] by simp
  moreover from True have "parse_hex pk 96 = (if has0x pk then 2 else 0)"
    by (simp add: parse_hex_eq)
  ultimately show ?thesis
    using True by (cases "has0x pk") (simp_all add: pk_parse_def Let_def strip0x_def)
next
  case False
  then have "parse_hex pk 96 = (if length (strip0x pk) \<noteq> 96 then BADLEN else BADFORMAT)"
    by (auto simp: parse_hex_eq)
  with False show ?thesis
    by (simp add: pk_parse_def Let_def)
qed

lemma sig_parse_eq:
  "sig_parse ext sig s buff = Some (
     if length (strip0x sig) \<noteq> 192 then
       (BADSIGLEN, s, log_to buff ''Incorrect signature length. It must be 192 characters long.\<newline>'')
     else if \<not> list_all is_hex (strip0x sig) then (BADFORMAT, s, log_to buff ''Signature contains incorrect characters.\<newline>'')
     else (0, blst_p2_uncompress ext (hexbytes (strip0x sig)), buff))"
proof (cases "length (strip0x sig) = 192 \<and> list_all is_hex (strip0x sig)")
  case True
  then have "hex2bin (strip0x sig) 192 (replicate 96 0) 96 = Some (96, hexbytes (strip0x sig))"
    using hex2bin_all [of "strip0x sig" 192 "replicate 96 0"] by simp
  moreover from True have "parse_hex sig 192 = (if has0x sig then 2 else 0)"
    by (simp add: parse_hex_eq)
  ultimately show ?thesis
    using True by (cases "has0x sig") (simp_all add: sig_parse_def Let_def strip0x_def)
next
  case False
  then have "parse_hex sig 192 = (if length (strip0x sig) \<noteq> 192 then BADLEN else BADFORMAT)"
    by (auto simp: parse_hex_eq)
  with False show ?thesis
    by (simp add: sig_parse_def Let_def)
qed

text \<open>A public key, a message and a signature in the accepted syntax.\<close>

definition hex_arg :: "nat \<Rightarrow> string \<Rightarrow> bool" where
  "hex_arg n s \<longleftrightarrow> length (strip0x s) = n \<and> list_all is_hex (strip0x s)"

lemma verify_sign_eq:
  assumes "strip0x msg \<noteq> []"
  shows "verify_sign ext junk pk msg sig = Some (
    if hex_arg 96 pk \<and> list_all is_hex (strip0x msg) \<and> hex_arg 192 sig
    then if blst_core_verify_pk_in_g1 ext (blst_p1_uncompress ext (hexbytes (strip0x pk)))
           (blst_p2_uncompress ext (hexbytes (strip0x sig))) (hexbytes (strip0x msg)) dst_tag = BLST_SUCCESS
         then BLSTSUCCESS else BLSTFAIL
    else -1)"
  using assms
  by (cases "list_all is_hex (strip0x msg)")
     (auto simp: verify_sign_def Let_def pk_parse_eq sig_parse_eq hex_arg_def msg_parse_ok msg_parse_bad
        length_msg_bin length_hexbytes)

lemma strip0x_hex: "list_all is_hex s \<Longrightarrow> strip0x s = s"
proof -
  assume hx: "list_all is_hex s"
  have "\<not> has0x s"
  proof
    assume "has0x s"
    then have "CHR ''x'' \<in> set (take 2 s)"
      by (simp add: has0x_def)
    then have "is_hex (CHR ''x'')"
      using hx by (auto simp: list_all_iff dest: in_set_takeD)
    then show False
      by (simp add: is_hex_def between_def ord8_def)
  qed
  then show ?thesis by (simp add: strip0x_def)
qed

lemma strip0x_hexstr [simp]: "strip0x (hexstr bs) = hexstr bs"
  by (simp add: strip0x_hex)

text \<open>Lookup by public key. On a consistent keystore the search returns the index of the first key whose
  stored text equals the first 96 characters of the argument, and -1 exactly when no key has that
  public key; a shorter argument is never read behind its terminator.\<close>

theorem pk_in_keystore_spec:
  assumes "hsm_inv ext st" and "blst_sizes ext"
  shows "\<exists>r. pk_in_keystore pk 0 st = Some r \<and>
    (if \<exists>sk \<in> set (hsm_keys st). pkhex ext sk = take 96 pk
     then \<exists>i < length (hsm_keys st). r = int i \<and> pkhex ext (hsm_keys st ! i) = take 96 pk \<and>
            (\<forall>j < i. pkhex ext (hsm_keys st ! j) \<noteq> take 96 pk)
     else r = -1)"
proof -
  note sh = hsm_inv_shape [OF assms(1)]
  have eq: "pk_in_keystore pk 0 st = Some (case find_pk ext pk (hsm_keys st) of None \<Rightarrow> -1 | Some i \<Rightarrow> int i)"
    using pk_in_keystore_eq [OF sh, of pk 0] index_of_find_pk [OF assms, of pk]
    by (simp add: length_hsm_keys_nat [OF sh])
  show ?thesis
  proof (cases "find_pk ext pk (hsm_keys st)")
    case None
    with eq have "pk_in_keystore pk 0 st = Some (-1)" by simp
    with None show ?thesis
      by (auto simp: find_pk_None)
  next
    case (Some i)
    then have "i < length (hsm_keys st)" "pkhex ext (hsm_keys st ! i) = take 96 pk"
      and "\<forall>j < i. pkhex ext (hsm_keys st ! j) \<noteq> take 96 pk"
      by (auto simp: find_pk_def find_Some_iff)
    with Some eq show ?thesis
      by (auto dest: nth_mem)
  qed
qed

theorem pk_in_keystore_spec_witness: "pk_in_keystore ''ab'' 0 demo_hsm = Some (-1)"
  using pk_in_keystore_spec [OF demo_hsm_simps(1) demo_sizes, of "''ab''"] by simp

text \<open>C30: \<open>sign_pk\<close>. Without a key for the public key it reports \<open>PKNOTFOUND\<close> and leaves the output alone.
  With one it stores the hexadecimal signature of the first such key and returns 0, also when the
  message is not hexadecimal: then what is signed is the uninitialised contents of the stack array,
  because the result of \<open>msg_parse\<close> is compared with a code that \<open>msg_parse\<close> never returns.\<close>

theorem sign_pk_spec:
  assumes "hsm_inv ext st" and "blst_sizes ext" and "strip0x msg \<noteq> []"
  shows "sign_pk ext junk pk msg sign st = Some (case find_pk ext pk (hsm_keys st) of
      None \<Rightarrow> (PKNOTFOUND, sign)
    | Some i \<Rightarrow> (0, signature_of ext (hsm_keys st ! i)
        (if list_all is_hex (strip0x msg) then hexbytes (strip0x msg)
         else stack_arr junk ((length (strip0x msg) + 1) div 2))))"
proof -
  have "length (strip0x msg) div 2 + length (strip0x msg) mod 2 = (length (strip0x msg) + 1) div 2"
    by presburger
  then show ?thesis
    by (cases "find_pk ext pk (hsm_keys st)") (simp_all add: sign_pk_eq [OF assms] signed_bytes_def)
qed

text \<open>A keystore with the single key \<open>sk\<close>.\<close>

definition demo_hsm1 :: "bytes \<Rightarrow> (nat \<Rightarrow> bytes option) hsm" where
  "demo_hsm1 sk = hsm_append sk (pkhex demo_ext sk) demo_hsm"

lemma demo_hsm1_simps:
  assumes "length sk = 32"
  shows "hsm_inv demo_ext (demo_hsm1 sk)" and "hsm_keys (demo_hsm1 sk) = [sk]"
  using assms hsm_append_inv [OF demo_hsm_simps(1) _ assms demo_sizes]
    hsm_append_keys [OF hsm_inv_shape [OF demo_hsm_simps(1)], of sk "pkhex demo_ext sk"]
  by (simp_all add: demo_hsm1_def)

lemma demo_pkhex: "pkhex demo_ext sk = hexstr (pad 48 sk)"
  by (simp add: pkhex_def demo_ext_def)

theorem sign_pk_spec_witness:
  "sign_pk demo_ext (\<lambda>_. 9) (hexstr (replicate 32 5 @ replicate 16 0)) ''zz'' '''' (demo_hsm1 (replicate 32 5)) =
     Some (0, hexstr (replicate 32 5 @ 9 # replicate 31 0 @ replicate 32 0))"
proof -
  have pk: "pkhex demo_ext (replicate 32 5) = hexstr (replicate 32 5 @ replicate 16 0)"
    by (simp add: demo_pkhex pad_def)
  have "find_pk demo_ext (hexstr (replicate 32 5 @ replicate 16 0)) [replicate 32 5] = Some 0"
    by (simp add: find_pk_def pk)
  moreover have "signature_of demo_ext (replicate 32 5) [9] = hexstr (replicate 32 5 @ 9 # replicate 31 0 @ replicate 32 0)"
    by (simp add: signature_of_def demo_ext_def pad_def take_Cons')
  moreover have "strip0x ''zz'' = ''zz''" and "\<not> list_all is_hex ''zz''"
    by (simp_all add: strip0x_def has0x_def is_hex_def between_def ord8_def)
  ultimately show ?thesis
    using sign_pk_spec [OF demo_hsm1_simps(1) demo_sizes, of "replicate 32 5" "''zz''" "\<lambda>_. 9"
        "hexstr (replicate 32 5 @ replicate 16 0)" "''''"]
    by (simp add: demo_hsm1_simps(2) stack_arr_def)
qed

text \<open>C31: \<open>verify_sign\<close> answers -1 unless all three texts are well formed (an optional 0x, 96, any
  and 192 hexadecimal digits), and otherwise reports exactly the verdict of the library on the decoded values.\<close>

theorem verify_sign_spec:
  assumes "strip0x msg \<noteq> []"
  shows "verify_sign ext junk pk msg sig = Some (
    if hex_arg 96 pk \<and> list_all is_hex (strip0x msg) \<and> hex_arg 192 sig
    then if blst_core_verify_pk_in_g1 ext (blst_p1_uncompress ext (hexbytes (strip0x pk)))
           (blst_p2_uncompress ext (hexbytes (strip0x sig))) (hexbytes (strip0x msg)) dst_tag = BLST_SUCCESS
         then BLSTSUCCESS else BLSTFAIL
    else -1)"
  by (rule verify_sign_eq [OF assms])

theorem verify_sign_spec_witness: "verify_sign demo_ext (\<lambda>_. 0) ''12'' ''ab'' '''' = Some (-1)"
proof -
  have "strip0x ''ab'' = ''ab''" "\<not> hex_arg 96 ''12''"
    by (simp_all add: strip0x_def has0x_def hex_arg_def)
  then show ?thesis
    using verify_sign_spec [of "''ab''" demo_ext "\<lambda>_. 0" "''12''" "''''"] by simp
qed

text \<open>Documented behaviour of blst: a signature made with \<open>sk\<close> verifies under the public key of \<open>sk\<close>, also
  after both were compressed and uncompressed.\<close>

definition blst_verifies :: "'p ext \<Rightarrow> bytes \<Rightarrow> bool" where
  "blst_verifies ext sk \<longleftrightarrow> (\<forall>m.
     blst_core_verify_pk_in_g1 ext (blst_p1_uncompress ext (blst_p1_compress ext (blst_sk_to_pk_in_g1 ext sk)))
       (blst_p2_uncompress ext (blst_p2_compress ext (blst_sign_pk_in_g1 ext (blst_hash_to_g2 ext m dst_tag) sk)))
       m dst_tag = BLST_SUCCESS)"

lemma signature_verifies:
  assumes "blst_sizes ext" and "blst_verifies ext k" and "strip0x msg \<noteq> []" and "list_all is_hex (strip0x msg)"
  shows "verify_sign ext junk (pkhex ext k) msg (signature_of ext k (hexbytes (strip0x msg))) = Some BLSTSUCCESS"
proof -
  have "hexbytes (pkhex ext k) = blst_p1_compress ext (blst_sk_to_pk_in_g1 ext k)" by (simp add: pkhex_def)
  then show ?thesis
    using assms verify_sign_eq [OF assms(3), of ext junk "pkhex ext k" "signature_of ext k (hexbytes (strip0x msg))"]
    by (simp add: hex_arg_def signature_of_def pkhex_def blst_verifies_def blst_sizes_def)
qed

text \<open>C18: Signatures verify. For every key of the keystore and every hexadecimal message, \<open>sign_pk\<close> with
  the text of its public key succeeds and \<open>verify_sign\<close> accepts the text it produced.\<close>

theorem sign_then_verify:
  assumes inv: "hsm_inv ext st" and sz: "blst_sizes ext" and sk: "sk \<in> set (hsm_keys st)"
    and ok: "\<forall>k \<in> set (hsm_keys st). blst_verifies ext k"
    and msg: "strip0x msg \<noteq> []" "list_all is_hex (strip0x msg)"
  shows "\<exists>sig. sign_pk ext junk (pkhex ext sk) msg sign st = Some (0, sig) \<and>
    verify_sign ext junk' (pkhex ext sk) msg sig = Some BLSTSUCCESS"
proof -
  have "find_pk ext (pkhex ext sk) (hsm_keys st) \<noteq> None"
    using sk length_pkhex [OF sz, of sk] by (auto simp: find_pk_None)
  then obtain i where i: "find_pk ext (pkhex ext sk) (hsm_keys st) = Some i"
    by blast
  let ?k = "hsm_keys st ! i"
  have k: "?k \<in> set (hsm_keys st)" "pkhex ext ?k = pkhex ext sk"
    using find_pk_SomeD [OF i] length_pkhex [OF sz, of sk] by auto
  let ?sig = "signature_of ext ?k (hexbytes (strip0x msg))"
  have "sign_pk ext junk (pkhex ext sk) msg sign st = Some (0, ?sig)"
    using sign_pk_eq [OF inv sz msg(1), of junk "pkhex ext sk" sign] i msg by (simp add: signed_bytes_def)
  moreover have "verify_sign ext junk' (pkhex ext sk) msg ?sig = Some BLSTSUCCESS"
    using signature_verifies [OF sz ok [THEN bspec, OF k(1)] msg] by (simp add: k(2))
  ultimately show ?thesis by blast
qed

lemma demo_verifies: "length sk = 32 \<Longrightarrow> blst_verifies demo_ext sk"
  by (simp add: blst_verifies_def demo_ext_def pad_def)

theorem sign_then_verify_witness:
  "\<exists>sig. sign_pk demo_ext (\<lambda>_. 0) (pkhex demo_ext (replicate 32 5)) ''0xab'' '''' (demo_hsm1 (replicate 32 5)) = Some (0, sig) \<and>
     verify_sign demo_ext (\<lambda>_. 0) (pkhex demo_ext (replicate 32 5)) ''0xab'' sig = Some BLSTSUCCESS"
proof -
  have "strip0x ''0xab'' = ''ab''" "list_all is_hex ''ab''"
    by (simp_all add: strip0x_def has0x_def is_hex_def between_def ord8_def)
  then show ?thesis
    by (intro sign_then_verify demo_hsm1_simps(1) demo_sizes) (simp_all add: demo_hsm1_simps(2) demo_verifies)
qed

lemma get_key_total:
  assumes inv: "hsm_inv ext st" and sz: "blst_sizes ext" and "length buf = 96"
  shows "get_key i buf st =
    (if i < 0 then None
     else if i \<ge> int (length (hsm_keys st)) then Some (-1, buf)
     else Some (0, pkhex ext (hsm_keys st ! nat i)))"
proof -
  note sh = hsm_inv_shape [OF inv]
  have "get_key i buf st = Some (0, pkhex ext (hsm_keys st ! nat i))"
    if "0 \<le> i" "i < int (length (hsm_keys st))"
    using get_key_ok [OF inv sz _ assms(3), of "nat i"] that by auto
  then show ?thesis
    using hsm_shapeD(3) [OF sh] by (auto simp: length_hsm_keys [OF sh] get_key_def at_int_def)
qed

text \<open>The public keys. \<open>get_keys\<close> fills an array with one row per key with the public keys in order.
  \<open>get_key\<close> copies the requested one and returns 0, returns -1 without touching the array for an index
  past the end, and reads outside the store for a negative index, which it does not check.\<close>

theorem get_keys_spec:
  assumes "hsm_inv ext st" and "blst_sizes ext"
    and "length dst = length (hsm_keys st)" and "\<forall>r \<in> set dst. length r = 96" and "length buf = 96"
  shows "get_keys dst st = Some (map (pkhex ext) (hsm_keys st)) \<and>
    get_key i buf st =
      (if i < 0 then None
       else if i \<ge> int (length (hsm_keys st)) then Some (-1, buf)
       else Some (0, pkhex ext (hsm_keys st ! nat i)))"
  using get_keys_ok [OF assms(1,3)] get_key_total [OF assms(1,2,5), of i] assms(4) by simp

theorem get_keys_spec_witness:
  "get_keys [replicate 96 nul] (demo_hsm1 (replicate 32 5)) = Some [pkhex demo_ext (replicate 32 5)] \<and>
   get_key (-3) (replicate 96 nul) (demo_hsm1 (replicate 32 5)) = None"
  using get_keys_spec [OF demo_hsm1_simps(1) demo_sizes, of "replicate 32 5" "[replicate 96 nul]" "replicate 96 nul" "-3"]
  by (simp add: demo_hsm1_simps(2))

text \<open>The storage accepts every write.\<close>

definition ps_writable :: "'p ext \<Rightarrow> bool" where
  "ps_writable ext \<longleftrightarrow> (\<forall>uid d p. fst (psa_ps_set ext uid d p) = PSA_SUCCESS)"

lemma persist_writable: "ps_writable ext \<Longrightarrow> fst (persist b ext sks n p) = PSA_SUCCESS"
  by (auto simp: persist_def ps_writable_def Let_def split: prod.splits) (metis fst_conv)+

lemma persisted_append_writable:
  assumes "hsm_inv ext st" and "ps_laws ext" and "ps_writable ext" and "keystore_size st < 10" and "length sk = 32"
  shows "persisted ext ((hsm_append sk pk st)\<lparr>plat := snd (persist Nrf_Tfm ext
      ((secret_keys_store st)[nat (keystore_size st) := sk]) (keystore_size st + 1) p)\<rparr>)"
  using persisted_append [OF assms(1,2,4,5)] persist_writable [OF assms(3)]
  by (metis prod.collapse)

lemma keygen_persisted:
  assumes inv: "hsm_inv ext st" and sz: "blst_sizes ext" and ps: "ps_laws ext" "ps_writable ext"
    and kg: "secure_keygen Nrf_Tfm ext info st = Some (r, st')" and new: "hsm_keys st' \<noteq> hsm_keys st"
  shows "persisted ext st'"
proof -
  obtain s ikm p1 where ikm: "keygen_ikm Nrf_Tfm ext (plat st) = (s, ikm, p1)"
    by (metis prod_cases3)
  have room: "keystore_size st < 10"
    using kg new secure_keygen_full [of st Nrf_Tfm ext info] by (auto simp: not_le [symmetric])
  have s: "s = PSA_SUCCESS"
    using kg new secure_keygen_rng [OF room ikm, of info] by fastforce
  obtain key_info where "info_bytes info = Some key_info"
    using secure_keygen_info [OF kg room] ikm s by blast
  then show ?thesis
    using secure_keygen_ok [OF inv sz room, of Nrf_Tfm ikm p1 info key_info] ikm s kg sz
      persisted_append_writable [OF inv ps room, of "blst_keygen ext ikm key_info"]
    by (auto simp: blst_sizes_def)
qed

lemma import_persisted:
  assumes inv: "hsm_inv ext st" and sz: "blst_sizes ext" and ps: "ps_laws ext" "ps_writable ext"
    and im: "import_sk Nrf_Tfm ext skt st = Some (r, st')" and new: "hsm_keys st' \<noteq> hsm_keys st"
  shows "persisted ext st'"
proof -
  have room: "keystore_size st < 10"
    using im new import_sk_full [of st Nrf_Tfm ext skt] by (auto simp: not_le [symmetric])
  have hx: "is_hex (chr_at skt k)" if "k < 64" for k
    using im new import_sk_bad_hex [OF room, of skt Nrf_Tfm ext] that by auto
  show ?thesis
    using import_sk_valid [OF inv sz room hx refl, of Nrf_Tfm] im new sz
      persisted_append_writable [OF inv ps room, of "blst_scalar_from_bendian ext (hexbytes (take 64 skt))"]
    by (auto simp: blst_sizes_def split: if_splits)
qed

text \<open>Keys survive a reboot. When generation or import on the TF-M build added a key and the storage accepted
  the writes, starting the partition again from its static initial values restores exactly the same
  secret keys, together with their public keys.\<close>

theorem keystore_survives_reboot:
  assumes inv: "hsm_inv ext st" and sz: "blst_sizes ext" and ps: "ps_laws ext" "ps_writable ext"
    and add: "secure_keygen Nrf_Tfm ext info st = Some (r, st') \<or> import_sk Nrf_Tfm ext skt st = Some (r, st')"
    and new: "hsm_keys st' \<noteq> hsm_keys st" and up: "psa_crypto_init ext (plat st') = PSA_SUCCESS"
  shows "\<exists>st''. init ext (hsm_boot (plat st')) = Some (PSA_SUCCESS, st'') \<and>
    hsm_keys st'' = hsm_keys st' \<and> keystore_size st'' = keystore_size st' \<and> hsm_inv ext st''"
proof -
  have "hsm_inv ext st'"
    using add secure_keygen_inv [OF inv sz] import_sk_inv [OF inv sz] by blast
  moreover have "persisted ext st'"
    using add keygen_persisted [OF inv sz ps _ new] import_persisted [OF inv sz ps _ new] by blast
  ultimately show ?thesis
    using init_restores [OF sz _ _ up, of "hsm_boot (plat st')"] by auto
qed

lemma demo_writable: "ps_writable demo_ext"
  by (simp add: ps_writable_def demo_ext_def)

theorem keystore_survives_reboot_witness:
  "\<exists>st' st''. import_sk Nrf_Tfm demo_ext (hexstr (replicate 32 5)) demo_hsm = Some (0, st') \<and>
     init demo_ext (hsm_boot (plat st')) = Some (PSA_SUCCESS, st'') \<and> hsm_keys st'' = [replicate 32 5]"
proof -
  let ?sk = "hexstr (replicate 32 5)"
  have "is_hex (chr_at ?sk k)" if "k < 64" for k
    using that is_hex_chr_at_hexstr [of k "replicate 32 5"] by simp
  then obtain p where im: "import_sk Nrf_Tfm demo_ext ?sk demo_hsm =
      Some (0, (hsm_append (replicate 32 5) (pkhex demo_ext (replicate 32 5)) demo_hsm)\<lparr>plat := p\<rparr>)"
    using import_sk_valid [OF demo_hsm_simps(1) demo_sizes _ _ refl, of ?sk Nrf_Tfm] by (simp add: pad_id)
  let ?st = "(hsm_append (replicate 32 5) (pkhex demo_ext (replicate 32 5)) demo_hsm)\<lparr>plat := p\<rparr>"
  have keys: "hsm_keys ?st = [replicate 32 5]"
    using hsm_append_keys [OF hsm_inv_shape [OF demo_hsm_simps(1)]] by simp
  have "psa_crypto_init demo_ext (plat ?st) = PSA_SUCCESS"
    by (simp add: demo_ext_def)
  from keystore_survives_reboot [OF demo_hsm_simps(1) demo_sizes demo_ps_laws demo_writable disjI2 [OF im] _ this]
  show ?thesis
    using im keys by auto
qed

subsection \<open>Reset\<close>

text \<open>C32: \<open>reset\<close> leaves nothing of the old keys in memory: all ten secret keys and public keys are
  zero, the keystore is empty and consistent, and no public key is found afterwards.\<close>

theorem reset_erases_keys:
  assumes "hsm_shape st" and "blst_sizes ext"
  shows "secret_keys_store (reset b ext st) = replicate 10 (replicate 32 0) \<and>
    public_keys_hex_store (reset b ext st) = replicate 10 (replicate 96 nul) \<and>
    keystore_size (reset b ext st) = 0 \<and> hsm_inv ext (reset b ext st) \<and>
    sign_pk ext junk pk msg sign (reset b ext st) = Some (PKNOTFOUND, sign)"
  using reset_erases [OF assms(1), of b ext] reset_inv [OF assms(1), of ext b] reset_keys [of b ext st]
    sign_pk_not_found [OF hsm_inv_shape, of ext "reset b ext st"]
  by simp

theorem reset_erases_keys_witness:
  "secret_keys_store (reset Nrf_Tfm demo_ext (demo_hsm1 (replicate 32 5))) = replicate 10 (replicate 32 0)"
  using reset_erases_keys [OF hsm_inv_shape [OF demo_hsm1_simps(1)] demo_sizes, of "replicate 32 5" Nrf_Tfm] by simp

text \<open>Removing an entry that exists succeeds.\<close>

definition ps_removable :: "'p ext \<Rightarrow> bool" where
  "ps_removable ext \<longleftrightarrow> (\<forall>uid n p. fst (psa_ps_get ext uid 0 n p) = PSA_SUCCESS \<longrightarrow>
     fst (psa_ps_remove ext uid p) = PSA_SUCCESS)"

lemma remove_uids_other:
  "ps_laws ext \<Longrightarrow> uid < i \<or> i + n \<le> uid \<Longrightarrow>
   psa_ps_get ext uid off k (remove_uids n i ext p) = psa_ps_get ext uid off k p"
proof (induction n arbitrary: i p)
  case 0
  then show ?case by simp
next
  case (Suc n)
  obtain s p' where "psa_ps_remove ext i p = (s, p')"
    by fastforce
  with Suc show ?case
    using ps_remove_other [OF Suc.prems(1), of i p s p' uid off k] by auto
qed

lemma reset_storage:
  assumes ps: "ps_laws ext" "ps_writable ext" "ps_removable ext"
    and per: "persisted ext st" and sz: "0 < keystore_size st" "keystore_size st \<le> 10"
  shows "psa_ps_get ext UID_KEYSTORE_SIZE 0 4 (plat (reset Nrf_Tfm ext st)) = (PSA_SUCCESS, le32 0)"
    and "fst (psa_ps_get ext UID_KEYSTORE 0 0 (plat (reset Nrf_Tfm ext st))) \<noteq> PSA_SUCCESS"
    and "snd (psa_ps_get ext UID_KEYSTORE 0 0 (plat (reset Nrf_Tfm ext st))) = []"
proof -
  define p1 where "p1 = snd (psa_ps_set ext UID_KEYSTORE_SIZE (le32 0) (plat st))"
  have set: "psa_ps_set ext UID_KEYSTORE_SIZE (le32 0) (plat st) = (PSA_SUCCESS, p1)"
    using ps(2) by (simp add: ps_writable_def p1_def prod_eq_iff)
  obtain n where n: "nat (keystore_size st) = Suc n"
    using sz by (cases "nat (keystore_size st)") auto
  have n9: "n \<le> 9"
    using n sz by linarith
  define p2 where "p2 = snd (psa_ps_remove ext UID_KEYSTORE p1)"
  have "fst (psa_ps_get ext UID_KEYSTORE 0 (32 * nat (keystore_size st)) p1) = PSA_SUCCESS"
    using per ps_set_other [OF ps(1) set, of UID_KEYSTORE] by (simp add: persisted_def)
  then have rem: "psa_ps_remove ext UID_KEYSTORE p1 = (PSA_SUCCESS, p2)"
    using ps(3) unfolding ps_removable_def p2_def by (metis prod.collapse)
  have plat: "plat (reset Nrf_Tfm ext st) = remove_uids n 2 ext p2"
    using n set by (simp add: reset_def Let_def p2_def numeral_2_eq_2)
  have "psa_ps_get ext UID_KEYSTORE_SIZE 0 4 p2 = (PSA_SUCCESS, le32 0)"
    using ps_remove_other [OF ps(1) rem, of UID_KEYSTORE_SIZE 0 4] ps_set_get [OF ps(1) set, of 4] by simp
  then show "psa_ps_get ext UID_KEYSTORE_SIZE 0 4 (plat (reset Nrf_Tfm ext st)) = (PSA_SUCCESS, le32 0)"
    using remove_uids_other [OF ps(1), of UID_KEYSTORE_SIZE 2 n 0 4 p2] n9 by (simp add: plat)
  show "fst (psa_ps_get ext UID_KEYSTORE 0 0 (plat (reset Nrf_Tfm ext st))) \<noteq> PSA_SUCCESS"
    and "snd (psa_ps_get ext UID_KEYSTORE 0 0 (plat (reset Nrf_Tfm ext st))) = []"
    using ps_remove_get [OF ps(1) rem, of 0 0] remove_uids_other [OF ps(1), of UID_KEYSTORE 2 n 0 0 p2]
    by (simp_all add: plat)
qed

text \<open>The boot after a reset. \<open>reset\<close> stores the size 0 and removes the entry of the keys, but
  \<open>init\<close> reads that entry whenever a size is stored: the next start comes up with an empty
  keystore, as intended, and yet reports an error.\<close>

theorem reset_then_reboot:
  assumes ps: "ps_laws ext" "ps_writable ext" "ps_removable ext"
    and per: "persisted ext st" and sz: "0 < keystore_size st" "keystore_size st \<le> 10"
    and up: "psa_crypto_init ext (plat (reset Nrf_Tfm ext st)) = PSA_SUCCESS"
  shows "\<exists>e st'. init ext (hsm_boot (plat (reset Nrf_Tfm ext st))) = Some (e, st') \<and>
    e \<noteq> PSA_SUCCESS \<and> hsm_keys st' = [] \<and> keystore_size st' = 0"
proof -
  note stor = reset_storage [OF ps per sz]
  obtain e where e: "psa_ps_get ext UID_KEYSTORE 0 0 (plat (reset Nrf_Tfm ext st)) = (e, [])" "e \<noteq> PSA_SUCCESS"
    using stor(2,3) by (metis prod.collapse)
  have "int_of_le32 (le32 0) = 0"
    by (simp add: int_of_le32_le32)
  then show ?thesis
    using up stor(1) e
    by (simp add: init_def Let_def hsm_boot_def blit_def hsm_keys_def)
qed

lemma demo_removable: "ps_removable demo_ext"
  by (auto simp: ps_removable_def demo_ext_def split: option.splits if_splits)

definition demo_stored :: "(nat \<Rightarrow> bytes option) hsm" where
  "demo_stored = (demo_hsm1 (replicate 32 5))\<lparr>plat := (\<lambda>_. None)(1 \<mapsto> replicate 32 5, 11 \<mapsto> le32 1)\<rparr>"

lemma demo_stored_persisted: "persisted demo_ext demo_stored" "keystore_size demo_stored = 1"
proof -
  have "hsm_keys demo_stored = [replicate 32 5]"
    by (simp add: demo_stored_def demo_hsm1_simps(2))
  moreover show sz: "keystore_size demo_stored = 1"
    by (simp add: demo_stored_def demo_hsm1_def hsm_append_def)
  ultimately show "persisted demo_ext demo_stored"
    unfolding persisted_def sz by (simp add: demo_ext_def demo_stored_def)
qed

theorem reset_then_reboot_witness:
  "\<exists>e st'. init demo_ext (hsm_boot (plat (reset Nrf_Tfm demo_ext demo_stored))) = Some (e, st') \<and>
    e \<noteq> PSA_SUCCESS \<and> hsm_keys st' = []"
  using reset_then_reboot [OF demo_ps_laws demo_writable demo_removable demo_stored_persisted(1)]
  by (auto simp: demo_stored_persisted(2) demo_ext_def)

subsection \<open>Storage and memory agree\<close>

text \<open>
  The storage and the memory of the TF-M build agree: either the storage holds the keystore, or the
  keystore is empty and the storage has no size, or size 0.
\<close>

definition durable :: "'p ext \<Rightarrow> 'p hsm \<Rightarrow> bool" where
  "durable ext st \<longleftrightarrow> persisted ext st \<or>
     keystore_size st = 0 \<and> (fst (psa_ps_get ext UID_KEYSTORE_SIZE 0 4 (plat st)) \<noteq> PSA_SUCCESS \<or>
       psa_ps_get ext UID_KEYSTORE_SIZE 0 4 (plat st) = (PSA_SUCCESS, le32 0))"

text \<open>The documented behaviour of the storage, on a device whose storage works.\<close>

definition storage_works :: "'p ext \<Rightarrow> bool" where
  "storage_works ext \<longleftrightarrow> ps_laws ext \<and> ps_writable ext \<and> ps_removable ext"

lemma storage_worksD:
  assumes "storage_works ext"
  shows "ps_laws ext" and "ps_writable ext" and "ps_removable ext"
  using assms by (simp_all add: storage_works_def)

lemma durable_plat_cong:
  assumes "\<And>uid off n. psa_ps_get ext uid off n p = psa_ps_get ext uid off n (plat st)"
  shows "durable ext (st\<lparr>plat := p\<rparr>) = durable ext st"
  by (simp add: durable_def persisted_def assms)

lemma keygen_durable:
  assumes inv: "hsm_inv ext st" and sz: "blst_sizes ext" and ps: "storage_works ext" and d: "durable ext st"
    and kg: "secure_keygen Nrf_Tfm ext info st = Some (r, st')"
  shows "durable ext st'"
proof (cases "hsm_keys st' = hsm_keys st")
  case False
  then show ?thesis
    using keygen_persisted [OF inv sz storage_worksD(1,2) [OF ps] kg] by (simp add: durable_def)
next
  case True
  obtain s ikm p1 where ikm: "keygen_ikm Nrf_Tfm ext (plat st) = (s, ikm, p1)"
    by (metis prod_cases3)
  show ?thesis
  proof (cases "keystore_size st < 10 \<and> s = PSA_SUCCESS")
    case ok: True
    then obtain key_info where "info_bytes info = Some key_info"
      using secure_keygen_info [OF kg] ikm by blast
    then have "hsm_keys st' = hsm_keys st @ [blst_keygen ext ikm key_info]"
      using secure_keygen_ok [OF inv sz _ _ _ refl, of Nrf_Tfm ikm p1 info key_info] ikm ok kg
        hsm_append_keys [OF hsm_inv_shape [OF inv]] by auto
    with True show ?thesis by simp
  next
    case False
    then have "st' = st \<or> st' = st\<lparr>plat := p1\<rparr>"
      using kg secure_keygen_full [of st Nrf_Tfm ext info] secure_keygen_rng [OF _ ikm, of info]
      by (cases "keystore_size st < 10") auto
    moreover have "psa_ps_get ext uid off n p1 = psa_ps_get ext uid off n (plat st)" for uid off n
      using ikm ps_random_get [OF storage_worksD(1) [OF ps]] by (simp add: keygen_ikm_def)
    ultimately show ?thesis
      using d durable_plat_cong [of ext p1 st] by auto
  qed
qed

lemma import_durable:
  assumes inv: "hsm_inv ext st" and sz: "blst_sizes ext" and ps: "storage_works ext" and d: "durable ext st"
    and im: "import_sk Nrf_Tfm ext skt st = Some (r, st')"
  shows "durable ext st'"
proof (cases "hsm_keys st' = hsm_keys st")
  case False
  then show ?thesis
    using import_persisted [OF inv sz storage_worksD(1,2) [OF ps] im] by (simp add: durable_def)
next
  case True
  have "st' = st"
  proof (cases "keystore_size st < 10 \<and> (\<forall>k < 64. is_hex (chr_at skt k))")
    case ok: True
    then show ?thesis
      using import_sk_valid [OF inv sz _ _ refl, of skt Nrf_Tfm] im True
        hsm_append_keys [OF hsm_inv_shape [OF inv]] by (auto split: if_splits)
  next
    case False
    then show ?thesis
      using im import_sk_full [of st Nrf_Tfm ext skt] import_sk_bad_hex [of st skt Nrf_Tfm ext]
      by (cases "keystore_size st < 10") auto
  qed
  with d show ?thesis by simp
qed

lemma reset_durable:
  assumes sh: "hsm_shape st" and ps: "storage_works ext"
  shows "durable ext (reset Nrf_Tfm ext st)"
proof -
  obtain p1 where set: "psa_ps_set ext UID_KEYSTORE_SIZE (le32 0) (plat st) = (PSA_SUCCESS, p1)"
    using storage_worksD(2) [OF ps] by (metis ps_writable_def prod.collapse)
  then have "plat (reset Nrf_Tfm ext st) = remove_uids (nat (keystore_size st)) 1 ext p1"
    by (simp add: reset_def Let_def)
  then have "psa_ps_get ext UID_KEYSTORE_SIZE 0 4 (plat (reset Nrf_Tfm ext st)) = (PSA_SUCCESS, le32 0)"
    using remove_uids_other [OF storage_worksD(1) [OF ps], of UID_KEYSTORE_SIZE 1 "nat (keystore_size st)" 0 4 p1]
      ps_set_get [OF storage_worksD(1) [OF ps] set, of 4] hsm_shapeD(4) [OF sh]
    by simp
  then show ?thesis
    by (simp add: durable_def reset_def Let_def)
qed

text \<open>Starting, or starting again, finds the keys that are in the storage.\<close>

lemma init_durable:
  assumes sz: "blst_sizes ext" and inv: "hsm_inv ext st" and ps: "storage_works ext" and d: "durable ext st"
    and sh0: "hsm_shape st0" and pl: "plat st0 = plat st" and up: "psa_crypto_init ext (plat st) = PSA_SUCCESS"
  shows "\<exists>r st'. init ext st0 = Some (r, st') \<and> hsm_inv ext st' \<and> durable ext st' \<and> hsm_keys st' = hsm_keys st"
proof (cases "persisted ext st")
  case True
  from init_restores [OF sz inv True up sh0 pl] obtain st' where
    st': "init ext st0 = Some (PSA_SUCCESS, st')" "hsm_inv ext st'" "hsm_keys st' = hsm_keys st"
      "keystore_size st' = keystore_size st" "plat st' = plat st"
    by blast
  then have "persisted ext st'"
    using True by (simp add: persisted_def)
  with st' show ?thesis by (auto simp: durable_def)
next
  case False
  then have e: "hsm_keys st = []" and cases: "fst (psa_ps_get ext UID_KEYSTORE_SIZE 0 4 (plat st)) \<noteq> PSA_SUCCESS \<or>
       psa_ps_get ext UID_KEYSTORE_SIZE 0 4 (plat st) = (PSA_SUCCESS, le32 0)"
    using d by (auto simp: durable_def hsm_keys_def)
  obtain s k where k: "psa_ps_get ext UID_KEYSTORE 0 0 (plat st) = (s, k)"
    by fastforce
  then have "k = []"
    using ps_get_length [OF storage_worksD(1) [OF ps], of UID_KEYSTORE 0 0 "plat st"] by simp
  have rows: "rows 32 (concat (secret_keys_store st0)) = secret_keys_store st0"
    using rows_concat [of "secret_keys_store st0" 32] hsm_shapeD [OF sh0] by simp
  have "\<exists>r. init ext st0 = Some (r, st0\<lparr>keystore_size := 0\<rparr>)"
    using cases k \<open>k = []\<close> up pl rows
    by (auto simp: init_def Let_def blit_def int_of_le32_le32 split: prod.splits)
  moreover have "hsm_inv ext (st0\<lparr>keystore_size := 0\<rparr>)"
    using sh0 by (simp add: hsm_inv_def hsm_shape_def)
  ultimately show ?thesis
    using cases e pl by (auto simp: durable_def hsm_keys_def)
qed

text \<open>On the WiFi build the key material is the constant zero, so all keys generated with the same \<open>info\<close>
  are the same key: two calls append two equal secret keys.\<close>

theorem wifi_keys_repeat:
  assumes inv: "hsm_inv ext st" and sz: "blst_sizes ext" and info: "info_bytes info = Some key_info"
    and room: "keystore_size st < 9"
  shows "\<exists>st1 st2 k. secure_keygen Nrf_Wifi ext info st = Some (keystore_size st, st1) \<and>
    secure_keygen Nrf_Wifi ext info st1 = Some (keystore_size st + 1, st2) \<and>
    hsm_keys st2 = hsm_keys st @ [k, k]"
proof -
  note sh = hsm_inv_shape [OF inv]
  let ?k = "blst_keygen ext (replicate 32 0) key_info"
  let ?a = "\<lambda>s. hsm_append ?k (pkhex ext ?k) s"
  have wifi: "keygen_ikm Nrf_Wifi ext p = (0, replicate 32 0, p)" for p
    by (simp add: keygen_ikm_def)
  have upd: "s\<lparr>plat := plat s\<rparr> = s" for s :: "'a hsm"
    by simp
  have k1: "secure_keygen Nrf_Wifi ext info st = Some (keystore_size st, ?a st)"
    using secure_keygen_ok [OF inv sz _ wifi info refl] room
    by (simp add: persist_def hsm_append_def)
  have inv1: "hsm_inv ext (?a st)"
    using hsm_append_inv [OF inv _ _ sz, of ?k] room sz by (simp add: blst_sizes_def)
  have k2: "secure_keygen Nrf_Wifi ext info (?a st) = Some (keystore_size st + 1, ?a (?a st))"
    using secure_keygen_ok [OF inv1 sz _ wifi info refl] room
    by (simp add: persist_def hsm_append_def)
  have "hsm_keys (?a (?a st)) = hsm_keys st @ [?k, ?k]"
    using hsm_append_keys [OF hsm_inv_shape [OF inv1], of ?k "pkhex ext ?k"]
      hsm_append_keys [OF sh, of ?k "pkhex ext ?k"] room
    by (simp add: hsm_append_def)
  with k1 k2 show ?thesis by blast
qed

theorem wifi_keys_repeat_witness:
  "\<exists>st1 st2 k. secure_keygen Nrf_Wifi demo_ext None demo_hsm = Some (0, st1) \<and>
    secure_keygen Nrf_Wifi demo_ext None st1 = Some (1, st2) \<and> hsm_keys st2 = [k, k]"
  using wifi_keys_repeat [OF demo_hsm_simps(1) demo_sizes info_bytes_None] by simp

end
