(* ===== verification/Secure_Partition.thy ===== *)
theory Secure_Partition
  imports Keystore
begin

text \<open>
  \<^verbatim>\<open>src/secure_partition/secure_partition.c\<close>: the TF-M partition that owns the keystore. Each service has
  a handler that reads its arguments from the message, calls the keystore and writes the results; the
  main loop waits for a signal and runs the handler of its service.

  The partition always runs the TF-M build of the keystore (\<open>Nrf_Tfm\<close>). The secure partition manager is
  not part of the repository: \<open>psa_read\<close> is a field of the record \<open>fw\<close>, the values of the
  signals are a parameter \<open>sigmask\<close> (they come from a generated header), and the calls of \<open>psa_write\<close> and
  \<open>psa_reply\<close> are recorded as results. As everywhere, \<open>None\<close> stands for an access outside an array.
\<close>

section \<open>Messages and replies\<close>

abbreviation (input) PSA_ERROR_PROGRAMMER_ERROR :: int where "PSA_ERROR_PROGRAMMER_ERROR \<equiv> -129"
abbreviation (input) PSA_ERROR_GENERIC_ERROR :: int where "PSA_ERROR_GENERIC_ERROR \<equiv> -132"
abbreviation (input) PSA_ERROR_INVALID_ARGUMENT :: int where "PSA_ERROR_INVALID_ARGUMENT \<equiv> -135"
abbreviation (input) PSA_IPC_CONNECT :: int where "PSA_IPC_CONNECT \<equiv> -1"
abbreviation (input) PSA_IPC_CALL :: int where "PSA_IPC_CALL \<equiv> 0"
abbreviation (input) PSA_IPC_DISCONNECT :: int where "PSA_IPC_DISCONNECT \<equiv> -2"

record psa_msg =
  msg_type :: int
  msg_handle :: int
  in_size :: "nat \<Rightarrow> nat"
  out_size :: "nat \<Rightarrow> nat"

text \<open>
  \<open>psa_read handle i n\<close>: the bytes copied by a request for \<open>n\<close> bytes of input vector \<open>i\<close>; the
  result of the C function is their number. \<open>malloc_ok n\<close>: \<open>malloc(n)\<close> is not NULL.
\<close>

record fw =
  psa_read :: "int \<Rightarrow> nat \<Rightarrow> nat \<Rightarrow> bytes"
  malloc_ok :: "32 word \<Rightarrow> bool"

text \<open>The calls of \<open>psa_write\<close>: output vector and data, in order.\<close>

type_synonym writes = "(nat \<times> bytes) list"

text \<open>A handler returns the status of the reply, its writes and the new keystore.\<close>

type_synonym 'p handler_result = "(int \<times> writes \<times> 'p hsm) option"

text \<open>\<open>psa_read\<close> of a whole input vector into a local array; the flag tells whether all of it was read.\<close>

definition read_into :: "fw \<Rightarrow> psa_msg \<Rightarrow> nat \<Rightarrow> bytes \<Rightarrow> (bool \<times> bytes) option" where
  "read_into fw msg i buf = do {
     let data = psa_read fw (msg_handle msg) i (in_size msg i);
     buf1 \<leftarrow> blit buf data;
     Some (length data = in_size msg i, buf1)
   }"

definition chars :: "bytes \<Rightarrow> char list" where
  "chars bs = map chr8 bs"

definition octets :: "char list \<Rightarrow> bytes" where
  "octets cs = map ord8 cs"

text \<open>A C string in an array: without a terminator, \<open>strlen\<close> leaves the array.\<close>

definition cstr_in :: "char list \<Rightarrow> string option" where
  "cstr_in m = (if nul \<in> set m then Some (cstr m) else None)"

text \<open>Conversion of a 32-bit value to \<open>int\<close>.\<close>

definition to_i32 :: "int \<Rightarrow> int" where
  "to_i32 i = sint (word_of_int i :: 32 word)"

section \<open>Handlers\<close>

definition secrets :: "bytes list" where
  "secrets = map (\<lambda>k. word_of_nat k # map word_of_nat [1..<16]) [0..<5]"

definition tfm_dp_secret_digest :: "'p ext \<Rightarrow> (nat \<Rightarrow> byte) \<Rightarrow> 32 word \<Rightarrow> nat \<Rightarrow> 'p hsm \<Rightarrow> 'p handler_result" where
  "tfm_dp_secret_digest ext junk secret_index digest_size st = (
     if unat secret_index \<ge> 5 then Some (PSA_ERROR_INVALID_ARGUMENT, [], st)
     else if digest_size \<noteq> 32 then Some (PSA_ERROR_INVALID_ARGUMENT, [], st)
     else do {
       secret \<leftarrow> at secrets (unat secret_index);
       let (status, digest, olen) = psa_hash_compute ext secret (stack_arr junk 32) (plat st);
       if status \<noteq> PSA_SUCCESS then Some (status, [], st)
       else if olen \<noteq> digest_size then Some (PSA_ERROR_PROGRAMMER_ERROR, [], st)
       else Some (PSA_SUCCESS, [(0, digest)], st)
     })"

definition tfm_dp_secret_digest_ipc :: "'p ext \<Rightarrow> fw \<Rightarrow> (nat \<Rightarrow> byte) \<Rightarrow> psa_msg \<Rightarrow> 'p hsm \<Rightarrow> 'p handler_result" where
  "tfm_dp_secret_digest_ipc ext fw junk msg st = (
     if in_size msg 0 \<noteq> 4 then Some (PSA_ERROR_PROGRAMMER_ERROR, [], st)
     else do {
       (complete, buf) \<leftarrow> read_into fw msg 0 (stack_arr junk 4);
       if \<not> complete then Some (PSA_ERROR_PROGRAMMER_ERROR, [], st)
       else tfm_dp_secret_digest ext junk (u32_of_le buf) (out_size msg 0) st
     })"

definition tfm_init_ipc :: "'p ext \<Rightarrow> psa_msg \<Rightarrow> 'p hsm \<Rightarrow> 'p handler_result" where
  "tfm_init_ipc ext msg st = do {
     (status, st1) \<leftarrow> init ext st;
     Some (status, [], st1)
   }"

definition tfm_get_keystore_size_ipc :: "psa_msg \<Rightarrow> 'p hsm \<Rightarrow> 'p handler_result" where
  "tfm_get_keystore_size_ipc msg st = Some (PSA_SUCCESS, [(0, le32 (get_keystore_size st))], st)"

text \<open>The loop of \<open>GetFreeMemorySize\<close> has no bound of its own; \<open>None\<close> here means that it does not end.\<close>

partial_function (option) free_memory_loop :: "(32 word \<Rightarrow> bool) \<Rightarrow> 32 word \<Rightarrow> 32 word option" where
  "free_memory_loop malloc i = (if \<not> malloc (i * 1024) then Some i else free_memory_loop malloc (i + 1))"

definition GetFreeMemorySize :: "fw \<Rightarrow> 32 word option" where
  "GetFreeMemorySize fw = free_memory_loop (malloc_ok fw) 1"

definition tfm_get_free_memory_size_ipc :: "fw \<Rightarrow> psa_msg \<Rightarrow> 'p hsm \<Rightarrow> 'p handler_result" where
  "tfm_get_free_memory_size_ipc fw msg st = do {
     ms \<leftarrow> GetFreeMemorySize fw;
     Some (PSA_SUCCESS, [(0, le32 (sint ms))], st)
   }"

definition tfm_secure_keygen_ipc :: "'p ext \<Rightarrow> fw \<Rightarrow> psa_msg \<Rightarrow> 'p hsm \<Rightarrow> 'p handler_result" where
  "tfm_secure_keygen_ipc ext fw msg st = do {
     (complete, info) \<leftarrow> read_into fw msg 0 (replicate 32 0);
     if \<not> complete then Some (PSA_ERROR_PROGRAMMER_ERROR, [], st)
     else do {
       (index, st1) \<leftarrow> secure_keygen Nrf_Tfm ext (Some (chars info)) st;
       Some (PSA_SUCCESS, [(0, le32 index)], st1)
     }
   }"

text \<open>\<open>sign\<close> starts as the empty string in an array of 193 characters, all zero; the whole array is written out.\<close>

definition tfm_sign_pk_ipc :: "'p ext \<Rightarrow> fw \<Rightarrow> (nat \<Rightarrow> byte) \<Rightarrow> psa_msg \<Rightarrow> 'p hsm \<Rightarrow> 'p handler_result" where
  "tfm_sign_pk_ipc ext fw junk msg st = do {
     (complete0, pk) \<leftarrow> read_into fw msg 0 (stack_arr junk 97);
     if \<not> complete0 then Some (PSA_ERROR_PROGRAMMER_ERROR, [], st)
     else do {
       (complete1, m) \<leftarrow> read_into fw msg 1 (stack_arr junk 65);
       if \<not> complete1 then Some (PSA_ERROR_PROGRAMMER_ERROR, [], st)
       else do {
         m_str \<leftarrow> cstr_in (chars m);
         (ret, sign) \<leftarrow> sign_pk ext junk (chars pk) m_str '''' st;
         out \<leftarrow> blit (replicate 193 nul) (sign @ [nul]);
         Some (ret, [(0, octets out)], st)
       }
     }
   }"

definition tfm_verify_sign_ipc :: "'p ext \<Rightarrow> fw \<Rightarrow> (nat \<Rightarrow> byte) \<Rightarrow> psa_msg \<Rightarrow> 'p hsm \<Rightarrow> 'p handler_result" where
  "tfm_verify_sign_ipc ext fw junk msg st = do {
     (complete0, pk) \<leftarrow> read_into fw msg 0 (stack_arr junk 96);
     if \<not> complete0 then Some (PSA_ERROR_PROGRAMMER_ERROR, [], st)
     else do {
       (complete1, m) \<leftarrow> read_into fw msg 1 (stack_arr junk 64);
       if \<not> complete1 then Some (PSA_ERROR_PROGRAMMER_ERROR, [], st)
       else do {
         (complete2, sign) \<leftarrow> read_into fw msg 2 (stack_arr junk 192);
         if \<not> complete2 then Some (PSA_ERROR_PROGRAMMER_ERROR, [], st)
         else do {
           pk_str \<leftarrow> cstr_in (chars pk);
           m_str \<leftarrow> cstr_in (chars m);
           sign_str \<leftarrow> cstr_in (chars sign);
           ret \<leftarrow> verify_sign ext junk pk_str m_str sign_str;
           Some (to_i32 ret, [(0, le32 ret)], st)
         }
       }
     }
   }"

definition tfm_get_key_ipc :: "fw \<Rightarrow> (nat \<Rightarrow> byte) \<Rightarrow> psa_msg \<Rightarrow> 'p hsm \<Rightarrow> 'p handler_result" where
  "tfm_get_key_ipc fw junk msg st = do {
     (complete, index) \<leftarrow> read_into fw msg 0 (stack_arr junk 4);
     if \<not> complete then Some (PSA_ERROR_PROGRAMMER_ERROR, [], st)
     else do {
       (_, pk) \<leftarrow> get_key (int_of_le32 index) (chars (stack_arr junk 96)) st;
       Some (PSA_SUCCESS, [(0, octets pk)], st)
     }
   }"

definition tfm_get_keys_ipc :: "(nat \<Rightarrow> byte) \<Rightarrow> psa_msg \<Rightarrow> 'p hsm \<Rightarrow> 'p handler_result" where
  "tfm_get_keys_ipc junk msg st = do {
     let ksize = get_keystore_size st;
     keys \<leftarrow> get_keys (replicate (nat ksize) (chars (stack_arr junk 96))) st;
     Some (PSA_SUCCESS, [(0, octets (concat keys))], st)
   }"

definition tfm_reset_ipc :: "'p ext \<Rightarrow> psa_msg \<Rightarrow> 'p hsm \<Rightarrow> 'p handler_result" where
  "tfm_reset_ipc ext msg st = Some (PSA_SUCCESS, [], reset Nrf_Tfm ext st)"

definition tfm_import_sk_ipc :: "'p ext \<Rightarrow> fw \<Rightarrow> (nat \<Rightarrow> byte) \<Rightarrow> psa_msg \<Rightarrow> 'p hsm \<Rightarrow> 'p handler_result" where
  "tfm_import_sk_ipc ext fw junk msg st = do {
     (complete, sk) \<leftarrow> read_into fw msg 0 (stack_arr junk 64);
     if \<not> complete then Some (PSA_ERROR_PROGRAMMER_ERROR, [], st)
     else do {
       (ret, st1) \<leftarrow> import_sk Nrf_Tfm ext (chars sk) st;
       Some (PSA_SUCCESS, [(0, le32 ret)], st1)
     }
   }"

section \<open>Dispatch\<close>

text \<open>The services of \<^verbatim>\<open>tfm_secure_partition.yaml\<close>.\<close>

datatype service = TFM_DP_SECRET_DIGEST | TFM_INIT | TFM_GET_KEYSTORE_SIZE | TFM_GET_FREE_MEMORY_SIZE
  | TFM_SECURE_KEYGEN | TFM_SIGN_PK | TFM_VERIFY_SIGN | TFM_GET_KEY | TFM_GET_KEYS | TFM_RESET | TFM_IMPORT_SK

definition handler :: "'p ext \<Rightarrow> fw \<Rightarrow> (nat \<Rightarrow> byte) \<Rightarrow> service \<Rightarrow> psa_msg \<Rightarrow> 'p hsm \<Rightarrow> 'p handler_result" where
  "handler ext fw junk s msg st = (case s of
     TFM_DP_SECRET_DIGEST \<Rightarrow> tfm_dp_secret_digest_ipc ext fw junk msg st
   | TFM_INIT \<Rightarrow> tfm_init_ipc ext msg st
   | TFM_GET_KEYSTORE_SIZE \<Rightarrow> tfm_get_keystore_size_ipc msg st
   | TFM_GET_FREE_MEMORY_SIZE \<Rightarrow> tfm_get_free_memory_size_ipc fw msg st
   | TFM_SECURE_KEYGEN \<Rightarrow> tfm_secure_keygen_ipc ext fw msg st
   | TFM_SIGN_PK \<Rightarrow> tfm_sign_pk_ipc ext fw junk msg st
   | TFM_VERIFY_SIGN \<Rightarrow> tfm_verify_sign_ipc ext fw junk msg st
   | TFM_GET_KEY \<Rightarrow> tfm_get_key_ipc fw junk msg st
   | TFM_GET_KEYS \<Rightarrow> tfm_get_keys_ipc junk msg st
   | TFM_RESET \<Rightarrow> tfm_reset_ipc ext msg st
   | TFM_IMPORT_SK \<Rightarrow> tfm_import_sk_ipc ext fw junk msg st)"

text \<open>What one round of the main loop does: answers the message on its handle, or panics.\<close>

datatype sp_outcome = Reply int int writes | Panic

definition sp_signal_handle :: "'p ext \<Rightarrow> fw \<Rightarrow> (nat \<Rightarrow> byte) \<Rightarrow> service \<Rightarrow> psa_msg \<Rightarrow> 'p hsm \<Rightarrow> (sp_outcome \<times> 'p hsm) option" where
  "sp_signal_handle ext fw junk s msg st = (
     if msg_type msg = PSA_IPC_CONNECT then Some (Reply (msg_handle msg) PSA_SUCCESS [], st)
     else if msg_type msg = PSA_IPC_CALL then do {
       (status, ws, st1) \<leftarrow> handler ext fw junk s msg st;
       Some (Reply (msg_handle msg) status ws, st1)
     }
     else if msg_type msg = PSA_IPC_DISCONNECT then Some (Reply (msg_handle msg) PSA_SUCCESS [], st)
     else Some (Panic, st))"

text \<open>One round of \<open>tfm_sp_req_mngr_init\<close>: \<open>signals\<close> is what \<open>psa_wait\<close> returned, \<open>get s\<close> the message
  that \<open>psa_get\<close> delivers for the signal of service \<open>s\<close>.\<close>

definition sp_round :: "(service \<Rightarrow> 32 word) \<Rightarrow> 'p ext \<Rightarrow> fw \<Rightarrow> (nat \<Rightarrow> byte) \<Rightarrow> 32 word \<Rightarrow> (service \<Rightarrow> psa_msg) \<Rightarrow>
    'p hsm \<Rightarrow> (sp_outcome \<times> 'p hsm) option" where
  "sp_round sigmask ext fw junk signals get st = (
     let serve = (\<lambda>s. sp_signal_handle ext fw junk s (get s) st) in
     if signals AND sigmask TFM_DP_SECRET_DIGEST \<noteq> 0 then serve TFM_DP_SECRET_DIGEST
     else if signals AND sigmask TFM_INIT \<noteq> 0 then serve TFM_INIT
     else if signals AND sigmask TFM_GET_KEYSTORE_SIZE \<noteq> 0 then serve TFM_GET_KEYSTORE_SIZE
     else if signals AND sigmask TFM_GET_FREE_MEMORY_SIZE \<noteq> 0 then serve TFM_GET_FREE_MEMORY_SIZE
     else if signals AND sigmask TFM_SECURE_KEYGEN \<noteq> 0 then serve TFM_SECURE_KEYGEN
     else if signals AND sigmask TFM_SIGN_PK \<noteq> 0 then serve TFM_SIGN_PK
     else if signals AND sigmask TFM_VERIFY_SIGN \<noteq> 0 then serve TFM_VERIFY_SIGN
     else if signals AND sigmask TFM_GET_KEY \<noteq> 0 then serve TFM_GET_KEY
     else if signals AND sigmask TFM_GET_KEYS \<noteq> 0 then serve TFM_GET_KEYS
     else if signals AND sigmask TFM_RESET \<noteq> 0 then serve TFM_RESET
     else if signals AND sigmask TFM_IMPORT_SK \<noteq> 0 then serve TFM_IMPORT_SK
     else Some (Panic, st))"

text \<open>The main loop on a finite sequence of rounds; a panic ends it.\<close>

fun tfm_sp_req_mngr_init :: "(service \<Rightarrow> 32 word) \<Rightarrow> 'p ext \<Rightarrow> (32 word \<times> fw \<times> (nat \<Rightarrow> byte) \<times> (service \<Rightarrow> psa_msg)) list \<Rightarrow>
    'p hsm \<Rightarrow> (sp_outcome list \<times> 'p hsm) option" where
  "tfm_sp_req_mngr_init sigmask ext [] st = Some ([], st)"
| "tfm_sp_req_mngr_init sigmask ext ((signals, fw, junk, get) # rounds) st = do {
     (out, st1) \<leftarrow> sp_round sigmask ext fw junk signals get st;
     if out = Panic then Some ([Panic], st1)
     else do {
       (outs, st2) \<leftarrow> tfm_sp_req_mngr_init sigmask ext rounds st1;
       Some (out # outs, st2)
     }
   }"

section \<open>Requests that fit, and what the partition keeps\<close>

text \<open>
  Documented behaviour of the partition manager: the sizes in a message are those of the client's input
  vectors, and reading a whole vector delivers its contents.
\<close>

definition carries :: "fw \<Rightarrow> psa_msg \<Rightarrow> bytes list \<Rightarrow> bool" where
  "carries fw msg ins \<longleftrightarrow>
     (\<forall>i. in_size msg i = (if i < length ins then length (ins ! i) else 0)) \<and>
     (\<forall>i n. psa_read fw (msg_handle msg) i n = (if i < length ins then take n (ins ! i) else []))"

lemma read_into_fits:
  assumes "carries fw msg ins" and "i < length ins" and "length (ins ! i) \<le> length buf"
  shows "read_into fw msg i buf = Some (True, ins ! i @ drop (length (ins ! i)) buf)"
  using assms by (simp add: carries_def read_into_def Let_def c_simps)

lemma read_into_overflow:
  assumes "carries fw msg ins" and "i < length ins" and "length buf < length (ins ! i)"
  shows "read_into fw msg i buf = None"
  using assms by (simp add: carries_def read_into_def Let_def c_simps)

lemma read_into_absent:
  assumes "carries fw msg ins" and "length ins \<le> i"
  shows "read_into fw msg i buf = Some (True, buf)"
  using assms by (simp add: carries_def read_into_def Let_def c_simps)

lemma length_chars [simp]: "length (chars bs) = length bs"
  by (simp add: chars_def)

lemma length_octets [simp]: "length (octets cs) = length cs"
  by (simp add: octets_def)

lemma chars_octets [simp]: "chars (octets cs) = cs"
  by (simp add: chars_def octets_def)

lemma octets_chars [simp]: "octets (chars bs) = bs"
  by (simp add: chars_def octets_def)

lemma chars_append: "chars (a @ b) = chars a @ chars b"
  by (simp add: chars_def)

text \<open>A string argument: it fits the array and is terminated inside it.\<close>

definition str_arg :: "nat \<Rightarrow> bytes \<Rightarrow> bool" where
  "str_arg n bs \<longleftrightarrow> length bs \<le> n \<and> nul \<in> set (chars bs)"

lemma cstr_append: "nul \<in> set a \<Longrightarrow> cstr (a @ b) = cstr a"
  by (auto simp: cstr_def takeWhile_append)

lemma cstr_in_arg: "str_arg n bs \<Longrightarrow> cstr_in (chars (bs @ rest)) = Some (cstr (chars bs))"
  by (simp add: str_arg_def cstr_in_def chars_append cstr_append)

text \<open>The requests for which the handlers stay inside their arrays.\<close>

definition request_fits :: "fw \<Rightarrow> service \<Rightarrow> bytes list \<Rightarrow> bool" where
  "request_fits fw s ins = (case s of
     TFM_GET_FREE_MEMORY_SIZE \<Rightarrow> \<exists>n > 0. \<not> malloc_ok fw (word_of_nat n * 1024)
   | TFM_SECURE_KEYGEN \<Rightarrow> length ins = 1 \<and> length (ins ! 0) \<le> 32
   | TFM_SIGN_PK \<Rightarrow> length ins = 2 \<and> length (ins ! 0) \<le> 97 \<and> str_arg 65 (ins ! 1) \<and> strip0x (cstr (chars (ins ! 1))) \<noteq> []
   | TFM_VERIFY_SIGN \<Rightarrow> length ins = 3 \<and> str_arg 96 (ins ! 0) \<and> str_arg 64 (ins ! 1) \<and> str_arg 192 (ins ! 2) \<and>
       strip0x (cstr (chars (ins ! 1))) \<noteq> []
   | TFM_GET_KEY \<Rightarrow> length ins = 1 \<and> length (ins ! 0) = 4 \<and> 0 \<le> int_of_le32 (ins ! 0)
   | TFM_IMPORT_SK \<Rightarrow> length ins = 1 \<and> length (ins ! 0) \<le> 64
   | _ \<Rightarrow> True)"

lemma free_memory_loop_ends:
  "\<not> malloc ((i + word_of_nat n) * 1024) \<Longrightarrow> \<exists>r. free_memory_loop malloc i = Some r"
proof (induction n arbitrary: i)
  case 0
  then show ?case by (simp add: free_memory_loop.simps)
next
  case (Suc n)
  have "\<exists>r. free_memory_loop malloc (i + 1) = Some r"
    using Suc by (simp add: algebra_simps)
  then show ?case
    by (subst free_memory_loop.simps) auto
qed

lemma GetFreeMemorySize_ends:
  assumes "\<not> malloc_ok fw (word_of_nat n * 1024)" and "n > 0"
  shows "\<exists>r. GetFreeMemorySize fw = Some r"
proof -
  have "1 + word_of_nat (n - 1) = (word_of_nat n :: 32 word)"
    using assms(2) by (metis Suc_pred' of_nat_Suc add.commute)
  then show ?thesis
    using free_memory_loop_ends [of "malloc_ok fw" 1 "n - 1"] assms(1) by (simp add: GetFreeMemorySize_def)
qed

text \<open>What holds of the partition between messages.\<close>

definition sp_inv :: "'p ext \<Rightarrow> 'p hsm \<Rightarrow> bool" where
  "sp_inv ext st \<longleftrightarrow> hsm_inv ext st \<and> durable ext st"

text \<open>What the partition relies on.\<close>

definition sp_env :: "'p ext \<Rightarrow> bool" where
  "sp_env ext \<longleftrightarrow> blst_sizes ext \<and> storage_works ext \<and> (\<forall>p. psa_crypto_init ext p = PSA_SUCCESS)"

lemma sp_envD:
  assumes "sp_env ext"
  shows "blst_sizes ext" "storage_works ext" "psa_crypto_init ext p = PSA_SUCCESS"
  using assms by (simp_all add: sp_env_def)

lemma sp_invD:
  assumes "sp_inv ext st"
  shows "hsm_inv ext st" "durable ext st" "hsm_shape st"
  using assms by (simp_all add: sp_inv_def hsm_inv_def)

lemma keygen_ipc:
  assumes env: "sp_env ext" and inv: "sp_inv ext st" and "length info = 32"
  shows "\<exists>r st'. secure_keygen Nrf_Tfm ext (Some info) st = Some (r, st') \<and> sp_inv ext st'"
proof -
  obtain s ikm p1 where ikm: "keygen_ikm Nrf_Tfm ext (plat st) = (s, ikm, p1)"
    by (metis prod_cases3)
  have "info_bytes (Some info) = Some (map ord8 (take 4 info))"
    using assms(3) by (simp add: info_bytes_def sizeof_ptr_def)
  then have "\<exists>r st'. secure_keygen Nrf_Tfm ext (Some info) st = Some (r, st')"
    using secure_keygen_total [OF sp_invD(1) [OF inv] sp_envD(1) [OF env] _ ikm] by blast
  then show ?thesis
    using secure_keygen_inv [OF sp_invD(1) [OF inv] sp_envD(1) [OF env]]
      keygen_durable [OF sp_invD(1) [OF inv] sp_envD(1,2) [OF env] sp_invD(2) [OF inv]]
    by (auto simp: sp_inv_def)
qed

lemma import_ipc:
  assumes env: "sp_env ext" and inv: "sp_inv ext st"
  shows "\<exists>r st'. import_sk Nrf_Tfm ext sk st = Some (r, st') \<and> sp_inv ext st'"
  using import_sk_total [OF sp_invD(1) [OF inv] sp_envD(1) [OF env]]
    import_sk_inv [OF sp_invD(1) [OF inv] sp_envD(1) [OF env]]
    import_durable [OF sp_invD(1) [OF inv] sp_envD(1,2) [OF env] sp_invD(2) [OF inv]]
  by (auto simp: sp_inv_def) metis

lemma dp_secret_ipc:
  assumes "carries fw msg ins"
  shows "\<exists>status ws. tfm_dp_secret_digest_ipc ext fw junk msg st = Some (status, ws, st)"
proof (cases "in_size msg 0 = 4")
  case True
  then have "0 < length ins" and "length (ins ! 0) = 4"
    using assms by (auto simp: carries_def split: if_splits)
  then have "read_into fw msg 0 (stack_arr junk 4) = Some (True, ins ! 0)"
    using read_into_fits [OF assms, of 0 "stack_arr junk 4"] by simp
  moreover have "length secrets = 5"
    by (simp add: secrets_def)
  ultimately show ?thesis
    using True by (auto simp: tfm_dp_secret_digest_ipc_def tfm_dp_secret_digest_def c_simps split: prod.splits)
qed (simp add: tfm_dp_secret_digest_ipc_def)

lemma length_signature_of: "blst_sizes ext \<Longrightarrow> length (signature_of ext sk m) = 192"
  by (simp add: signature_of_def blst_sizes_def)

text \<open>The answer to a signing request: the reply status and the contents of the 193 characters.\<close>

lemma sign_ipc:
  assumes inv: "hsm_inv ext st" and sz: "blst_sizes ext" and car: "carries fw msg ins"
    and ins: "length ins = 2" "length (ins ! 0) \<le> 97" "str_arg 65 (ins ! 1)"
    and m: "m = cstr (chars (ins ! 1))" "strip0x m \<noteq> []"
  shows "tfm_sign_pk_ipc ext fw junk msg st = Some (
    case find_pk ext (chars (ins ! 0 @ drop (length (ins ! 0)) (stack_arr junk 97))) (hsm_keys st) of
      None \<Rightarrow> (PKNOTFOUND, [(0, replicate 193 0)], st)
    | Some i \<Rightarrow> (0, [(0, octets (signature_of ext (hsm_keys st ! i) (signed_bytes junk m)) @ [0])], st))"
proof -
  let ?pk = "ins ! 0 @ drop (length (ins ! 0)) (stack_arr junk 97)"
  have "read_into fw msg 0 (stack_arr junk 97) = Some (True, ?pk)"
    using read_into_fits [OF car, of 0 "stack_arr junk 97"] ins by simp
  moreover have "read_into fw msg 1 (stack_arr junk 65) = Some (True, ins ! 1 @ drop (length (ins ! 1)) (stack_arr junk 65))"
    using read_into_fits [OF car, of 1 "stack_arr junk 65"] ins by (simp add: str_arg_def)
  moreover have "blit (replicate 193 nul) [nul] = Some (replicate 193 nul)"
    using Cons_replicate_eq [of nul "replicate 192 nul" 193 nul] by (simp add: blit_def)
  moreover have "octets (replicate 193 nul) = replicate 193 0" "octets [nul] = [0]"
    by (simp_all add: octets_def ord8_def)
  moreover have "blit (replicate 193 nul) (signature_of ext k x @ [nul]) = Some (signature_of ext k x @ [nul])" for k x
    using length_signature_of [OF sz, of k x] by (simp add: blit_def)
  moreover have "octets (a @ [nul]) = octets a @ [0]" for a
    by (simp add: octets_def ord8_def)
  ultimately show ?thesis
    using sign_pk_eq [OF inv sz, of m junk "chars ?pk" "''''"] m
    by (cases "find_pk ext (chars ?pk) (hsm_keys st)") (simp_all add: tfm_sign_pk_ipc_def cstr_in_arg [OF ins(3)] del: One_nat_def)
qed

lemma verify_ipc:
  assumes car: "carries fw msg ins"
    and ins: "length ins = 3" "str_arg 96 (ins ! 0)" "str_arg 64 (ins ! 1)" "str_arg 192 (ins ! 2)"
    and m: "strip0x (cstr (chars (ins ! 1))) \<noteq> []"
  shows "\<exists>status ws. tfm_verify_sign_ipc ext fw junk msg st = Some (status, ws, st)"
proof -
  have "read_into fw msg 0 (stack_arr junk 96) = Some (True, ins ! 0 @ drop (length (ins ! 0)) (stack_arr junk 96))"
    "read_into fw msg 1 (stack_arr junk 64) = Some (True, ins ! 1 @ drop (length (ins ! 1)) (stack_arr junk 64))"
    "read_into fw msg 2 (stack_arr junk 192) = Some (True, ins ! 2 @ drop (length (ins ! 2)) (stack_arr junk 192))"
    using read_into_fits [OF car, of 0 "stack_arr junk 96"] read_into_fits [OF car, of 1 "stack_arr junk 64"]
      read_into_fits [OF car, of 2 "stack_arr junk 192"] ins by (simp_all add: str_arg_def)
  then show ?thesis
    by (simp add: tfm_verify_sign_ipc_def cstr_in_arg [OF ins(2)] cstr_in_arg [OF ins(3)] cstr_in_arg [OF ins(4)]
        verify_sign_eq [OF m] del: One_nat_def)
qed

lemma get_key_ipc:
  assumes inv: "hsm_inv ext st" and sz: "blst_sizes ext" and car: "carries fw msg ins"
    and ins: "length ins = 1" "length (ins ! 0) = 4" "0 \<le> int_of_le32 (ins ! 0)"
  shows "tfm_get_key_ipc fw junk msg st = Some (PSA_SUCCESS, [(0,
    if int_of_le32 (ins ! 0) < int (length (hsm_keys st))
    then octets (pkhex ext (hsm_keys st ! nat (int_of_le32 (ins ! 0)))) else stack_arr junk 96)], st)"
proof -
  have "read_into fw msg 0 (stack_arr junk 4) = Some (True, ins ! 0)"
    using read_into_fits [OF car, of 0 "stack_arr junk 4"] ins by simp
  then show ?thesis
    using get_key_total [OF inv sz, of "chars (stack_arr junk 96)" "int_of_le32 (ins ! 0)"] ins(3)
    by (simp add: tfm_get_key_ipc_def)
qed

lemma get_keys_ipc:
  assumes inv: "hsm_inv ext st"
  shows "tfm_get_keys_ipc junk msg st =
    Some (PSA_SUCCESS, [(0, octets (concat (map (pkhex ext) (hsm_keys st))))], st)"
proof -
  note sh = hsm_inv_shape [OF inv]
  have "get_keys (replicate (nat (keystore_size st)) (chars (stack_arr junk 96))) st =
      Some (map (pkhex ext) (hsm_keys st))"
    by (rule get_keys_ok [OF inv]) (simp_all add: length_hsm_keys_nat [OF sh])
  then show ?thesis
    by (simp add: tfm_get_keys_ipc_def get_keystore_size_def)
qed

lemma handler_safe:
  assumes env: "sp_env ext" and inv: "sp_inv ext st" and car: "carries fw msg ins" and fits: "request_fits fw s ins"
  shows "\<exists>status ws st'. handler ext fw junk s msg st = Some (status, ws, st') \<and> sp_inv ext st' \<and>
    (s \<notin> {TFM_SECURE_KEYGEN, TFM_IMPORT_SK, TFM_RESET} \<longrightarrow> hsm_keys st' = hsm_keys st)"
proof (cases s)
  case TFM_DP_SECRET_DIGEST
  then show ?thesis
    using dp_secret_ipc [OF car, of ext junk st] inv by (auto simp: handler_def)
next
  case TFM_INIT
  then show ?thesis
    using init_durable [OF sp_envD(1) [OF env] sp_invD(1) [OF inv] sp_envD(2) [OF env] sp_invD(2,3) [OF inv] refl
        sp_envD(3) [OF env]]
    by (auto simp: handler_def tfm_init_ipc_def sp_inv_def)
next
  case TFM_GET_KEYSTORE_SIZE
  then show ?thesis
    using inv by (simp add: handler_def tfm_get_keystore_size_ipc_def)
next
  case TFM_GET_FREE_MEMORY_SIZE
  then obtain r where "GetFreeMemorySize fw = Some r"
    using fits GetFreeMemorySize_ends by (auto simp: request_fits_def)
  with TFM_GET_FREE_MEMORY_SIZE show ?thesis
    using inv by (simp add: handler_def tfm_get_free_memory_size_ipc_def)
next
  case TFM_SECURE_KEYGEN
  then have "length ins = 1" "length (ins ! 0) \<le> 32"
    using fits by (simp_all add: request_fits_def)
  then have "read_into fw msg 0 (replicate 32 0) = Some (True, ins ! 0 @ replicate (32 - length (ins ! 0)) 0)"
    using read_into_fits [OF car, of 0 "replicate 32 0"] by simp
  with TFM_SECURE_KEYGEN show ?thesis
    using keygen_ipc [OF env inv, of "chars (ins ! 0 @ replicate (32 - length (ins ! 0)) 0)"] \<open>length (ins ! 0) \<le> 32\<close>
    by (auto simp: handler_def tfm_secure_keygen_ipc_def)
next
  case TFM_SIGN_PK
  then show ?thesis
    using sign_ipc [OF sp_invD(1) [OF inv] sp_envD(1) [OF env] car _ _ _ refl] fits inv
    by (auto simp: handler_def request_fits_def split: option.splits)
next
  case TFM_VERIFY_SIGN
  then show ?thesis
    using verify_ipc [OF car, of ext junk st] fits inv by (auto simp: handler_def request_fits_def)
next
  case TFM_GET_KEY
  then show ?thesis
    using get_key_ipc [OF sp_invD(1) [OF inv] sp_envD(1) [OF env] car] fits inv
    by (simp add: handler_def request_fits_def)
next
  case TFM_GET_KEYS
  then show ?thesis
    using get_keys_ipc [OF sp_invD(1) [OF inv]] inv by (simp add: handler_def)
next
  case TFM_RESET
  then show ?thesis
    using reset_inv [OF sp_invD(3) [OF inv], of ext Nrf_Tfm] reset_durable [OF sp_invD(3) [OF inv] sp_envD(2) [OF env]]
    by (simp add: handler_def tfm_reset_ipc_def sp_inv_def)
next
  case TFM_IMPORT_SK
  then have "length ins = 1" "length (ins ! 0) \<le> 64"
    using fits by (simp_all add: request_fits_def)
  then have "read_into fw msg 0 (stack_arr junk 64) = Some (True, ins ! 0 @ drop (length (ins ! 0)) (stack_arr junk 64))"
    using read_into_fits [OF car, of 0 "stack_arr junk 64"] by simp
  with TFM_IMPORT_SK show ?thesis
    using import_ipc [OF env inv, of "chars (ins ! 0 @ drop (length (ins ! 0)) (stack_arr junk 64))"]
    by (auto simp: handler_def tfm_import_sk_ipc_def)
qed

section \<open>Properties of the partition\<close>

text \<open>A message manager that delivers \<open>ins\<close>, for the examples.\<close>

definition demo_fw :: "bytes list \<Rightarrow> fw" where
  "demo_fw ins = \<lparr>psa_read = \<lambda>h i n. if i < length ins then take n (ins ! i) else [], malloc_ok = \<lambda>n. n < 3000\<rparr>"

definition demo_msg :: "bytes list \<Rightarrow> psa_msg" where
  "demo_msg ins = \<lparr>msg_type = PSA_IPC_CALL, msg_handle = 1,
     in_size = \<lambda>i. if i < length ins then length (ins ! i) else 0, out_size = \<lambda>i. 0\<rparr>"

lemma demo_carries: "carries (demo_fw ins) (demo_msg ins) ins"
  by (simp add: carries_def demo_fw_def demo_msg_def)

lemma demo_env: "sp_env demo_ext"
  using demo_sizes demo_ps_laws demo_writable demo_removable
  by (simp add: sp_env_def storage_works_def) (simp add: demo_ext_def)

lemma boot_inv: "fst (psa_ps_get ext UID_KEYSTORE_SIZE 0 4 p) \<noteq> PSA_SUCCESS \<Longrightarrow> sp_inv ext (hsm_boot p)"
  by (simp add: sp_inv_def hsm_inv_boot durable_def) (simp add: hsm_boot_def)

lemma demo_inv: "sp_inv demo_ext demo_hsm"
  unfolding demo_hsm_def by (rule boot_inv) (simp add: demo_ext_def)

lemma sp_signal_handle_safe:
  assumes env: "sp_env ext" and inv: "sp_inv ext st"
    and req: "msg_type msg = PSA_IPC_CALL \<Longrightarrow> \<exists>ins. carries fw msg ins \<and> request_fits fw s ins"
  shows "\<exists>out st'. sp_signal_handle ext fw junk s msg st = Some (out, st') \<and> sp_inv ext st'"
proof (cases "msg_type msg = PSA_IPC_CALL")
  case True
  then obtain ins where "carries fw msg ins" "request_fits fw s ins"
    using req by blast
  from handler_safe [OF env inv this, of junk] True show ?thesis
    by (auto simp: sp_signal_handle_def)
qed (use inv in \<open>simp add: sp_signal_handle_def\<close>)

lemma sp_round_safe:
  assumes env: "sp_env ext" and inv: "sp_inv ext st"
    and req: "\<And>s. msg_type (get s) = PSA_IPC_CALL \<Longrightarrow> \<exists>ins. carries fw (get s) ins \<and> request_fits fw s ins"
  shows "\<exists>out st'. sp_round sigmask ext fw junk signals get st = Some (out, st') \<and> sp_inv ext st'"
  using sp_signal_handle_safe [OF env inv req] inv by (simp add: sp_round_def Let_def)

text \<open>The rounds in which every request fits the arrays of its handler.\<close>

definition good_round :: "32 word \<times> fw \<times> (nat \<Rightarrow> byte) \<times> (service \<Rightarrow> psa_msg) \<Rightarrow> bool" where
  "good_round r = (case r of (signals, fw, junk, get) \<Rightarrow>
     \<forall>s. msg_type (get s) = PSA_IPC_CALL \<longrightarrow> (\<exists>ins. carries fw (get s) ins \<and> request_fits fw s ins))"

lemma partition_loop_inv:
  assumes env: "sp_env ext"
  shows "sp_inv ext st \<Longrightarrow> \<forall>r \<in> set rounds. good_round r \<Longrightarrow>
    \<exists>outs st'. tfm_sp_req_mngr_init sigmask ext rounds st = Some (outs, st') \<and> sp_inv ext st'"
proof (induction rounds arbitrary: st)
  case Nil
  then show ?case by simp
next
  case (Cons r rounds)
  obtain signals fw junk get where r: "r = (signals, fw, junk, get)"
    by (metis prod_cases4)
  have "\<exists>ins. carries fw (get s) ins \<and> request_fits fw s ins" if "msg_type (get s) = PSA_IPC_CALL" for s
    using Cons.prems(2) that unfolding r good_round_def by simp
  from sp_round_safe [OF env Cons.prems(1) this, of sigmask junk signals]
  obtain out st1 where st1: "sp_round sigmask ext fw junk signals get st = Some (out, st1)" "sp_inv ext st1"
    by auto
  then show ?case
    using Cons.IH [OF st1(2)] Cons.prems(2) by (auto simp: r)
qed

text \<open>C9: The partition on any sequence of requests that fit. Starting from its initial memory on a device
  without stored keys, the main loop never leaves its arrays, and after it the keystore is consistent and
  a reboot restores exactly the keys it holds, whatever was generated, imported or reset in between.\<close>

theorem partition_loop_safe:
  assumes "sp_env ext" and "fst (psa_ps_get ext UID_KEYSTORE_SIZE 0 4 p) \<noteq> PSA_SUCCESS"
    and "\<forall>r \<in> set rounds. good_round r"
  shows "\<exists>outs st. tfm_sp_req_mngr_init sigmask ext rounds (hsm_boot p) = Some (outs, st) \<and> hsm_inv ext st \<and>
    (\<exists>e st'. init ext (hsm_boot (plat st)) = Some (e, st') \<and> hsm_keys st' = hsm_keys st)"
proof -
  obtain outs st where st: "tfm_sp_req_mngr_init sigmask ext rounds (hsm_boot p) = Some (outs, st)" "sp_inv ext st"
    using partition_loop_inv [OF assms(1) boot_inv [OF assms(2)] assms(3)] by blast
  have "\<exists>e st'. init ext (hsm_boot (plat st)) = Some (e, st') \<and> hsm_keys st' = hsm_keys st"
    using init_durable [OF sp_envD(1) [OF assms(1)] sp_invD(1) [OF st(2)] sp_envD(2) [OF assms(1)]
        sp_invD(2) [OF st(2)], of "hsm_boot (plat st)"] sp_envD(3) [OF assms(1)] by auto
  with st show ?thesis
    by (auto simp: sp_inv_def)
qed

definition demo_round :: "32 word \<times> fw \<times> (nat \<Rightarrow> byte) \<times> (service \<Rightarrow> psa_msg)" where
  "demo_round = (64, demo_fw [octets (hexstr (replicate 32 5))], \<lambda>_. 0, \<lambda>s.
     if s = TFM_IMPORT_SK then demo_msg [octets (hexstr (replicate 32 5))]
     else (demo_msg [])\<lparr>msg_type := PSA_IPC_CONNECT\<rparr>)"

lemma demo_round_good: "good_round demo_round"
proof -
  let ?ins = "[octets (hexstr (replicate 32 5))]"
  have "carries (demo_fw ?ins) (demo_msg ?ins) ?ins" "request_fits (demo_fw ?ins) TFM_IMPORT_SK ?ins"
    using demo_carries by (simp_all add: request_fits_def)
  then show ?thesis
    unfolding good_round_def demo_round_def by (auto split: if_splits)
qed

theorem partition_loop_safe_witness:
  "\<exists>outs st. tfm_sp_req_mngr_init (\<lambda>s. if s = TFM_IMPORT_SK then 64 else 128) demo_ext [demo_round]
      (hsm_boot (\<lambda>_. None)) = Some (outs, st) \<and> hsm_inv demo_ext st"
proof -
  have "fst (psa_ps_get demo_ext UID_KEYSTORE_SIZE 0 4 (\<lambda>_. None)) \<noteq> PSA_SUCCESS"
    by (simp add: demo_ext_def)
  from partition_loop_safe [OF demo_env this, of "[demo_round]"] demo_round_good show ?thesis
    by fastforce
qed

text \<open>The size of the local array that receives the first input vector.\<close>

definition first_arg_room :: "service \<Rightarrow> nat" where
  "first_arg_room s = (case s of TFM_SECURE_KEYGEN \<Rightarrow> 32 | TFM_SIGN_PK \<Rightarrow> 97 | TFM_VERIFY_SIGN \<Rightarrow> 96
     | TFM_GET_KEY \<Rightarrow> 4 | TFM_IMPORT_SK \<Rightarrow> 64 | _ \<Rightarrow> 0)"

text \<open>C33: The handlers check that a request was read completely, but not that it fits: for each of the five
  services with arguments of the client, a first input vector longer than the local array
  of the handler makes the handler write outside that array.\<close>

theorem oversized_request_overflows:
  assumes "carries fw msg ins" and "ins \<noteq> []" and "length (ins ! 0) > first_arg_room s"
    and "s \<in> {TFM_SECURE_KEYGEN, TFM_SIGN_PK, TFM_VERIFY_SIGN, TFM_GET_KEY, TFM_IMPORT_SK}"
  shows "handler ext fw junk s msg st = None"
proof -
  have over: "length buf < length (ins ! 0) \<Longrightarrow> read_into fw msg 0 buf = None" for buf
    using read_into_overflow [OF assms(1), of 0 buf] assms(2) by simp
  show ?thesis
    using assms(3,4) over [of "replicate 32 0"] over [of "stack_arr junk 97"] over [of "stack_arr junk 96"]
      over [of "stack_arr junk 4"] over [of "stack_arr junk 64"]
    by (auto simp: first_arg_room_def handler_def tfm_secure_keygen_ipc_def tfm_sign_pk_ipc_def
        tfm_verify_sign_ipc_def tfm_get_key_ipc_def tfm_import_sk_ipc_def)
qed

theorem oversized_request_overflows_witness:
  "handler demo_ext (demo_fw [replicate 33 1]) (\<lambda>_. 0) TFM_SECURE_KEYGEN (demo_msg [replicate 33 1]) demo_hsm = None"
  using oversized_request_overflows [OF demo_carries, of "[replicate 33 1]" TFM_SECURE_KEYGEN]
  by (simp add: first_arg_room_def)

text \<open>Verification through the partition. The arrays of the handler have no room for terminators, so a request
  with a public key, a message and a signature of full length is never answered properly: reading them as
  C strings leaves the arrays.\<close>

theorem verify_request_unterminated:
  assumes car: "carries fw msg ins" and ins: "length ins = 3" "length (ins ! 0) = 96" "length (ins ! 1) = 64" "length (ins ! 2) = 192"
    and hx: "list_all is_hex (chars (ins ! 0))"
  shows "tfm_verify_sign_ipc ext fw junk msg st = None"
proof -
  have "read_into fw msg 0 (stack_arr junk 96) = Some (True, ins ! 0)"
    "read_into fw msg 1 (stack_arr junk 64) = Some (True, ins ! 1)"
    "read_into fw msg 2 (stack_arr junk 192) = Some (True, ins ! 2)"
    using read_into_fits [OF car, of 0 "stack_arr junk 96"] read_into_fits [OF car, of 1 "stack_arr junk 64"]
      read_into_fits [OF car, of 2 "stack_arr junk 192"] ins by simp_all
  moreover have "nul \<notin> set (chars (ins ! 0))"
    using hx nul_not_hex by (auto simp: list_all_iff)
  then have "cstr_in (chars (ins ! 0)) = None"
    by (simp add: cstr_in_def)
  ultimately show ?thesis
    by (simp add: tfm_verify_sign_ipc_def del: One_nat_def)
qed

theorem verify_request_unterminated_witness:
  "tfm_verify_sign_ipc demo_ext (demo_fw [octets (hexstr (replicate 48 1)), replicate 64 48, replicate 192 48]) (\<lambda>_. 0)
     (demo_msg [octets (hexstr (replicate 48 1)), replicate 64 48, replicate 192 48]) demo_hsm = None"
  using verify_request_unterminated [OF demo_carries, of "[octets (hexstr (replicate 48 1)), replicate 64 48, replicate 192 48]"]
  by simp

text \<open>Dispatch. When the signals of the services are distinct bits, as the manifest tool assigns them, and the
  partition is woken by the signal of one service, it runs the handler of exactly that service; a
  signal of no service makes it panic.\<close>

theorem sp_round_dispatches:
  assumes "\<forall>s t. (sigmask s AND sigmask t = 0) = (s \<noteq> t)"
  shows "sp_round sigmask ext fw junk (sigmask s) get st = sp_signal_handle ext fw junk s (get s) st \<and>
    sp_round sigmask ext fw junk 0 get st = Some (Panic, st)"
proof -
  have "sigmask s AND sigmask s \<noteq> 0"
    using assms by blast
  then have "sigmask s \<noteq> 0" by auto
  with assms show ?thesis
    by (cases s) (simp_all add: sp_round_def Let_def)
qed

definition demo_mask :: "service \<Rightarrow> 32 word" where
  "demo_mask s = (case s of TFM_DP_SECRET_DIGEST \<Rightarrow> 16 | TFM_INIT \<Rightarrow> 32 | TFM_GET_KEYSTORE_SIZE \<Rightarrow> 64
     | TFM_GET_FREE_MEMORY_SIZE \<Rightarrow> 128 | TFM_SECURE_KEYGEN \<Rightarrow> 256 | TFM_SIGN_PK \<Rightarrow> 512 | TFM_VERIFY_SIGN \<Rightarrow> 1024
     | TFM_GET_KEY \<Rightarrow> 2048 | TFM_GET_KEYS \<Rightarrow> 4096 | TFM_RESET \<Rightarrow> 8192 | TFM_IMPORT_SK \<Rightarrow> 16384)"

theorem sp_round_dispatches_witness:
  "sp_round demo_mask demo_ext (demo_fw []) (\<lambda>_. 0) 8192 (\<lambda>_. demo_msg []) demo_hsm =
     Some (Reply 1 PSA_SUCCESS [], reset Nrf_Tfm demo_ext demo_hsm)"
proof -
  have "(demo_mask s AND demo_mask t = 0) = (s \<noteq> t)" for s t
    by (cases s; cases t) (simp_all add: demo_mask_def)
  then show ?thesis
    using sp_round_dispatches [of demo_mask demo_ext "demo_fw []" "\<lambda>_. 0" TFM_RESET "\<lambda>_. demo_msg []" demo_hsm]
    by (simp add: sp_signal_handle_def handler_def tfm_reset_ipc_def demo_msg_def) (simp add: demo_mask_def)
qed

lemma free_memory_loop_least:
  "\<not> malloc ((i + word_of_nat n) * 1024) \<Longrightarrow> (\<And>k. k < n \<Longrightarrow> malloc ((i + word_of_nat k) * 1024)) \<Longrightarrow>
   free_memory_loop malloc i = Some (i + word_of_nat n)"
proof (induction n arbitrary: i)
  case 0
  then show ?case by (simp add: free_memory_loop.simps)
next
  case (Suc n)
  have "malloc ((i + 1 + word_of_nat k) * 1024)" if "k < n" for k
    using Suc.prems(2) [of "Suc k"] that by (simp add: algebra_simps)
  then have "free_memory_loop malloc (i + 1) = Some (i + 1 + word_of_nat n)"
    using Suc.IH [of "i + 1"] Suc.prems(1) by (simp add: algebra_simps)
  moreover have "malloc (i * 1024)"
    using Suc.prems(2) [of 0] by simp
  ultimately show ?case
    by (subst free_memory_loop.simps) (simp add: algebra_simps)
qed

text \<open>The memory probe. \<open>GetFreeMemorySize\<close> ends as soon as an allocation fails, and returns
  the least number of kilobytes that could not be allocated.\<close>

theorem GetFreeMemorySize_least:
  assumes "\<not> malloc_ok fw (word_of_nat n * 1024)" and "0 < n" and "\<forall>k < n. 0 < k \<longrightarrow> malloc_ok fw (word_of_nat k * 1024)"
  shows "GetFreeMemorySize fw = Some (word_of_nat n)"
proof -
  have shift: "1 + word_of_nat k = (word_of_nat (Suc k) :: 32 word)" for k
    by simp
  have "free_memory_loop (malloc_ok fw) 1 = Some (1 + word_of_nat (n - 1))"
    by (rule free_memory_loop_least) (use assms in \<open>simp_all only: shift\<close>, auto)
  with assms(2) show ?thesis
    by (simp only: GetFreeMemorySize_def shift) simp
qed

theorem GetFreeMemorySize_least_witness: "GetFreeMemorySize (demo_fw []) = Some 3"
proof -
  have "\<forall>k < 3. 0 < k \<longrightarrow> malloc_ok (demo_fw []) (word_of_nat k * 1024)"
    by (auto simp: demo_fw_def numeral_3_eq_3 less_Suc_eq)
  then show ?thesis
    using GetFreeMemorySize_least [of "demo_fw []" 3] by (simp add: demo_fw_def)
qed

text \<open>Three services do not change the keystore.\<close>

lemma handler_keeps:
  "handler ext fw junk s msg st = Some (r, ws, st') \<Longrightarrow> s \<in> {TFM_GET_KEYSTORE_SIZE, TFM_GET_KEY, TFM_SIGN_PK} \<Longrightarrow> st' = st"
  by (auto simp: handler_def tfm_get_keystore_size_ipc_def tfm_get_key_ipc_def tfm_sign_pk_ipc_def split: Option.bind_splits if_splits)

end
