(* ===== verification/Sp_Interface.thy ===== *)
theory Sp_Interface
  imports Secure_Partition
begin

text \<open>
  \<^verbatim>\<open>src/lib/secure_partition_interface.c\<close>: the functions with which the non-secure application calls the
  partition. Each connects to a service, packs its arguments into input vectors, calls, and unpacks the
  output vectors.

  The client API of TF-M is not part of the repository: it is the record \<open>spm\<close>. The state the
  calls change is the partition's keystore. The arguments are the memory the pointers refer to; a
  vector longer than that memory is an access outside it. Local variables that receive a result
  are uninitialised before the call and keep that value when the service writes nothing.
\<close>

section \<open>The client API\<close>

text \<open>
  \<open>psa_connect sid version\<close> is the handle. \<open>psa_call handle ins outs st\<close> sends the input vectors and
  returns the status, what was written to each output vector (given by their lengths), and
  the new state of the partition.
\<close>

record 'p spm =
  psa_connect :: "nat \<Rightarrow> nat \<Rightarrow> int"
  psa_call :: "int \<Rightarrow> bytes list \<Rightarrow> nat list \<Rightarrow> 'p hsm \<Rightarrow> (int \<times> bytes list \<times> 'p hsm) option"

definition PSA_HANDLE_IS_VALID :: "int \<Rightarrow> bool" where
  "PSA_HANDLE_IS_VALID h \<longleftrightarrow> 0 < h"

text \<open>Service identifiers of \<^verbatim>\<open>tfm_secure_partition.yaml\<close>; every service has version 1.\<close>

definition sid :: "service \<Rightarrow> nat" where
  "sid s = (case s of TFM_DP_SECRET_DIGEST \<Rightarrow> 0xFFFFF001 | TFM_INIT \<Rightarrow> 0xFFFFF002
     | TFM_GET_KEYSTORE_SIZE \<Rightarrow> 0xFFFFF004 | TFM_GET_FREE_MEMORY_SIZE \<Rightarrow> 0xFFFFF005
     | TFM_SECURE_KEYGEN \<Rightarrow> 0xFFFFF006 | TFM_SIGN_PK \<Rightarrow> 0xFFFFF007 | TFM_VERIFY_SIGN \<Rightarrow> 0xFFFFF008
     | TFM_GET_KEY \<Rightarrow> 0xFFFFF009 | TFM_GET_KEYS \<Rightarrow> 0xFFFFF00A | TFM_RESET \<Rightarrow> 0xFFFFF00B | TFM_IMPORT_SK \<Rightarrow> 0xFFFFF00C)"

text \<open>Connect, call, close: the part all functions share. \<open>Inl\<close> is the refused connection.\<close>

definition call_service :: "'p spm \<Rightarrow> service \<Rightarrow> bytes list \<Rightarrow> nat list \<Rightarrow> 'p hsm \<Rightarrow> (int + (int \<times> bytes list \<times> 'p hsm)) option" where
  "call_service spm s ins outs st = (
     let handle = psa_connect spm (sid s) 1 in
     if \<not> PSA_HANDLE_IS_VALID handle then Some (Inl PSA_ERROR_GENERIC_ERROR)
     else map_option Inr (psa_call spm handle ins outs st))"

text \<open>An input vector of \<open>n\<close> bytes at the start of some memory.\<close>

definition invec :: "char list \<Rightarrow> nat \<Rightarrow> bytes option" where
  "invec mem n = (if n \<le> length mem then Some (octets (take n mem)) else None)"

text \<open>An uninitialised 32-bit variable and its value after the service wrote \<open>bs\<close> to it.\<close>

definition outvar :: "(nat \<Rightarrow> byte) \<Rightarrow> bytes \<Rightarrow> bytes option" where
  "outvar junk bs = blit (stack_arr junk 4) bs"

section \<open>The functions\<close>

definition dp_secret_digest :: "'p spm \<Rightarrow> 32 word \<Rightarrow> bytes \<Rightarrow> 'p hsm \<Rightarrow> (int \<times> bytes \<times> 'p hsm) option" where
  "dp_secret_digest spm secret_index p_digest st = do {
     r \<leftarrow> call_service spm TFM_DP_SECRET_DIGEST [le32 (sint secret_index)] [length p_digest] st;
     case r of Inl e \<Rightarrow> Some (e, p_digest, st)
     | Inr (status, outs, st1) \<Rightarrow> do { d \<leftarrow> blit p_digest (outs ! 0); Some (status, d, st1) }
   }"

definition tfm_init :: "'p spm \<Rightarrow> 'p hsm \<Rightarrow> (int \<times> 'p hsm) option" where
  "tfm_init spm st = do {
     r \<leftarrow> call_service spm TFM_INIT [] [] st;
     case r of Inl e \<Rightarrow> Some (e, st) | Inr (status, outs, st1) \<Rightarrow> Some (status, st1)
   }"

definition tfm_get_keystore_size :: "'p spm \<Rightarrow> (nat \<Rightarrow> byte) \<Rightarrow> 'p hsm \<Rightarrow> (int \<times> 'p hsm) option" where
  "tfm_get_keystore_size spm junk st = do {
     r \<leftarrow> call_service spm TFM_GET_KEYSTORE_SIZE [] [4] st;
     case r of Inl e \<Rightarrow> Some (e, st)
     | Inr (status, outs, st1) \<Rightarrow> do { size \<leftarrow> outvar junk (outs ! 0); Some (int_of_le32 size, st1) }
   }"

definition tfm_get_free_memory_size :: "'p spm \<Rightarrow> (nat \<Rightarrow> byte) \<Rightarrow> 'p hsm \<Rightarrow> (int \<times> 'p hsm) option" where
  "tfm_get_free_memory_size spm junk st = do {
     r \<leftarrow> call_service spm TFM_GET_FREE_MEMORY_SIZE [] [4] st;
     case r of Inl e \<Rightarrow> Some (e, st)
     | Inr (status, outs, st1) \<Rightarrow> do { size \<leftarrow> outvar junk (outs ! 0); Some (int_of_le32 size, st1) }
   }"

definition tfm_store_pk :: "string \<Rightarrow> int" where
  "tfm_store_pk public_key_hex = 0"

definition tfm_get_key :: "'p spm \<Rightarrow> int \<Rightarrow> char list \<Rightarrow> 'p hsm \<Rightarrow> (int \<times> char list \<times> 'p hsm) option" where
  "tfm_get_key spm index public_key_hex st = do {
     r \<leftarrow> call_service spm TFM_GET_KEY [le32 index] [96] st;
     case r of Inl e \<Rightarrow> Some (e, public_key_hex, st)
     | Inr (status, outs, st1) \<Rightarrow> do { pk \<leftarrow> blit public_key_hex (chars (outs ! 0)); Some (status, pk, st1) }
   }"

definition tfm_get_keys :: "'p spm \<Rightarrow> (nat \<Rightarrow> byte) \<Rightarrow> string list \<Rightarrow> 'p hsm \<Rightarrow> (int \<times> string list \<times> 'p hsm) option" where
  "tfm_get_keys spm junk store st = do {
     (ksize, st1) \<leftarrow> tfm_get_keystore_size spm junk st;
     r \<leftarrow> call_service spm TFM_GET_KEYS [] [nat (ksize * 96)] st1;
     case r of Inl e \<Rightarrow> Some (e, store, st1)
     | Inr (status, outs, st2) \<Rightarrow> do {
         flat \<leftarrow> blit (concat store) (chars (outs ! 0));
         Some (status, rows 96 flat, st2)
       }
   }"

definition tfm_secure_keygen :: "'p spm \<Rightarrow> (nat \<Rightarrow> byte) \<Rightarrow> char list \<Rightarrow> nat \<Rightarrow> 'p hsm \<Rightarrow> (int \<times> 'p hsm) option" where
  "tfm_secure_keygen spm junk info infosize st = do {
     v \<leftarrow> invec info infosize;
     r \<leftarrow> call_service spm TFM_SECURE_KEYGEN [v] [4] st;
     case r of Inl e \<Rightarrow> Some (e, st)
     | Inr (status, outs, st1) \<Rightarrow> do { index \<leftarrow> outvar junk (outs ! 0); Some (int_of_le32 index, st1) }
   }"

definition tfm_sign_pk :: "'p spm \<Rightarrow> char list \<Rightarrow> char list \<Rightarrow> char list \<Rightarrow> 'p hsm \<Rightarrow> (int \<times> char list \<times> 'p hsm) option" where
  "tfm_sign_pk spm pk msg sign st = do {
     v0 \<leftarrow> invec pk 97;
     v1 \<leftarrow> invec msg 65;
     r \<leftarrow> call_service spm TFM_SIGN_PK [v0, v1] [193] st;
     case r of Inl e \<Rightarrow> Some (e, sign, st)
     | Inr (status, outs, st1) \<Rightarrow> do { s \<leftarrow> blit sign (chars (outs ! 0)); Some (status, s, st1) }
   }"

definition tfm_verify_sign :: "'p spm \<Rightarrow> (nat \<Rightarrow> byte) \<Rightarrow> char list \<Rightarrow> char list \<Rightarrow> char list \<Rightarrow> 'p hsm \<Rightarrow> (int \<times> 'p hsm) option" where
  "tfm_verify_sign spm junk pk msg sig st = do {
     v0 \<leftarrow> invec pk 96;
     v1 \<leftarrow> invec msg 64;
     v2 \<leftarrow> invec sig 192;
     r \<leftarrow> call_service spm TFM_VERIFY_SIGN [v0, v1, v2] [4] st;
     case r of Inl e \<Rightarrow> Some (e, st)
     | Inr (status, outs, st1) \<Rightarrow> do { ret \<leftarrow> outvar junk (outs ! 0); Some (int_of_le32 ret, st1) }
   }"

definition tfm_reset :: "'p spm \<Rightarrow> 'p hsm \<Rightarrow> (int \<times> 'p hsm) option" where
  "tfm_reset spm st = do {
     r \<leftarrow> call_service spm TFM_RESET [] [] st;
     case r of Inl e \<Rightarrow> Some (e, st) | Inr (status, outs, st1) \<Rightarrow> Some (status, st1)
   }"

definition tfm_import_sk :: "'p spm \<Rightarrow> (nat \<Rightarrow> byte) \<Rightarrow> char list \<Rightarrow> 'p hsm \<Rightarrow> (int \<times> 'p hsm) option" where
  "tfm_import_sk spm junk sk st = do {
     v \<leftarrow> invec sk 64;
     r \<leftarrow> call_service spm TFM_IMPORT_SK [v] [4] st;
     case r of Inl e \<Rightarrow> Some (e, st)
     | Inr (status, outs, st1) \<Rightarrow> do { ret \<leftarrow> outvar junk (outs ! 0); Some (int_of_le32 ret, st1) }
   }"

section \<open>Calls reach the handlers\<close>

text \<open>What the client finds in its output vectors: all that the handler wrote to each of them.\<close>

definition delivered :: "writes \<Rightarrow> nat \<Rightarrow> bytes list" where
  "delivered ws n = map (\<lambda>i. concat (map snd (filter (\<lambda>w. fst w = i) ws))) [0..<n]"

text \<open>
  Documented behaviour of TF-M for the services of the manifest: connecting succeeds, and a call hands
  the partition a message that carries the input vectors, and returns the reply of the handler and
  what it wrote. The stack of the handler is arbitrary.
\<close>

definition spm_delivers :: "'p ext \<Rightarrow> 'p spm \<Rightarrow> bool" where
  "spm_delivers ext spm \<longleftrightarrow> (\<forall>s. PSA_HANDLE_IS_VALID (psa_connect spm (sid s) 1) \<and>
     (\<forall>ins outs st. \<exists>fw msg junk. carries fw msg ins \<and> (\<forall>i < length outs. out_size msg i = outs ! i) \<and>
        psa_call spm (psa_connect spm (sid s) 1) ins outs st =
          map_option (\<lambda>(status, ws, st'). (status, delivered ws (length outs), st')) (handler ext fw junk s msg st)))"

lemma call_service_delivers:
  assumes "spm_delivers ext spm"
  obtains fw msg junk where "carries fw msg ins"
    and "call_service spm s ins outs st =
      map_option (\<lambda>(status, ws, st'). Inr (status, delivered ws (length outs), st')) (handler ext fw junk s msg st)"
proof -
  obtain fw msg junk where "carries fw msg ins" and
    "psa_call spm (psa_connect spm (sid s) 1) ins outs st =
      map_option (\<lambda>(status, ws, st'). (status, delivered ws (length outs), st')) (handler ext fw junk s msg st)"
    using assms unfolding spm_delivers_def by metis
  moreover have "PSA_HANDLE_IS_VALID (psa_connect spm (sid s) 1)"
    using assms unfolding spm_delivers_def by blast
  ultimately show thesis
    using that [of fw msg junk] by (cases "handler ext fw junk s msg st") (auto simp: call_service_def)
qed

lemma delivered_one [simp]: "delivered [(0, bs)] (Suc 0) = [bs]"
  by (simp add: delivered_def)

lemma outvar_word [simp]: "outvar junk (le32 i) = Some (le32 i)"
  by (simp add: outvar_def blit_def)

lemma tfm_get_keystore_size_refines:
  assumes "spm_delivers ext spm" and "hsm_shape st"
  shows "tfm_get_keystore_size spm junk st = Some (get_keystore_size st, st)"
proof -
  obtain fw msg jk where "call_service spm TFM_GET_KEYSTORE_SIZE [] [4] st =
      map_option (\<lambda>(status, ws, st'). Inr (status, delivered ws (length [4::nat]), st')) (handler ext fw jk TFM_GET_KEYSTORE_SIZE msg st)"
    using call_service_delivers [OF assms(1)] by metis
  then show ?thesis
    using hsm_shapeD(3,4) [OF assms(2)]
    by (simp add: tfm_get_keystore_size_def handler_def tfm_get_keystore_size_ipc_def get_keystore_size_def
        int_of_le32_le32)
qed

lemma tfm_reset_refines:
  assumes "spm_delivers ext spm"
  shows "tfm_reset spm st = Some (PSA_SUCCESS, reset Nrf_Tfm ext st)"
proof -
  obtain fw msg jk where "call_service spm TFM_RESET [] [] st =
      map_option (\<lambda>(status, ws, st'). Inr (status, delivered ws (length ([]::nat list)), st')) (handler ext fw jk TFM_RESET msg st)"
    using call_service_delivers [OF assms] by metis
  then show ?thesis
    by (simp add: tfm_reset_def handler_def tfm_reset_ipc_def)
qed

lemma tfm_init_refines:
  assumes "spm_delivers ext spm"
  shows "tfm_init spm st = init ext st"
proof -
  obtain fw msg jk where "call_service spm TFM_INIT [] [] st =
      map_option (\<lambda>(status, ws, st'). Inr (status, delivered ws (length ([]::nat list)), st')) (handler ext fw jk TFM_INIT msg st)"
    using call_service_delivers [OF assms] by metis
  then show ?thesis
    by (cases "init ext st") (auto simp: tfm_init_def handler_def tfm_init_ipc_def)
qed

lemma invec_whole: "length mem = n \<Longrightarrow> invec mem n = Some (octets mem)"
  by (simp add: invec_def)

lemma invec_str: "length s = n \<Longrightarrow> invec (s @ [nul]) (Suc n) = Some (octets s @ [0])"
  by (simp add: invec_def octets_def ord8_def)

lemma keygen_range:
  assumes "hsm_inv ext st" and "blst_sizes ext" and "length info = 32"
  obtains r st' where "secure_keygen Nrf_Tfm ext (Some info) st = Some (r, st')"
    and "int_of_le32 (le32 r) = r" and "hsm_inv ext st'"
proof -
  obtain s ikm p1 where ikm: "keygen_ikm Nrf_Tfm ext (plat st) = (s, ikm, p1)"
    by (metis prod_cases3)
  have "info_bytes (Some info) = Some (map ord8 (take 4 info))"
    using assms(3) by (simp add: info_bytes_def sizeof_ptr_def)
  from secure_keygen_total [OF assms(1,2) this ikm] obtain r st' where
    kg: "secure_keygen Nrf_Tfm ext (Some info) st = Some (r, st')" "hsm_inv ext st'"
      "-6 \<le> r \<and> r \<le> int (length (hsm_keys st))"
    by (auto split: if_splits)
  moreover have "int (length (hsm_keys st)) \<le> 10"
    using hsm_inv_shape [OF assms(1)] hsm_shapeD(4) length_hsm_keys by metis
  ultimately show thesis
    using that by (simp add: int_of_le32_le32)
qed

lemma tfm_secure_keygen_refines:
  assumes del: "spm_delivers ext spm" and inv: "hsm_inv ext st" and sz: "blst_sizes ext" and len: "length info = 32"
  shows "tfm_secure_keygen spm junk info 32 st = secure_keygen Nrf_Tfm ext (Some info) st"
proof -
  obtain fw msg jk where car: "carries fw msg [octets info]" and call: "call_service spm TFM_SECURE_KEYGEN [octets info] [4] st =
      map_option (\<lambda>(status, ws, st'). Inr (status, delivered ws (length [4::nat]), st')) (handler ext fw jk TFM_SECURE_KEYGEN msg st)"
    using call_service_delivers [OF del] by metis
  have "read_into fw msg 0 (replicate 32 0) = Some (True, octets info)"
    using read_into_fits [OF car, of 0 "replicate 32 0"] len by simp
  moreover obtain r st' where "secure_keygen Nrf_Tfm ext (Some info) st = Some (r, st')" "int_of_le32 (le32 r) = r"
    using keygen_range [OF inv sz len] by blast
  ultimately show ?thesis
    using call len by (simp add: tfm_secure_keygen_def invec_whole handler_def tfm_secure_keygen_ipc_def)
qed

lemma import_range:
  assumes "hsm_inv ext st" and "blst_sizes ext"
  obtains r st' where "import_sk b ext sk st = Some (r, st')" and "int_of_le32 (le32 r) = r"
proof -
  from import_sk_total [OF assms, of b sk] obtain r st' where
    "import_sk b ext sk st = Some (r, st')" "-7 \<le> r \<and> r \<le> 4 + int (length (hsm_keys st))"
    by (auto simp: Let_def split: if_splits)
  moreover have "int (length (hsm_keys st)) \<le> 10"
    using hsm_inv_shape [OF assms(1)] hsm_shapeD(4) length_hsm_keys by metis
  ultimately show thesis
    using that by (simp add: int_of_le32_le32)
qed

lemma tfm_import_sk_refines:
  assumes del: "spm_delivers ext spm" and inv: "hsm_inv ext st" and sz: "blst_sizes ext" and len: "length sk = 64"
  shows "tfm_import_sk spm junk (sk @ rest) st = import_sk Nrf_Tfm ext sk st"
proof -
  obtain fw msg jk where car: "carries fw msg [octets sk]" and call: "call_service spm TFM_IMPORT_SK [octets sk] [4] st =
      map_option (\<lambda>(status, ws, st'). Inr (status, delivered ws (length [4::nat]), st')) (handler ext fw jk TFM_IMPORT_SK msg st)"
    using call_service_delivers [OF del] by metis
  have "read_into fw msg 0 (stack_arr jk 64) = Some (True, octets sk)"
    using read_into_fits [OF car, of 0 "stack_arr jk 64"] len by simp
  moreover obtain r st' where "import_sk Nrf_Tfm ext sk st = Some (r, st')" "int_of_le32 (le32 r) = r"
    using import_range [OF inv sz] by blast
  ultimately show ?thesis
    using call len by (simp add: tfm_import_sk_def invec_def handler_def tfm_import_sk_ipc_def)
qed

lemma tfm_get_key_refines:
  assumes del: "spm_delivers ext spm" and inv: "hsm_inv ext st" and sz: "blst_sizes ext"
    and i: "i < int (length (hsm_keys st))" "- (2 ^ 31) \<le> i" and buf: "length buf = 96"
  shows "tfm_get_key spm i buf st = (if i < 0 then None else Some (0, pkhex ext (hsm_keys st ! nat i), st))"
proof -
  obtain fw msg jk where car: "carries fw msg [le32 i]" and call: "call_service spm TFM_GET_KEY [le32 i] [96] st =
      map_option (\<lambda>(status, ws, st'). Inr (status, delivered ws (length [96::nat]), st')) (handler ext fw jk TFM_GET_KEY msg st)"
    using call_service_delivers [OF del] by metis
  have "int (length (hsm_keys st)) \<le> 10"
    using hsm_inv_shape [OF inv] hsm_shapeD(4) length_hsm_keys by metis
  then have le: "int_of_le32 (le32 i) = i"
    using i by (simp add: int_of_le32_le32)
  have "read_into fw msg 0 (stack_arr jk 4) = Some (True, le32 i)"
    using read_into_fits [OF car, of 0 "stack_arr jk 4"] by simp
  then show ?thesis
    using call get_key_total [OF inv sz, of "chars (stack_arr jk 96)" i] i buf length_pkhex [OF sz]
    by (simp add: tfm_get_key_def handler_def tfm_get_key_ipc_def le blit_def)
qed

lemma chr8_0 [simp]: "chr8 0 = nul"
  by (simp add: chr8_def char_of_def)

lemma chars_zeros: "chars (replicate n 0) = replicate n nul"
  by (simp add: chars_def map_replicate)

lemma tfm_sign_pk_refines:
  assumes del: "spm_delivers ext spm" and inv: "hsm_inv ext st" and sz: "blst_sizes ext"
    and pk: "length pk = 96" and msg: "length m = 64" "nul \<notin> set m" "list_all is_hex (strip0x m)" "strip0x m \<noteq> []"
    and buf: "193 \<le> length sign"
  shows "tfm_sign_pk spm (pk @ [nul]) (m @ [nul]) sign st = Some (
    case find_pk ext pk (hsm_keys st) of
      None \<Rightarrow> (PKNOTFOUND, replicate 193 nul @ drop 193 sign, st)
    | Some i \<Rightarrow> (0, signature_of ext (hsm_keys st ! i) (hexbytes (strip0x m)) @ [nul] @ drop 193 sign, st))"
proof -
  let ?ins = "[octets pk @ [0], octets m @ [0]]"
  obtain fw msg jk where car: "carries fw msg ?ins" and call: "call_service spm TFM_SIGN_PK ?ins [193] st =
      map_option (\<lambda>(status, ws, st'). Inr (status, delivered ws (length [193::nat]), st')) (handler ext fw jk TFM_SIGN_PK msg st)"
    using call_service_delivers [OF del] by metis
  have z: "chars (x @ [0]) = chars x @ [nul]" for x
    by (simp add: chars_def)
  have arg: "str_arg 65 (?ins ! 1)" and m: "cstr (chars (?ins ! 1)) = m"
    using msg by (simp_all add: str_arg_def z cstr_terminated [of m "[]"])
  have fpk: "find_pk ext (pk @ [nul]) ks = find_pk ext pk ks" for ks
    using pk by (simp add: find_pk_def)
  have "invec (pk @ [nul]) 97 = Some (octets pk @ [0])" "invec (m @ [nul]) 65 = Some (octets m @ [0])"
    using invec_str [OF pk] invec_str [OF msg(1)] by simp_all
  moreover have "blit sign (replicate 193 nul) = Some (replicate 193 nul @ drop 193 sign)"
    using buf by (simp add: blit_def)
  moreover have "blit sign (signature_of ext k x @ [nul]) = Some (signature_of ext k x @ [nul] @ drop 193 sign)" for k x
    using buf length_signature_of [OF sz, of k x] by (simp add: blit_def)
  ultimately show ?thesis
    using call sign_ipc [OF inv sz car _ _ arg m [symmetric] msg(4), of jk] pk msg(3)
    by (cases "find_pk ext pk (hsm_keys st)")
       (simp_all add: tfm_sign_pk_def handler_def z fpk chars_zeros signed_bytes_def)
qed

section \<open>Properties of the interface\<close>

text \<open>A concrete manager that serves every call by running the handler.\<close>

definition all_services :: "service list" where
  "all_services = [TFM_DP_SECRET_DIGEST, TFM_INIT, TFM_GET_KEYSTORE_SIZE, TFM_GET_FREE_MEMORY_SIZE, TFM_SECURE_KEYGEN,
     TFM_SIGN_PK, TFM_VERIFY_SIGN, TFM_GET_KEY, TFM_GET_KEYS, TFM_RESET, TFM_IMPORT_SK]"

text \<open>A manager that hands every call to its handler, for any keystore; it shows that the hypothesis can hold.\<close>

definition loopback_spm :: "'p ext \<Rightarrow> 'p spm" where
  "loopback_spm ext = \<lparr>psa_connect = \<lambda>n v. int n, psa_call = \<lambda>h ins outs st.
     case find (\<lambda>s. int (sid s) = h) all_services of None \<Rightarrow> None
     | Some s \<Rightarrow> map_option (\<lambda>(status, ws, st'). (status, delivered ws (length outs), st'))
         (handler ext (demo_fw ins) (\<lambda>_. 0) s ((demo_msg ins)\<lparr>out_size := \<lambda>i. outs ! i\<rparr>) st)\<rparr>"

lemma loopback_delivers: "spm_delivers ext (loopback_spm ext)"
proof -
  have find: "find (\<lambda>t. sid t = sid s) all_services = Some s" for s
    by (cases s) (simp_all add: all_services_def sid_def)
  have valid: "PSA_HANDLE_IS_VALID (int (sid s))" for s
    by (cases s) (simp_all add: sid_def PSA_HANDLE_IS_VALID_def)
  have car: "carries (demo_fw ins) ((demo_msg ins)\<lparr>out_size := f\<rparr>) ins" for ins f
    using demo_carries [of ins] by (simp add: carries_def)
  show ?thesis
    unfolding spm_delivers_def
  proof (intro allI conjI)
    fix s ins outs st
    show "PSA_HANDLE_IS_VALID (psa_connect (loopback_spm ext) (sid s) 1)"
      using valid by (simp add: loopback_spm_def)
    show "\<exists>fw msg junk. carries fw msg ins \<and> (\<forall>i < length outs. out_size msg i = outs ! i) \<and>
        psa_call (loopback_spm ext) (psa_connect (loopback_spm ext) (sid s) 1) ins outs st =
          map_option (\<lambda>(status, ws, st'). (status, delivered ws (length outs), st')) (handler ext fw junk s msg st)"
      by (rule exI [of _ "demo_fw ins"], rule exI [of _ "(demo_msg ins)\<lparr>out_size := \<lambda>i. outs ! i\<rparr>"],
          rule exI [of _ "\<lambda>_. 0"]) (simp add: car loopback_spm_def find)
  qed
qed

definition demo_spm :: "(nat \<Rightarrow> bytes option) spm" where
  "demo_spm = loopback_spm demo_ext"

lemma demo_delivers: "spm_delivers demo_ext demo_spm"
  unfolding demo_spm_def by (rule loopback_delivers)

text \<open>C8: Calling the partition is calling the keystore. For a consistent keystore behind TF-M, each client
  function returns what the keystore operation returns and leaves the keystore as the operation does:
  size, start, reset, generation with 32 bytes of information, import of a 64-character text,
  and the lookup of a stored key.\<close>

theorem tfm_calls_refine_keystore:
  assumes "spm_delivers ext spm" and "blst_sizes ext" and "hsm_inv ext st"
    and "length info = 32" and "length sk = 64" and "i < length (hsm_keys st)" and "length buf = 96"
  shows "tfm_get_keystore_size spm junk st = Some (get_keystore_size st, st) \<and>
    tfm_init spm st = init ext st \<and>
    tfm_reset spm st = Some (PSA_SUCCESS, reset Nrf_Tfm ext st) \<and>
    tfm_secure_keygen spm junk info 32 st = secure_keygen Nrf_Tfm ext (Some info) st \<and>
    tfm_import_sk spm junk sk st = import_sk Nrf_Tfm ext sk st \<and>
    tfm_get_key spm (int i) buf st = map_option (\<lambda>(r, pk). (r, pk, st)) (get_key (int i) buf st)"
  using tfm_get_keystore_size_refines [OF assms(1) hsm_inv_shape [OF assms(3)]] tfm_init_refines [OF assms(1)]
    tfm_reset_refines [OF assms(1)] tfm_secure_keygen_refines [OF assms(1,3,2,4)]
    tfm_import_sk_refines [OF assms(1,3,2,5), of junk "[]"] tfm_get_key_refines [OF assms(1,3,2) _ _ assms(7), of "int i"]
    get_key_total [OF assms(3,2,7), of "int i"] assms(6)
  by simp

theorem tfm_calls_refine_keystore_witness:
  "tfm_import_sk demo_spm (\<lambda>_. 0) (hexstr (replicate 32 6)) (demo_hsm1 (replicate 32 5)) =
     import_sk Nrf_Tfm demo_ext (hexstr (replicate 32 6)) (demo_hsm1 (replicate 32 5))"
  using tfm_calls_refine_keystore [OF demo_delivers demo_sizes demo_hsm1_simps(1), of "replicate 32 5" "replicate 32 nul"
      "hexstr (replicate 32 6)" 0 "replicate 96 nul" "\<lambda>_. 0"] demo_hsm1_simps(2) [of "replicate 32 5"]
  by simp

text \<open>Signing through the partition. For a public key of 96 characters and a message of exactly 64 characters, the
  caller's buffer receives the signature that the keystore makes and the status is 0; for an unknown key the
  first 193 characters of the buffer are zeroed and the status is \<open>PKNOTFOUND\<close>.\<close>

theorem tfm_sign_pk_spec:
  assumes "spm_delivers ext spm" and "hsm_inv ext st" and "blst_sizes ext"
    and "length pk = 96" and "length m = 64" and "list_all is_hex m" and "193 \<le> length sign"
  shows "tfm_sign_pk spm (pk @ [nul]) (m @ [nul]) sign st = Some (
    case find_pk ext pk (hsm_keys st) of
      None \<Rightarrow> (PKNOTFOUND, replicate 193 nul @ drop 193 sign, st)
    | Some i \<Rightarrow> (0, signature_of ext (hsm_keys st ! i) (hexbytes m) @ [nul] @ drop 193 sign, st))"
proof -
  have "nul \<notin> set m" and ne: "m \<noteq> []"
    using assms(5,6) nul_not_hex by (auto simp: list_all_iff)
  then show ?thesis
    using tfm_sign_pk_refines [OF assms(1-5) _ _ _ assms(7), unfolded strip0x_hex [OF assms(6)]] assms(6) by blast
qed

theorem tfm_sign_pk_spec_witness:
  "tfm_sign_pk demo_spm (hexstr (replicate 48 1) @ [nul]) (hexstr (replicate 32 2) @ [nul]) (replicate 193 nul) demo_hsm =
     Some (PKNOTFOUND, replicate 193 nul, demo_hsm)"
  using tfm_sign_pk_spec [OF demo_delivers demo_hsm_simps(1) demo_sizes, of "hexstr (replicate 48 1)"
      "hexstr (replicate 32 2)" "replicate 193 nul"]
  by (simp add: find_pk_def)

text \<open>A message with the prefix 0x and 64 digits, which the direct build accepts, does not fit the 65 bytes that
  are sent: the partition receives it without a terminator and reads behind its array.\<close>

theorem tfm_sign_pk_prefixed_message:
  assumes del: "spm_delivers ext spm" and "length pk = 96" and m: "length m = 66" "nul \<notin> set m"
  shows "tfm_sign_pk spm (pk @ [nul]) (m @ [nul]) sign st = None"
proof -
  let ?ins = "[octets pk @ [0], octets (take 65 m)]"
  obtain fw msg jk where car: "carries fw msg ?ins" and call: "call_service spm TFM_SIGN_PK ?ins [193] st =
      map_option (\<lambda>(status, ws, st'). Inr (status, delivered ws (length [193::nat]), st')) (handler ext fw jk TFM_SIGN_PK msg st)"
    using call_service_delivers [OF del] by metis
  have "read_into fw msg 0 (stack_arr jk 97) = Some (True, octets pk @ [0])"
    using read_into_fits [OF car, of 0 "stack_arr jk 97"] assms(2) by simp
  moreover have "read_into fw msg 1 (stack_arr jk 65) = Some (True, octets (take 65 m))"
    using read_into_fits [OF car, of 1 "stack_arr jk 65"] m by simp
  moreover have "cstr_in (take 65 m) = None"
    using m(2) by (auto simp: cstr_in_def dest: in_set_takeD)
  ultimately have "handler ext fw jk TFM_SIGN_PK msg st = None"
    by (simp add: handler_def tfm_sign_pk_ipc_def del: One_nat_def)
  moreover have "invec (pk @ [nul]) 97 = Some (octets pk @ [0])" "invec (m @ [nul]) 65 = Some (octets (take 65 m))"
    using invec_str [OF assms(2)] m by (simp_all add: invec_def)
  ultimately show ?thesis
    using call by (simp add: tfm_sign_pk_def)
qed

theorem tfm_sign_pk_prefixed_message_witness:
  "tfm_sign_pk demo_spm (hexstr (replicate 48 1) @ [nul]) ((''0x'' @ hexstr (replicate 32 2)) @ [nul]) [] demo_hsm = None"
  by (rule tfm_sign_pk_prefixed_message [OF demo_delivers]) (simp_all add: nul_hexstr)

section \<open>Calls that leave the keystore alone\<close>

lemma call_service_keeps:
  assumes "spm_delivers ext spm" and "call_service spm s ins outs st = Some (Inr (r, os, st'))"
    and "s \<in> {TFM_GET_KEYSTORE_SIZE, TFM_GET_KEY, TFM_SIGN_PK}"
  shows "st' = st"
proof -
  obtain fw msg junk where "call_service spm s ins outs st =
      map_option (\<lambda>(status, ws, st'). Inr (status, delivered ws (length outs), st')) (handler ext fw junk s msg st)"
    using call_service_delivers [OF assms(1)] by metis
  then obtain ws where "handler ext fw junk s msg st = Some (r, ws, st')"
    using assms(2) by (cases "handler ext fw junk s msg st") auto
  then show ?thesis using assms(3) by (rule handler_keeps)
qed

lemma tfm_size_keeps:
  assumes "spm_delivers ext spm" and "tfm_get_keystore_size spm junk st = Some (n, st')"
  shows "st' = st"
  using assms(2) call_service_keeps [OF assms(1), of TFM_GET_KEYSTORE_SIZE]
  unfolding tfm_get_keystore_size_def by (fastforce split: Option.bind_splits sum.splits prod.splits)

lemma tfm_get_key_keeps:
  assumes "spm_delivers ext spm" and "tfm_get_key spm i k st = Some (r, k', st')"
  shows "st' = st"
  using assms(2) call_service_keeps [OF assms(1), of TFM_GET_KEY]
  unfolding tfm_get_key_def by (fastforce split: Option.bind_splits sum.splits prod.splits)

lemma tfm_sign_keeps:
  assumes "spm_delivers ext spm" and "tfm_sign_pk spm pk m sg st = Some (r, sg', st')"
  shows "st' = st"
  using assms(2) call_service_keeps [OF assms(1), of TFM_SIGN_PK]
  unfolding tfm_sign_pk_def by (fastforce split: Option.bind_splits sum.splits prod.splits)

end
