(* ===== verification/Bls_Hsm_Ns.thy ===== *)
theory Bls_Hsm_Ns
  imports Sp_Interface
begin

text \<open>
  \<^verbatim>\<open>src/lib/bls_hsm_ns.c\<close>: the non-secure side of the HSM, used by the command line and by the remote
  signers. Each function checks its arguments, asks the keystore, and appends a message to the
  caller's buffer.

  The macro TFM decides whether the keystore is linked into the application or lives behind the
  partition. The calls that differ are collected in the record \<open>svc\<close>; \<open>direct_svc\<close> and \<open>tfm_svc\<close> are the
  two sets of calls the preprocessor selects. Strings are passed with the memory \<open>s @ [nul]\<close>, the
  smallest object a C string needs. A buffer is the C string it holds.

  The locale \<open>key_service\<close> states what the functions rely on; it is interpreted on both sets.
\<close>

section \<open>The keystore as the application calls it\<close>

record 's svc =
  svc_size :: "'s \<Rightarrow> (int \<times> 's) option"
  svc_keygen :: "char list \<Rightarrow> 's \<Rightarrow> (int \<times> 's) option"
  svc_get_key :: "int \<Rightarrow> char list \<Rightarrow> 's \<Rightarrow> (int \<times> char list \<times> 's) option"
  svc_get_keys :: "string list \<Rightarrow> 's \<Rightarrow> (string list \<times> 's) option"
  svc_sign :: "string \<Rightarrow> string \<Rightarrow> string \<Rightarrow> 's \<Rightarrow> (int \<times> string \<times> 's) option"
  svc_verify :: "string \<Rightarrow> string \<Rightarrow> string \<Rightarrow> 's \<Rightarrow> (int \<times> 's) option"
  svc_reset :: "'s \<Rightarrow> 's option"
  svc_import :: "string \<Rightarrow> 's \<Rightarrow> (int \<times> 's) option"

definition direct_svc :: "build \<Rightarrow> 'p ext \<Rightarrow> (nat \<Rightarrow> byte) \<Rightarrow> 'p hsm svc" where
  "direct_svc b ext junk = \<lparr>
     svc_size = \<lambda>st. Some (get_keystore_size st, st),
     svc_keygen = \<lambda>info st. secure_keygen b ext (Some info) st,
     svc_get_key = \<lambda>i pk st. map_option (\<lambda>(r, pk'). (r, pk', st)) (get_key i pk st),
     svc_get_keys = \<lambda>rs st. map_option (\<lambda>rs'. (rs', st)) (get_keys rs st),
     svc_sign = \<lambda>pk msg buff st. map_option (\<lambda>(r, s). (r, s, st)) (sign_pk ext junk pk msg buff st),
     svc_verify = \<lambda>pk msg sig st. map_option (\<lambda>r. (r, st)) (verify_sign ext junk pk msg sig),
     svc_reset = \<lambda>st. Some (reset b ext st),
     svc_import = \<lambda>sk st. import_sk b ext sk st\<rparr>"

text \<open>The loop with which \<open>print_keys_Json\<close> fetches the keys through the partition; results are not checked.\<close>

primrec tfm_fetch_keys :: "nat \<Rightarrow> nat \<Rightarrow> 'p spm \<Rightarrow> string list \<Rightarrow> 'p hsm \<Rightarrow> (string list \<times> 'p hsm) option" where
  "tfm_fetch_keys 0 i spm rs st = Some (rs, st)"
| "tfm_fetch_keys (Suc n) i spm rs st = do {
     old \<leftarrow> at rs i;
     (_, pk, st1) \<leftarrow> tfm_get_key spm (int i) old st;
     rs1 \<leftarrow> put rs i pk;
     tfm_fetch_keys n (Suc i) spm rs1 st1
   }"

text \<open>The memory of a caller's buffer: the CLI declares 2048 characters.\<close>

definition buffer_mem :: "string \<Rightarrow> char list" where
  "buffer_mem buff = buff @ replicate (2048 - length buff) nul"

definition tfm_svc :: "'p spm \<Rightarrow> (nat \<Rightarrow> byte) \<Rightarrow> 'p hsm svc" where
  "tfm_svc spm junk = \<lparr>
     svc_size = \<lambda>st. tfm_get_keystore_size spm junk st,
     svc_keygen = \<lambda>info st. tfm_secure_keygen spm junk info 32 st,
     svc_get_key = \<lambda>i pk st. tfm_get_key spm i pk st,
     svc_get_keys = \<lambda>rs st. tfm_fetch_keys (length rs) 0 spm rs st,
     svc_sign = \<lambda>pk msg buff st.
       map_option (\<lambda>(r, s, st'). (r, cstr s, st')) (tfm_sign_pk spm (pk @ [nul]) (msg @ [nul]) (buffer_mem buff) st),
     svc_verify = \<lambda>pk msg sig st. tfm_verify_sign spm junk (pk @ [nul]) (msg @ [nul]) (sig @ [nul]) st,
     svc_reset = \<lambda>st. map_option snd (tfm_reset spm st),
     svc_import = \<lambda>sk st. tfm_import_sk spm junk (sk @ [nul]) st\<rparr>"

section \<open>The functions\<close>

definition get_keystore_length :: "'s svc \<Rightarrow> 's \<Rightarrow> (int \<times> 's) option" where
  "get_keystore_length svc s = svc_size svc s"

text \<open>\<open>info\<close> starts as 32 zero characters; \<open>strncpy\<close> fills it with the data and zeros.\<close>

definition keygen_info :: "string \<Rightarrow> char list option" where
  "keygen_info data = (
     let info = replicate 32 nul in
     if length data \<noteq> 0
     then if length data \<le> length (cstr info) then blit info (data @ [nul])
          else Some (take 32 data @ replicate (32 - length data) nul)
     else Some info)"

definition keygen :: "'s svc \<Rightarrow> (nat \<Rightarrow> byte) \<Rightarrow> string \<Rightarrow> string \<Rightarrow> 's \<Rightarrow> (int \<times> string \<times> 's) option" where
  "keygen svc junk data buff s = do {
     (keystore_size, s) \<leftarrow> svc_size svc s;
     if keystore_size < 10 then do {
       info \<leftarrow> keygen_info data;
       (pk_index, s) \<leftarrow> svc_keygen svc info s;
       if pk_index = - KEYSLIMIT then Some (pk_index, buff @ ''Can't generate more keys. Limit reached.\<newline>'', s)
       else if pk_index = - BIN2HEXERR then
         Some (pk_index, buff @ ''Error when converting public key from binary to hexadecimal.\<newline>'', s)
       else do {
         (e, pk, s) \<leftarrow> svc_get_key svc pk_index (chars (stack_arr junk 96)) s;
         if e \<noteq> 0 then Some (-3, buff @ ''get_key: error\<newline>'', s)
         else do { buff1 \<leftarrow> print_pk pk buff; Some (pk_index, buff1, s) }
       }
     }
     else Some (KEYSLIMIT, buff @ ''Can't generate more keys. Limit reached.\<newline>'', s)
   }"

definition signature :: "'s svc \<Rightarrow> string \<Rightarrow> string \<Rightarrow> string \<Rightarrow> 's \<Rightarrow> (int \<times> string \<times> 's) option" where
  "signature svc pk msg buff s = (
     let offset = parse_hex pk 96 in
     if offset \<ge> 0 then do {
       (ret, buff, s) \<leftarrow> svc_sign svc (drop (nat offset) pk) msg buff s;
       if ret = BIN2HEXERR then Some (BIN2HEXERR, buff @ ''Failed converting binary signature to string\<newline>'', s)
       else if ret = PKNOTFOUND then Some (PKNOTFOUND, buff @ ''Public key isn't stored\<newline>'', s)
       else Some (ret, buff, s)
     }
     else if offset = BADLEN then
       Some (BADPKLEN, buff @ ''Incorrect public key length. It must be 96 characters long\<newline>'', s)
     else Some (BADFORMAT, buff @ ''Public key contains incorrect characters.\<newline>'', s))"

definition verify :: "'s svc \<Rightarrow> string \<Rightarrow> string \<Rightarrow> string \<Rightarrow> string \<Rightarrow> 's \<Rightarrow> (int \<times> string \<times> 's) option" where
  "verify svc pk msg sig buff s = do {
     (ret, s) \<leftarrow> svc_verify svc pk msg sig s;
     if ret = BLSTSUCCESS then Some (BLSTSUCCESS, buff @ ''BLSTSUCCESS\<newline>'', s)
     else Some (ret, buff @ ''BLSTFAIL\<newline>'', s)
   }"

definition get_pk :: "'s svc \<Rightarrow> int \<Rightarrow> char list \<Rightarrow> 's \<Rightarrow> (int \<times> char list \<times> 's) option" where
  "get_pk svc index pk_hex s = svc_get_key svc index pk_hex s"

text \<open>The loop of \<open>print_keys_Json\<close>: the 96 characters of each row, with a separator between rows.\<close>

fun print_rows :: "string list \<Rightarrow> string \<Rightarrow> string option" where
  "print_rows [] buff = Some buff"
| "print_rows (r # rs) buff = do {
     buff1 \<leftarrow> print_pk_loop 96 r 0 buff;
     print_rows rs (if rs \<noteq> [] then buff1 @ ''\",\<newline>\"'' else buff1)
   }"

definition print_keys_Json :: "'s svc \<Rightarrow> (nat \<Rightarrow> byte) \<Rightarrow> string \<Rightarrow> 's \<Rightarrow> (int \<times> string \<times> 's) option" where
  "print_keys_Json svc junk buff s = do {
     (keystore_size, s) \<leftarrow> svc_size svc s;
     (keys, s) \<leftarrow> svc_get_keys svc (replicate (nat keystore_size) (chars (stack_arr junk 96))) s;
     buff1 \<leftarrow> print_rows keys (buff @ ''{\"keys\":[\"'');
     Some (keystore_size, buff1 @ ''\"]}\<newline>'', s)
   }"

definition resetc :: "'s svc \<Rightarrow> string \<Rightarrow> 's \<Rightarrow> (string \<times> 's) option" where
  "resetc svc buff s = do {
     s \<leftarrow> svc_reset svc s;
     Some (buff @ ''Keys deleted\<newline>'', s)
   }"

definition import :: "'s svc \<Rightarrow> string \<Rightarrow> string \<Rightarrow> 's \<Rightarrow> (int \<times> string \<times> 's) option" where
  "import svc sk buff s = do {
     (keystore_size, s) \<leftarrow> svc_size svc s;
     if keystore_size < 10 then
       let offset = parse_hex sk 64 in
       if offset \<ge> 0 then do {
         (ret, s) \<leftarrow> svc_import svc (drop (nat offset) sk) s;
         if ret = - KEYSLIMIT then Some (KEYSLIMIT, buff @ ''Limit reached\<newline>'', s)
         else if ret = - HEX2BINERR then Some (HEX2BINERR, buff @ ''Failed converting hex to bin\<newline>'', s)
         else if ret = - EXISTINGKEY then Some (EXISTINGKEY, buff @ ''Key already imported\<newline>'', s)
         else Some (-99, buff, s)
       }
       else if offset = BADFORMAT then Some (BADFORMAT, buff @ ''Incorrect characters\<newline>'', s)
       else Some (BADSKLEN, buff @ ''Incorrect secret key length\<newline>'', s)
     else Some (KEYSLIMIT, buff @ ''Limit reached\<newline>'', s)
   }"

section \<open>Password-protected key files\<close>

text \<open>Primitives of wolfSSL and mbedTLS. NRF builds use \<open>hash\<close> and \<open>aes128ctr\<close> of \<^verbatim>\<open>bls_hsm.h\<close> instead: \<open>nrf_hash\<close> is \<^const>\<open>hash\<close>
  for the build and the platform at hand, \<open>nrf_cipher\<close> what \<^const>\<open>aes128ctr\<close> calls.\<close>

record kdf =
  wc_scrypt :: "string \<Rightarrow> bytes \<Rightarrow> int \<Rightarrow> int \<Rightarrow> int \<Rightarrow> int \<Rightarrow> bytes"
  sha256 :: "bytes \<Rightarrow> bytes"
  aes_ctr :: "bytes \<Rightarrow> bytes \<Rightarrow> bytes \<Rightarrow> bytes"
  pkcs5_pbkdf2_hmac :: "string \<Rightarrow> bytes \<Rightarrow> int \<Rightarrow> int \<Rightarrow> bytes option"
  nrf_hash :: "bytes \<Rightarrow> bytes \<Rightarrow> bytes option"
  nrf_cipher :: cipher_ext

text \<open>A failure of mbedTLS is the result \<open>None\<close> of \<open>pkcs5_pbkdf2_hmac\<close>.\<close>

definition PBKDF2 :: "kdf \<Rightarrow> bytes \<Rightarrow> string \<Rightarrow> int \<Rightarrow> bytes \<Rightarrow> (int \<times> bytes) option" where
  "PBKDF2 kdf salt password it_cnt key = (case pkcs5_pbkdf2_hmac kdf password salt it_cnt 32 of
     None \<Rightarrow> Some (-1, key)
   | Some k \<Rightarrow> do { key \<leftarrow> blit key k; Some (0, key) })"

definition get_decryption_key_scrypt ::
    "build \<Rightarrow> kdf \<Rightarrow> (nat \<Rightarrow> byte) \<Rightarrow> string \<Rightarrow> int \<Rightarrow> int \<Rightarrow> int \<Rightarrow> int \<Rightarrow> string \<Rightarrow> bytes \<Rightarrow> (int \<times> bytes) option" where
  "get_decryption_key_scrypt b kdf junk password dklen n r p salt_hex decryption_key =
     (if b = Native then do {
        let salt_len = length salt_hex div 2;
        (k, salt_bin) \<leftarrow> hex2bin salt_hex (length salt_hex) (stack_arr junk salt_len) (length salt_hex div 2);
        if k \<noteq> length salt_hex div 2 then Some (HEX2BINERR, decryption_key)
        else do { key \<leftarrow> blit decryption_key (wc_scrypt kdf password salt_bin n r p dklen); Some (0, key) }
      }
      else Some (-1, decryption_key))"

text \<open>The byte copies of \<open>verify_password\<close>: the second half of the key, then the ciphertext.\<close>

definition pre_image :: "bytes \<Rightarrow> bytes \<Rightarrow> bytes option" where
  "pre_image decription_key cipher_message_bin =
     (if length decription_key < 32 then None else Some (take 16 (drop 16 decription_key) @ cipher_message_bin))"

definition verify_password :: "build \<Rightarrow> kdf \<Rightarrow> (nat \<Rightarrow> byte) \<Rightarrow> string \<Rightarrow> string \<Rightarrow> bytes \<Rightarrow> int option" where
  "verify_password b kdf junk checksum_message_hex cipher_message_hex decription_key = do {
     let cipher_message_len = length cipher_message_hex div 2;
     (k, cipher_message_bin) \<leftarrow>
       hex2bin cipher_message_hex (length cipher_message_hex) (stack_arr junk cipher_message_len) (length cipher_message_hex div 2);
     if k = 0 then Some HEX2BINERR
     else do {
       pre \<leftarrow> pre_image decription_key cipher_message_bin;
       checksum_hash \<leftarrow> (if b = Native then Some (sha256 kdf pre) else nrf_hash kdf (stack_arr junk 32) pre);
       (m, checksum_str) \<leftarrow> bin2hex_todo checksum_hash 32 (chars (stack_arr junk 64)) 64;
       if m = 0 then Some BIN2HEXERR
       else if take 64 (checksum_message_hex @ [nul]) = take 64 checksum_str then Some 0
       else Some INVPASSWORD
     }
   }"

text \<open>\<open>private_key\<close> is the caller's array.\<close>

definition get_private_key :: "build \<Rightarrow> kdf \<Rightarrow> 's svc \<Rightarrow> (nat \<Rightarrow> byte) \<Rightarrow> string \<Rightarrow> string \<Rightarrow> bytes \<Rightarrow> bytes \<Rightarrow> 's \<Rightarrow> (int \<times> bytes \<times> 's) option" where
  "get_private_key b kdf svc junk cipher_message iv_str decription_key private_key s = do {
     let cipher_message_len = length cipher_message div 2;
     (k, cipher_message_bin) \<leftarrow>
       hex2bin cipher_message (length cipher_message) (stack_arr junk cipher_message_len) (length cipher_message div 2);
     if k \<noteq> length cipher_message div 2 then Some (HEX2BINERR, private_key, s)
     else do {
       let iv_len = length iv_str div 2;
       (k2, iv_bin) \<leftarrow> hex2bin iv_str (length iv_str) (stack_arr junk iv_len) (length iv_str div 2);
       if k2 \<noteq> length iv_str div 2 then Some (HEX2BINERR, private_key, s)
       else do {
         private_key \<leftarrow>
           (if b = Native then blit private_key (aes_ctr kdf (take 16 decription_key) iv_bin cipher_message_bin)
            else aes128ctr b (nrf_cipher kdf) decription_key iv_bin cipher_message_bin private_key);
         (m, private_key_str) \<leftarrow> bin2hex_todo private_key 32 (chars (stack_arr junk 65)) 64;
         if m \<noteq> 64 then Some (BIN2HEXERR, private_key, s)
         else do {
           private_key \<leftarrow> put private_key 64 0;
           (_, _, s) \<leftarrow> import svc (cstr private_key_str) '''' s;
           Some (0, private_key, s)
         }
       }
     }
   }"

section \<open>What the functions rely on\<close>

text \<open>The position of the first occurrence of a public key.\<close>

definition find_text :: "string \<Rightarrow> string list \<Rightarrow> nat option" where
  "find_text pk ks = find (\<lambda>i. ks ! i = pk) [0..<length ks]"

lemma find_text_Some: "find_text pk ks = Some i \<Longrightarrow> i < length ks \<and> ks ! i = pk"
  by (auto simp: find_text_def find_Some_iff)

lemma find_text_None: "find_text pk ks = None \<longleftrightarrow> pk \<notin> set ks"
  by (auto simp: find_text_def find_None_iff in_set_conv_nth)

lemma keygen_info_eq: "keygen_info data = Some (take 32 data @ replicate (32 - length data) nul)"
proof -
  have "cstr (replicate 32 nul) = []"
    by (simp add: cstr_def)
  then show ?thesis
    by (simp add: keygen_info_def Let_def)
qed

text \<open>
  The contract of the keystore: \<open>keys s\<close> are the texts of the stored public keys, \<open>sig_of s i m\<close> the
  signature of the bytes \<open>m\<close> with key \<open>i\<close>, \<open>entropy_ok s\<close> that the next draw of entropy succeeds.
\<close>

locale key_service =
  fixes svc :: "'s svc" and invar :: "'s \<Rightarrow> bool" and keys :: "'s \<Rightarrow> string list"
    and sig_of :: "'s \<Rightarrow> nat \<Rightarrow> bytes \<Rightarrow> string" and entropy_ok :: "'s \<Rightarrow> bool"
  assumes keys_wf: "invar s \<Longrightarrow> length (keys s) \<le> 10 \<and> (\<forall>k \<in> set (keys s). length k = 96 \<and> list_all is_hex k)"
    and size_law: "invar s \<Longrightarrow> svc_size svc s = Some (int (length (keys s)), s)"
    and keygen_law: "invar s \<Longrightarrow> length info = 32 \<Longrightarrow> length (keys s) < 10 \<Longrightarrow>
      \<exists>r s'. svc_keygen svc info s = Some (r, s') \<and> invar s' \<and>
        (if entropy_ok s then r = int (length (keys s)) \<and> (\<exists>k. keys s' = keys s @ [k])
         else r = RNGERR \<and> keys s' = keys s)"
    and get_key_law: "invar s \<Longrightarrow> length buf = 96 \<Longrightarrow> -3 \<le> i \<Longrightarrow> i < int (length (keys s)) \<Longrightarrow>
      svc_get_key svc i buf s = (if i < 0 then None else Some (0, keys s ! nat i, s))"
    and get_keys_law: "invar s \<Longrightarrow> length rs = length (keys s) \<Longrightarrow> \<forall>r \<in> set rs. length r = 96 \<Longrightarrow>
      svc_get_keys svc rs s = Some (keys s, s)"
    and sign_law: "invar s \<Longrightarrow> length pk = 96 \<Longrightarrow> list_all is_hex pk \<Longrightarrow> length m = 64 \<Longrightarrow> list_all is_hex m \<Longrightarrow>
      svc_sign svc pk m '''' s = Some (case find_text pk (keys s) of
         None \<Rightarrow> (PKNOTFOUND, '''', s) | Some i \<Rightarrow> (0, sig_of s i (hexbytes m), s))"
    and reset_law: "invar s \<Longrightarrow> \<exists>s'. svc_reset svc s = Some s' \<and> invar s' \<and> keys s' = []"
    and import_law: "invar s \<Longrightarrow> length sk = 64 \<Longrightarrow> list_all is_hex sk \<Longrightarrow> length (keys s) < 10 \<Longrightarrow>
      \<exists>r s'. svc_import svc sk s = Some (r, s') \<and> invar s' \<and>
        (r = EXISTINGKEY \<and> keys s' = keys s \<or> r = int (length (keys s)) \<and> (\<exists>k. keys s' = keys s @ [k]))"
begin

lemma nul_key: "invar s \<Longrightarrow> k \<in> set (keys s) \<Longrightarrow> length k = 96 \<and> nul \<notin> set k"
  using keys_wf [of s] nul_not_hex by (metis list_all_iff)

lemma print_key: "invar s \<Longrightarrow> k \<in> set (keys s) \<Longrightarrow> print_pk k buff = Some (buff @ ''0x'' @ k @ ''\<newline>'')"
  using nul_key print_pk_ok by blast

text \<open>Generation: with a working entropy source it stores one key and prints it. When the source fails,
  the negative index is used to read the public key, outside the store.\<close>

lemma keygen_outcome:
  assumes inv: "invar s" and room: "length (keys s) < 10"
  shows "if entropy_ok s
    then \<exists>s' k. invar s' \<and> keys s' = keys s @ [k] \<and>
      keygen svc junk data buff s = Some (int (length (keys s)), buff @ ''0x'' @ k @ ''\<newline>'', s')
    else keygen svc junk data buff s = None"
proof -
  let ?info = "take 32 data @ replicate (32 - length data) nul"
  have "length ?info = 32" by simp
  from keygen_law [OF inv this room]
  obtain r s' where kg: "svc_keygen svc ?info s = Some (r, s')" and inv': "invar s'"
    and r: "if entropy_ok s then r = int (length (keys s)) \<and> (\<exists>k. keys s' = keys s @ [k])
      else r = RNGERR \<and> keys s' = keys s"
    by blast
  show ?thesis
  proof (cases "entropy_ok s")
    case False
    then show ?thesis
      using kg r room get_key_law [OF inv', of "chars (stack_arr junk 96)" RNGERR]
      by (simp add: keygen_def size_law [OF inv] keygen_info_eq)
  next
    case True
    with r obtain k where r: "r = int (length (keys s))" and k: "keys s' = keys s @ [k]" by auto
    have "svc_get_key svc r (chars (stack_arr junk 96)) s' = Some (0, k, s')"
      using get_key_law [OF inv', of "chars (stack_arr junk 96)" r] k r by simp
    moreover have "print_pk k buff = Some (buff @ ''0x'' @ k @ ''\<newline>'')"
      using print_key [OF inv', of k buff] k by simp
    ultimately show ?thesis
      using True kg room inv' k r by (auto simp: keygen_def size_law [OF inv] keygen_info_eq)
  qed
qed

lemma keygen_full:
  "invar s \<Longrightarrow> length (keys s) = 10 \<Longrightarrow>
   keygen svc junk data buff s = Some (KEYSLIMIT, buff @ ''Can't generate more keys. Limit reached.\<newline>'', s)"
  by (simp add: keygen_def size_law)

text \<open>Signing: a malformed public key is reported, an unknown one too, a stored one signs.\<close>

lemma signature_outcome:
  assumes inv: "invar s" and m: "length m = 64" "list_all is_hex m"
  shows "signature svc pk m '''' s = Some (
    if length (strip0x pk) \<noteq> 96 then (BADPKLEN, ''Incorrect public key length. It must be 96 characters long\<newline>'', s)
    else if \<not> list_all is_hex (strip0x pk) then (BADFORMAT, ''Public key contains incorrect characters.\<newline>'', s)
    else case find_text (strip0x pk) (keys s) of
      None \<Rightarrow> (PKNOTFOUND, ''Public key isn't stored\<newline>'', s)
    | Some i \<Rightarrow> (0, sig_of s i (hexbytes m), s))"
proof (cases "length (strip0x pk) = 96 \<and> list_all is_hex (strip0x pk)")
  case True
  then have "parse_hex pk 96 \<ge> 0" and "drop (nat (parse_hex pk 96)) pk = strip0x pk"
    by (simp_all add: parse_hex_eq strip0x_def)
  with True show ?thesis
    using sign_law [OF inv _ _ m, of "strip0x pk"]
    by (cases "find_text (strip0x pk) (keys s)") (simp_all add: signature_def Let_def)
next
  case False
  then have "parse_hex pk 96 = (if length (strip0x pk) \<noteq> 96 then BADLEN else BADFORMAT)"
    by (auto simp: parse_hex_eq)
  with False show ?thesis
    by (auto simp: signature_def Let_def)
qed

text \<open>Import: the code -99 on success and on a known key alike, nothing printed in either case.\<close>

lemma import_outcome:
  assumes inv: "invar s"
  shows "\<exists>r out s'. import svc sk buff s = Some (r, buff @ out, s') \<and> invar s' \<and>
    (if length (keys s) = 10 then r = KEYSLIMIT \<and> out = ''Limit reached\<newline>'' \<and> s' = s
     else if length (strip0x sk) \<noteq> 64 then r = BADSKLEN \<and> out = ''Incorrect secret key length\<newline>'' \<and> s' = s
     else if \<not> list_all is_hex (strip0x sk) then r = BADFORMAT \<and> out = ''Incorrect characters\<newline>'' \<and> s' = s
     else r = -99 \<and> out = '''' \<and> (keys s' = keys s \<or> (\<exists>k. keys s' = keys s @ [k])))"
proof -
  have le: "length (keys s) \<le> 10"
    using keys_wf [OF inv] by simp
  consider "length (keys s) = 10" | "length (keys s) < 10" "\<not> (length (strip0x sk) = 64 \<and> list_all is_hex (strip0x sk))"
    | "length (keys s) < 10" "length (strip0x sk) = 64" "list_all is_hex (strip0x sk)"
    using le by linarith
  then show ?thesis
  proof cases
    case 1
    then show ?thesis
      using inv by (simp add: import_def size_law)
  next
    case 2
    then have "parse_hex sk 64 = (if length (strip0x sk) \<noteq> 64 then BADLEN else BADFORMAT)"
      by (auto simp: parse_hex_eq)
    with 2 show ?thesis
      using inv by (auto simp: import_def size_law Let_def)
  next
    case 3
    then have "parse_hex sk 64 \<ge> 0" and "drop (nat (parse_hex sk 64)) sk = strip0x sk"
      by (simp_all add: parse_hex_eq strip0x_def)
    moreover obtain r s' where "svc_import svc (strip0x sk) s = Some (r, s')" "invar s'"
      "r = EXISTINGKEY \<and> keys s' = keys s \<or> r = int (length (keys s)) \<and> (\<exists>k. keys s' = keys s @ [k])"
      using import_law [OF inv 3(2,3,1)] by blast
    ultimately show ?thesis
      using 3 inv by (auto simp: import_def size_law Let_def)
  qed
qed

lemma print_rows_ok:
  "\<forall>r \<in> set rs. length r = 96 \<and> nul \<notin> set r \<Longrightarrow>
   print_rows rs buff = Some (buff @ concat (map (\<lambda>i. rs ! i @ (if Suc i < length rs then ''\",\<newline>\"'' else '''')) [0..<length rs]))"
proof (induction rs arbitrary: buff)
  case Nil
  then show ?case by simp
next
  case (Cons r rs)
  have "print_pk_loop 96 r 0 buff = Some (buff @ r)"
    using print_pk_loop_ok [of 0 96 r buff] Cons.prems by simp
  moreover have "[0..<length (r # rs)] = 0 # map Suc [0..<length rs]"
    by (simp add: map_Suc_upt upt_conv_Cons del: upt_Suc)
  ultimately show ?case
    using Cons by (cases rs) (simp_all add: o_def del: upt_Suc)
qed

lemma print_keys_outcome:
  assumes inv: "invar s"
  shows "print_keys_Json svc junk buff s = Some (int (length (keys s)),
    buff @ ''{\"keys\":[\"'' @ concat (map (\<lambda>i. keys s ! i @ (if Suc i < length (keys s) then ''\",\<newline>\"'' else '''')) [0..<length (keys s)]) @ ''\"]}\<newline>'', s)"
  using print_rows_ok [of "keys s"] nul_key [OF inv] get_keys_law [OF inv, of "replicate (length (keys s)) (chars (stack_arr junk 96))"]
  by (simp add: print_keys_Json_def size_law [OF inv])

lemma reset_outcome: "invar s \<Longrightarrow> \<exists>s'. resetc svc buff s = Some (buff @ ''Keys deleted\<newline>'', s') \<and> invar s' \<and> keys s' = []"
  using reset_law [of s] by (auto simp: resetc_def)

end

section \<open>Both builds keep the contract\<close>

definition pk_texts :: "'p ext \<Rightarrow> 'p hsm \<Rightarrow> string list" where
  "pk_texts ext st = map (pkhex ext) (hsm_keys st)"

definition key_signature :: "'p ext \<Rightarrow> 'p hsm \<Rightarrow> nat \<Rightarrow> bytes \<Rightarrow> string" where
  "key_signature ext st i m = signature_of ext (hsm_keys st ! i) m"

definition draws_entropy :: "build \<Rightarrow> 'p ext \<Rightarrow> 'p hsm \<Rightarrow> bool" where
  "draws_entropy b ext st \<longleftrightarrow> fst (keygen_ikm b ext (plat st)) = PSA_SUCCESS"

definition direct_inv :: "'p ext \<Rightarrow> 'p hsm \<Rightarrow> bool" where
  "direct_inv ext st \<longleftrightarrow> blst_sizes ext \<and> hsm_inv ext st"

definition tfm_inv :: "'p ext \<Rightarrow> 'p spm \<Rightarrow> 'p hsm \<Rightarrow> bool" where
  "tfm_inv ext spm st \<longleftrightarrow> spm_delivers ext spm \<and> blst_sizes ext \<and> hsm_inv ext st"

lemma pk_texts_wf:
  assumes "blst_sizes ext" and "hsm_inv ext st"
  shows "length (pk_texts ext st) \<le> 10 \<and> (\<forall>k \<in> set (pk_texts ext st). length k = 96 \<and> list_all is_hex k)"
proof -
  note sh = hsm_inv_shape [OF assms(2)]
  have "length (hsm_keys st) \<le> 10"
    using length_hsm_keys [OF sh] hsm_shapeD(4) [OF sh] by linarith
  then show ?thesis
    using length_pkhex [OF assms(1)] by (auto simp: pk_texts_def) (simp add: pkhex_def)
qed

lemma keystore_size_texts: "hsm_inv ext st \<Longrightarrow> get_keystore_size st = int (length (pk_texts ext st))"
  by (simp add: get_keystore_size_def pk_texts_def length_hsm_keys hsm_inv_shape)

lemma find_text_pk: "length pk = 96 \<Longrightarrow> find_text pk (pk_texts ext st) = find_pk ext pk (hsm_keys st)"
  unfolding find_text_def find_pk_def pk_texts_def length_map by (rule find_cong_set) simp

lemma keygen_contract:
  assumes sz: "blst_sizes ext" and inv: "hsm_inv ext st" and len: "length info = 32" and room: "length (pk_texts ext st) < 10"
  shows "\<exists>r st'. secure_keygen b ext (Some info) st = Some (r, st') \<and> hsm_inv ext st' \<and>
    (if draws_entropy b ext st then r = int (length (pk_texts ext st)) \<and> (\<exists>k. pk_texts ext st' = pk_texts ext st @ [k])
     else r = RNGERR \<and> pk_texts ext st' = pk_texts ext st)"
proof -
  obtain s ikm p1 where ikm: "keygen_ikm b ext (plat st) = (s, ikm, p1)"
    by (metis prod_cases3)
  have "info_bytes (Some info) = Some (map ord8 (take 4 info))"
    using len by (simp add: info_bytes_def sizeof_ptr_def)
  from secure_keygen_total [OF inv sz this ikm] show ?thesis
    using ikm room by (cases "s = PSA_SUCCESS") (auto simp: draws_entropy_def pk_texts_def)
qed

lemma import_contract:
  assumes sz: "blst_sizes ext" and inv: "hsm_inv ext st" and sk: "length sk = 64" "list_all is_hex sk"
    and room: "length (pk_texts ext st) < 10"
  shows "\<exists>r st'. import_sk b ext sk st = Some (r, st') \<and> hsm_inv ext st' \<and>
    (r = EXISTINGKEY \<and> pk_texts ext st' = pk_texts ext st \<or>
     r = int (length (pk_texts ext st)) \<and> (\<exists>k. pk_texts ext st' = pk_texts ext st @ [k]))"
  using import_sk_total [OF inv sz, of b sk] sk room by (auto simp: pk_texts_def Let_def split: if_splits)

lemma get_keys_contract:
  "hsm_inv ext st \<Longrightarrow> length rs = length (pk_texts ext st) \<Longrightarrow> \<forall>r \<in> set rs. length r = 96 \<Longrightarrow>
   get_keys rs st = Some (pk_texts ext st)"
  using get_keys_ok [of ext st rs] by (simp add: pk_texts_def)

lemma tfm_fetch_keys_eq:
  assumes del: "spm_delivers ext spm" and sz: "blst_sizes ext" and inv: "hsm_inv ext st"
  shows "i + n = length rs \<Longrightarrow> length rs = length (hsm_keys st) \<Longrightarrow> \<forall>r \<in> set rs. length r = 96 \<Longrightarrow>
    tfm_fetch_keys n i spm rs st = Some (take i rs @ drop i (pk_texts ext st), st)"
proof (induction n arbitrary: i rs)
  case 0
  then show ?case by (simp add: pk_texts_def)
next
  case (Suc n)
  let ?pk = "pkhex ext (hsm_keys st ! i)"
  have "length (rs ! i) = 96"
    using Suc.prems by simp
  then have "tfm_get_key spm (int i) (rs ! i) st = Some (0, ?pk, st)"
    using tfm_get_key_refines [OF del inv sz, of "int i" "rs ! i"] Suc.prems by simp
  then have "tfm_fetch_keys (Suc n) i spm rs st = tfm_fetch_keys n (Suc i) spm (rs[i := ?pk]) st"
    using Suc.prems by (simp add: c_simps)
  also have "\<dots> = Some (take (Suc i) (rs[i := ?pk]) @ drop (Suc i) (pk_texts ext st), st)"
    using Suc.prems length_pkhex [OF sz] by (intro Suc.IH) (auto dest: set_update_subset_insert [THEN subsetD])
  also have "take (Suc i) (rs[i := ?pk]) @ drop (Suc i) (pk_texts ext st) = take i rs @ drop i (pk_texts ext st)"
    using Suc.prems by (simp add: take_Suc_conv_app_nth pk_texts_def Cons_nth_drop_Suc [symmetric])
  finally show ?case .
qed

lemma tfm_svc_sign:
  assumes "spm_delivers ext spm" and "blst_sizes ext" and "hsm_inv ext st"
    and "length pk = 96" and m: "length m = 64" "list_all is_hex m"
  shows "svc_sign (tfm_svc spm junk) pk m '''' st = Some (case find_pk ext pk (hsm_keys st) of
      None \<Rightarrow> (PKNOTFOUND, '''', st) | Some i \<Rightarrow> (0, signature_of ext (hsm_keys st ! i) (hexbytes m), st))"
proof -
  have nul: "nul \<notin> set m"
    using m(2) nul_not_hex by (metis list_all_iff)
  have "cstr (replicate 193 nul @ x) = []" for x
    by (simp add: cstr_def numeral_eq_Suc)
  moreover have "cstr (signature_of ext k x @ nul # y) = signature_of ext k x" for k x y
    using cstr_terminated [OF nul_hexstr] by (simp add: signature_of_def)
  moreover have "193 \<le> length (buffer_mem '''')" "m \<noteq> []"
    using m(1) by (auto simp: buffer_mem_def)
  ultimately show ?thesis
    using tfm_sign_pk_refines [OF assms(1,3,2,4) m(1) nul, of "buffer_mem ''''"] m
    by (cases "find_pk ext pk (hsm_keys st)") (simp_all add: tfm_svc_def strip0x_hex [OF m(2)])
qed

interpretation direct: key_service "direct_svc b ext junk" "direct_inv ext" "pk_texts ext" "key_signature ext" "draws_entropy b ext"
  for b :: build and ext :: "'p ext" and junk
proof (unfold_locales, goal_cases)
  case (1 s) then show ?case using pk_texts_wf unfolding direct_inv_def by blast
next
  case (2 s) then show ?case by (simp add: direct_inv_def direct_svc_def keystore_size_texts)
next
  case (3 s info) then show ?case using keygen_contract [of ext s info b] by (auto simp: direct_inv_def direct_svc_def)
next
  case (4 s buf i) then show ?case
    using get_key_total [of ext s buf i] by (simp add: direct_inv_def direct_svc_def pk_texts_def)
next
  case (5 s rs) then show ?case by (simp add: direct_inv_def direct_svc_def get_keys_contract)
next
  case (6 s pk m)
  then have "m \<noteq> []" by auto
  with 6 show ?case
    using sign_pk_eq [of ext s m junk pk "''''"]
    by (cases "find_pk ext pk (hsm_keys s)")
       (simp_all add: direct_inv_def direct_svc_def find_text_pk key_signature_def signed_bytes_def strip0x_hex)
next
  case (7 s) then show ?case
    using reset_inv [OF hsm_inv_shape, of ext s] by (simp add: direct_inv_def direct_svc_def pk_texts_def reset_keys)
next
  case (8 s sk) then show ?case using import_contract [of ext s sk b] by (auto simp: direct_inv_def direct_svc_def)
qed

interpretation tfm: key_service "tfm_svc spm junk" "tfm_inv ext spm" "pk_texts ext" "key_signature ext" "draws_entropy Nrf_Tfm ext"
  for ext :: "'p ext" and spm junk
proof (unfold_locales, goal_cases)
  case (1 s) then show ?case using pk_texts_wf unfolding tfm_inv_def by blast
next
  case (2 s) then show ?case
    using tfm_get_keystore_size_refines [of ext spm s junk] hsm_inv_shape [of ext s] keystore_size_texts [of ext s]
    by (simp add: tfm_inv_def tfm_svc_def)
next
  case (3 s info) then show ?case using keygen_contract [of ext s info Nrf_Tfm]
    by (cases "draws_entropy Nrf_Tfm ext s") (auto simp: tfm_inv_def tfm_svc_def tfm_secure_keygen_refines)
next
  case (4 s buf i) then show ?case
    using tfm_get_key_refines [of ext spm s i buf] by (simp add: tfm_inv_def tfm_svc_def pk_texts_def)
next
  case (5 s rs) then show ?case
    using tfm_fetch_keys_eq [of ext spm s 0 "length rs" rs] by (simp add: tfm_inv_def tfm_svc_def pk_texts_def)
next
  case (6 s pk m) then show ?case
    using tfm_svc_sign [of ext spm s pk m junk]
    by (cases "find_pk ext pk (hsm_keys s)") (simp_all add: tfm_inv_def find_text_pk key_signature_def)
next
  case (7 s) then show ?case
    using reset_inv [OF hsm_inv_shape, of ext s] tfm_reset_refines [of ext spm s]
    by (simp add: tfm_inv_def tfm_svc_def pk_texts_def reset_keys)
next
  case (8 s sk) then show ?case using import_contract [of ext s sk Nrf_Tfm]
    by (auto simp: tfm_inv_def tfm_svc_def tfm_import_sk_refines)
qed

section \<open>Properties of the non-secure functions\<close>

lemma tfm_inv_direct: "tfm_inv ext spm st \<Longrightarrow> direct_inv ext st"
  by (simp add: tfm_inv_def direct_inv_def)

lemma demo_tfm_inv: "length sk = 32 \<Longrightarrow> tfm_inv demo_ext demo_spm (demo_hsm1 sk)" "tfm_inv demo_ext demo_spm demo_hsm"
  by (simp_all add: tfm_inv_def demo_delivers demo_sizes demo_hsm1_simps)

lemma demo_texts: "length sk = 32 \<Longrightarrow> pk_texts demo_ext (demo_hsm1 sk) = [pkhex demo_ext sk]" "pk_texts demo_ext demo_hsm = []"
  by (simp_all add: pk_texts_def demo_hsm1_simps)



text \<open>\<open>signature\<close> on every branch, through the partition: a public key of the wrong length or with a wrong
  character is reported as such, an unknown one as not stored, and for a stored one, given with or
  without 0x, the buffer holds the signature of the first key with that public key.\<close>

theorem signature_spec:
  assumes "tfm_inv ext spm st" and "length m = 64" and "list_all is_hex m"
  shows "signature (tfm_svc spm junk) pk m '''' st = Some (
    if length (strip0x pk) \<noteq> 96 then (BADPKLEN, ''Incorrect public key length. It must be 96 characters long\<newline>'', st)
    else if \<not> list_all is_hex (strip0x pk) then (BADFORMAT, ''Public key contains incorrect characters.\<newline>'', st)
    else case find_pk ext (strip0x pk) (hsm_keys st) of
      None \<Rightarrow> (PKNOTFOUND, ''Public key isn't stored\<newline>'', st)
    | Some i \<Rightarrow> (0, signature_of ext (hsm_keys st ! i) (hexbytes m), st))"
  using tfm.signature_outcome [OF assms, of junk pk, unfolded key_signature_def] find_text_pk [of "strip0x pk" ext st]
  by (cases "length (strip0x pk) = 96") simp_all

theorem signature_spec_witness:
  "signature (tfm_svc demo_spm (\<lambda>_. 0)) ''0x12'' (hexstr (replicate 32 2)) '''' demo_hsm =
     Some (BADPKLEN, ''Incorrect public key length. It must be 96 characters long\<newline>'', demo_hsm)"
  using signature_spec [OF demo_tfm_inv(2), of "hexstr (replicate 32 2)" "\<lambda>_. 0" "''0x12''"]
  by (simp add: strip0x_def has0x_def)

text \<open>C28: \<open>keygen\<close> through the partition. A full keystore is reported; otherwise one key is added and its public key
  is printed with its index returned. When the entropy source fails, the error code is used as an
  index and the partition reads outside its store.\<close>

theorem keygen_spec:
  assumes "tfm_inv ext spm st"
  shows "if length (hsm_keys st) = 10
    then keygen (tfm_svc spm junk) jk data buff st =
      Some (KEYSLIMIT, buff @ ''Can't generate more keys. Limit reached.\<newline>'', st)
    else if fst (keygen_ikm Nrf_Tfm ext (plat st)) = PSA_SUCCESS
    then \<exists>st' k. tfm_inv ext spm st' \<and> pk_texts ext st' = pk_texts ext st @ [k] \<and>
      keygen (tfm_svc spm junk) jk data buff st = Some (int (length (hsm_keys st)), buff @ ''0x'' @ k @ ''\<newline>'', st')
    else keygen (tfm_svc spm junk) jk data buff st = None"
proof -
  have len: "length (pk_texts ext st) = length (hsm_keys st)"
    by (simp add: pk_texts_def)
  have "length (hsm_keys st) \<le> 10"
    using tfm.keys_wf [OF assms] len by simp
  then show ?thesis
    using tfm.keygen_full [OF assms, of junk jk data buff] tfm.keygen_outcome [OF assms, of junk jk data buff]
    unfolding len draws_entropy_def by (cases "length (hsm_keys st) = 10") simp_all
qed

theorem keygen_spec_witness:
  "\<exists>st' k. pk_texts demo_ext st' = [k] \<and>
     keygen (tfm_svc demo_spm (\<lambda>_. 0)) (\<lambda>_. 0) '''' '''' demo_hsm = Some (0, ''0x'' @ k @ ''\<newline>'', st')"
  using keygen_spec [OF demo_tfm_inv(2), of "\<lambda>_. 0" "\<lambda>_. 0" "''''" "''''"]
  by (auto simp: demo_texts demo_keygen_simps)

text \<open>C29: \<open>import\<close> through the partition, on every branch. A successful import and the import of a key that is
  already stored cannot be told apart: both return -99 and print nothing, because the code of a known
  key is tested with the wrong sign.\<close>

theorem import_spec:
  assumes "tfm_inv ext spm st"
  shows "\<exists>r out st'. import (tfm_svc spm junk) sk buff st = Some (r, buff @ out, st') \<and> tfm_inv ext spm st' \<and>
    (if length (hsm_keys st) = 10 then r = KEYSLIMIT \<and> out = ''Limit reached\<newline>'' \<and> st' = st
     else if length (strip0x sk) \<noteq> 64 then r = BADSKLEN \<and> out = ''Incorrect secret key length\<newline>'' \<and> st' = st
     else if \<not> list_all is_hex (strip0x sk) then r = BADFORMAT \<and> out = ''Incorrect characters\<newline>'' \<and> st' = st
     else r = -99 \<and> out = '''' \<and>
       (pk_texts ext st' = pk_texts ext st \<or> (\<exists>k. pk_texts ext st' = pk_texts ext st @ [k])))"
  using tfm.import_outcome [OF assms, of junk sk buff] by (simp add: pk_texts_def)

theorem import_spec_witness:
  "import (tfm_svc demo_spm (\<lambda>_. 0)) ''0x1'' '''' demo_hsm = Some (BADSKLEN, ''Incorrect secret key length\<newline>'', demo_hsm)"
  using import_spec [OF demo_tfm_inv(2), of "\<lambda>_. 0" "''0x1''" "''''"] by (auto simp: strip0x_def has0x_def)

text \<open>\<open>print_keys_Json\<close> through the partition prints the stored public keys in order as a JSON list of strings;
  an empty keystore is printed as a list with one empty string.\<close>

theorem print_keys_Json_spec:
  assumes "tfm_inv ext spm st"
  shows "print_keys_Json (tfm_svc spm junk) jk '''' st = Some (int (length (hsm_keys st)),
      ''{\"keys\":[\"'' @ concat (map (\<lambda>i. pkhex ext (hsm_keys st ! i) @
         (if Suc i < length (hsm_keys st) then ''\",\<newline>\"'' else '''')) [0..<length (hsm_keys st)]) @ ''\"]}\<newline>'', st)"
proof -
  have "map (\<lambda>i. pk_texts ext st ! i @ (if Suc i < length (pk_texts ext st) then ''\",\<newline>\"'' else ''''))
      [0..<length (pk_texts ext st)] = map (\<lambda>i. pkhex ext (hsm_keys st ! i) @
      (if Suc i < length (hsm_keys st) then ''\",\<newline>\"'' else '''')) [0..<length (hsm_keys st)]"
    by (simp add: pk_texts_def)
  then show ?thesis
    using tfm.print_keys_outcome [OF assms, of junk jk "''''"] by (simp only: append_Nil) (simp add: pk_texts_def)
qed

theorem print_keys_Json_spec_witness:
  "print_keys_Json (tfm_svc demo_spm (\<lambda>_. 0)) (\<lambda>_. 0) '''' demo_hsm = Some (0, ''{\"keys\":[\"\"]}\<newline>'', demo_hsm)"
  using print_keys_Json_spec [OF demo_tfm_inv(2)] by simp

text \<open>The sizes of the hashes: \<open>hash_length\<close> shows the second part for \<^const>\<open>hash\<close>.\<close>

definition hash_sizes :: "kdf \<Rightarrow> bool" where
  "hash_sizes kdf \<longleftrightarrow> (\<forall>bs. length (sha256 kdf bs) = 32) \<and> (\<forall>out bs r. length out = 32 \<longrightarrow> nrf_hash kdf out bs = Some r \<longrightarrow> length r = 32)"

lemma checksum_text_None:
  assumes "hash_sizes kdf"
  shows "bin2hex (sha256 kdf pre) 32 (chars (stack_arr junk 64)) 64 = None"
    and "nrf_hash kdf (stack_arr junk 32) pre = Some h \<Longrightarrow> bin2hex h 32 (chars (stack_arr junk 64)) 64 = None"
proof -
  have n: "bin2hex h 32 (chars (stack_arr junk 64)) 64 = None" if "length h = 32" for h
    using bin2hex_small [of h 32 "chars (stack_arr junk 64)"] that by simp
  show "bin2hex (sha256 kdf pre) 32 (chars (stack_arr junk 64)) 64 = None" by (rule n) (use assms in \<open>simp add: hash_sizes_def\<close>)
  show "bin2hex h 32 (chars (stack_arr junk 64)) 64 = None" if "nrf_hash kdf (stack_arr junk 32) pre = Some h"
    by (rule n) (use assms that length_stack_arr [of junk 32] in \<open>unfold hash_sizes_def, blast\<close>)
qed

text \<open>The password check of a key file. For every well-formed ciphertext and every checksum, \<open>verify_password\<close>
  writes behind its 64-character array before it compares: the text of a 32-byte hash needs 65.\<close>

theorem verify_password_overflow:
  assumes "cipher \<noteq> []" and "even (length cipher)" and "list_all is_hex cipher" and "32 \<le> length key" and "hash_sizes kdf"
  shows "verify_password b kdf junk checksum cipher key = None"
proof -
  obtain n where "length cipher = 2 * n" and "n \<noteq> 0"
    using assms(1,2) by (metis dvdE length_0_conv mult_0_right)
  then have "length cipher div 2 \<noteq> 0" "length cipher mod 2 = 0"
    by simp_all
  then have "hex2bin cipher (length cipher) (stack_arr junk (length cipher div 2)) (length cipher div 2) =
      Some (length cipher div 2, hexbytes cipher)"
    using hex2bin_all [OF assms(3) refl, of "stack_arr junk (length cipher div 2)"] by simp
  then show ?thesis
    using \<open>length cipher div 2 \<noteq> 0\<close> assms(4) checksum_text_None [OF assms(5)]
    by (cases "nrf_hash kdf (stack_arr junk 32) (take 16 (drop 16 key) @ hexbytes cipher)") (simp_all add: verify_password_def pre_image_def)
qed

definition demo_cipher :: cipher_ext where
  "demo_cipher = \<lparr>cipher_init = 0, psa_import_key = \<lambda>_. 0, psa_cipher_encrypt_setup = \<lambda>_. 0, psa_cipher_set_iv = \<lambda>_ _. 0,
     psa_cipher_update = \<lambda>_ _ m. (0, take 16 m), psa_cipher_finish = \<lambda>_ _ m. (0, drop 16 m), ocrypto_aes_ctr_decrypt = \<lambda>m _ _. m\<rparr>"

definition demo_kdf :: kdf where
  "demo_kdf = \<lparr>wc_scrypt = \<lambda>pw salt n r p l. pad 32 salt, sha256 = pad 32, aes_ctr = \<lambda>k iv m. m,
     pkcs5_pbkdf2_hmac = \<lambda>pw salt c l. Some (pad (nat l) salt), nrf_hash = \<lambda>out m. Some (pad 32 m), nrf_cipher = demo_cipher\<rparr>"

lemma demo_hash_sizes [simp]: "hash_sizes demo_kdf"
  by (simp add: hash_sizes_def demo_kdf_def)

theorem verify_password_overflow_witness:
  "verify_password Nrf_Tfm demo_kdf (\<lambda>_. 0) '''' (hexstr (replicate 32 1)) (replicate 32 0) = None"
proof -
  have "hexstr (replicate 32 1) \<noteq> []"
    by (metis length_0_conv length_hexstr length_replicate mult_eq_0_iff zero_neq_numeral)
  then show ?thesis
    using verify_password_overflow [of "hexstr (replicate 32 1)" "replicate 32 0" demo_kdf Nrf_Tfm "\<lambda>_. 0" "''''"] by simp
qed

theorem aes128ctr_decrypts_witness:
  "aes128ctr Nrf_Tfm demo_cipher (replicate 16 1) (replicate 16 2) (replicate 32 3) (replicate 33 0) = Some (replicate 32 3 @ [0])"
proof -
  have "cipher_works demo_cipher (\<lambda>_ _ m. m)" by (simp add: cipher_works_def demo_cipher_def)
  from aes128ctr_decrypts [OF this] show ?thesis by simp
qed

text \<open>A decryption that works in the build at hand.\<close>

definition decrypts :: "build \<Rightarrow> kdf \<Rightarrow> (bytes \<Rightarrow> bytes \<Rightarrow> bytes \<Rightarrow> bytes) \<Rightarrow> bool" where
  "decrypts b kdf aes \<longleftrightarrow>
     (if b = Native then aes_ctr kdf = aes \<and> (\<forall>k v m. length m = 32 \<longrightarrow> length (aes k v m) = 32) else cipher_works (nrf_cipher kdf) aes)"

lemma decrypted:
  assumes "decrypts b kdf aes" and "16 \<le> length key" and "length iv = 16" and "length m = 32" and "32 \<le> length out"
  shows "(if b = Native then blit out (aes_ctr kdf (take 16 key) iv m) else aes128ctr b (nrf_cipher kdf) key iv m out) =
    Some (aes (take 16 key) iv m @ drop 32 out)" and "length (aes (take 16 key) iv m) = 32"
proof -
  show l: "length (aes (take 16 key) iv m) = 32" using assms(1,4) by (auto simp: decrypts_def cipher_works_def split: if_splits)
  show "(if b = Native then blit out (aes_ctr kdf (take 16 key) iv m) else aes128ctr b (nrf_cipher kdf) key iv m out) =
    Some (aes (take 16 key) iv m @ drop 32 out)"
    using aes128ctr_decrypts [of "nrf_cipher kdf" aes key iv m out b] assms l by (simp add: decrypts_def c_simps split: if_splits)
qed

lemma get_private_key_decrypts:
  assumes "decrypts b kdf aes" and "16 \<le> length key" and "length iv = 32" and "list_all is_hex iv"
    and "length cipher = 64" and "list_all is_hex cipher" and "32 \<le> length private_key"
  shows "get_private_key b kdf svc junk cipher iv key private_key s = do {
    let k = aes (take 16 key) (hexbytes iv) (hexbytes cipher);
    private_key \<leftarrow> put (k @ drop 32 private_key) 64 0;
    (_, _, s) \<leftarrow> import svc (hexstr k) '''' s;
    Some (0, private_key, s)
  }"
proof -
  let ?k = "aes (take 16 key) (hexbytes iv) (hexbytes cipher)"
  have "hex2bin cipher 64 (stack_arr junk 32) 32 = Some (32, hexbytes cipher)"
    using hex2bin_all [OF assms(6,5), of "stack_arr junk 32"] by simp
  moreover have "hex2bin iv 32 (stack_arr junk 16) 16 = Some (16, hexbytes iv)"
    using hex2bin_all [OF assms(4,3), of "stack_arr junk 16"] by simp
  moreover note d = decrypted [OF assms(1,2), of "hexbytes iv" "hexbytes cipher" private_key]
  moreover have "bin2hex_todo (?k @ drop 32 private_key) 32 (chars (stack_arr junk 65)) 64 = Some (64, hexstr ?k @ [nul])"
    using d(2) assms(3,5,7) bin2hex_prefix [of 32 "?k @ drop 32 private_key" "chars (stack_arr junk 65)" 64] by (simp add: length_hexbytes)
  ultimately show ?thesis
    using assms by (simp add: get_private_key_def length_hexbytes Let_def cstr_terminated nul_hexstr)
qed

text \<open>Decrypting a key file, in every build. With room for 65 characters the decrypted block is imported, as hexadecimal text.\<close>

theorem get_private_key_imports:
  assumes "decrypts b kdf aes" and "16 \<le> length key" and "length iv = 32" and "list_all is_hex iv"
    and "length cipher = 64" and "list_all is_hex cipher" and "65 \<le> length private_key"
    and "import svc (hexstr (aes (take 16 key) (hexbytes iv) (hexbytes cipher))) '''' s = Some (r, out, s')"
  shows "\<exists>private_key'. get_private_key b kdf svc junk cipher iv key private_key s = Some (0, private_key', s')"
  using get_private_key_decrypts [OF assms(1-6), of private_key svc junk s] assms(7,8)
    decrypted(2) [OF assms(1,2), of "hexbytes iv" "hexbytes cipher" private_key] assms(3,5)
  by (simp add: Let_def c_simps length_hexbytes)

text \<open>The callers pass an array of 32 bytes, and then \<open>get_private_key\<close> writes element 64 of that array, outside it.\<close>

theorem get_private_key_overflow:
  assumes "decrypts b kdf aes" and "16 \<le> length key" and "length iv = 32" and "list_all is_hex iv"
    and "length cipher = 64" and "list_all is_hex cipher" and "length private_key = 32"
  shows "get_private_key b kdf svc junk cipher iv key private_key s = None"
  using get_private_key_decrypts [OF assms(1-6), of private_key svc junk s] assms(7)
    decrypted(2) [OF assms(1,2), of "hexbytes iv" "hexbytes cipher" private_key] assms(3,5)
  by (simp add: Let_def c_simps length_hexbytes)

lemma demo_decrypts: "decrypts b demo_kdf (\<lambda>_ _ m. m)"
  by (simp add: decrypts_def demo_kdf_def demo_cipher_def cipher_works_def fun_eq_iff)

theorem get_private_key_overflow_witness:
  "get_private_key Nrf_Wifi demo_kdf (tfm_svc demo_spm (\<lambda>_. 0)) (\<lambda>_. 0) (hexstr (replicate 32 1)) (hexstr (replicate 16 1))
     (replicate 32 0) (replicate 32 0) demo_hsm = None"
  by (rule get_private_key_overflow [OF demo_decrypts]) (simp_all add: list_all_iff is_hex_hexstr)

text \<open>When the PSA library cannot be started, \<open>get_private_key\<close> still reports success: the text that it imports is that of whatever bytes the caller's
  array held.\<close>

theorem get_private_key_silent:
  assumes "b = Nrf_Tfm" and "cipher_init (nrf_cipher kdf) \<noteq> 0" and "length iv = 32" and "list_all is_hex iv"
    and "length cipher = 64" and "list_all is_hex cipher" and "65 \<le> length private_key"
    and "import svc (hexstr (take 32 private_key)) '''' s = Some (r, out, s')"
  shows "get_private_key b kdf svc junk cipher iv key private_key s = Some (0, private_key[64 := 0], s')"
proof -
  have "hex2bin cipher 64 (stack_arr junk 32) 32 = Some (32, hexbytes cipher)"
    using hex2bin_all [OF assms(6,5), of "stack_arr junk 32"] by simp
  moreover have "hex2bin iv 32 (stack_arr junk 16) 16 = Some (16, hexbytes iv)"
    using hex2bin_all [OF assms(4,3), of "stack_arr junk 16"] by simp
  moreover have "aes128ctr b (nrf_cipher kdf) key v m out = Some out" for v m out using assms(1,2) by (simp add: aes128ctr_def)
  moreover have "bin2hex_todo private_key 32 (chars (stack_arr junk 65)) 64 = Some (64, hexstr (take 32 private_key) @ [nul])"
    using bin2hex_prefix [of 32 private_key "chars (stack_arr junk 65)" 64] assms(7) by simp
  ultimately show ?thesis
    using assms by (simp add: get_private_key_def Let_def cstr_terminated nul_hexstr c_simps)
qed

theorem get_private_key_silent_witness:
  "\<exists>r out s'. import (direct_svc Native demo_ext (\<lambda>_. 0)) (hexstr (replicate 32 7)) '''' demo_hsm = Some (r, out, s') \<and>
    get_private_key Nrf_Tfm (demo_kdf\<lparr>nrf_cipher := demo_cipher\<lparr>cipher_init := -1\<rparr>\<rparr>) (direct_svc Native demo_ext (\<lambda>_. 0)) (\<lambda>_. 0)
      (hexstr (replicate 32 1)) (hexstr (replicate 16 1)) (replicate 32 0) (replicate 65 7) demo_hsm = Some (0, (replicate 65 7)[64 := 0], s')"
proof -
  have "\<not> Option.is_none (import (direct_svc Native demo_ext (\<lambda>_. 0)) (hexstr (replicate 32 7)) '''' demo_hsm)" by code_simp
  then obtain r out s' where i: "import (direct_svc Native demo_ext (\<lambda>_. 0)) (hexstr (replicate 32 7)) '''' demo_hsm = Some (r, out, s')"
    by (auto simp: Option.is_none_def)
  have "get_private_key Nrf_Tfm (demo_kdf\<lparr>nrf_cipher := demo_cipher\<lparr>cipher_init := -1\<rparr>\<rparr>) (direct_svc Native demo_ext (\<lambda>_. 0)) (\<lambda>_. 0)
      (hexstr (replicate 32 1)) (hexstr (replicate 16 1)) (replicate 32 0) (replicate 65 7) demo_hsm = Some (0, (replicate 65 7)[64 := 0], s')"
    by (rule get_private_key_silent) (use i in \<open>simp_all add: list_all_iff is_hex_hexstr\<close>)
  with i show ?thesis by blast
qed

section \<open>Reading the keystore\<close>

text \<open>The operations on the keystore that the signer uses for everything but an import, and that do not change it.\<close>

locale reading_service =
  fixes svc :: "'s svc" and ok :: bool
  assumes size_keeps: "ok \<Longrightarrow> svc_size svc s = Some (n, s') \<Longrightarrow> s' = s"
    and get_keys_keeps: "ok \<Longrightarrow> svc_get_keys svc rs s = Some (rs', s') \<Longrightarrow> s' = s"
    and sign_keeps: "ok \<Longrightarrow> svc_sign svc pk m b s = Some (r, b', s') \<Longrightarrow> s' = s"
begin

lemma signature_keeps: "ok \<Longrightarrow> signature svc pk m b s = Some (r, b', s') \<Longrightarrow> s' = s"
  by (auto simp: signature_def Let_def dest!: sign_keeps split: Option.bind_splits if_splits)

end

interpretation direct_reading: reading_service "direct_svc b ext junk" True for b ext junk
  by unfold_locales (auto simp: direct_svc_def)

lemma tfm_fetch_keeps:
  assumes "spm_delivers ext spm"
  shows "tfm_fetch_keys n i spm rs st = Some (rs', st') \<Longrightarrow> st' = st"
  by (induction n arbitrary: i rs st) (auto dest!: tfm_get_key_keeps [OF assms] split: Option.bind_splits)

interpretation tfm_reading: reading_service "tfm_svc spm junk" "spm_delivers ext spm" for spm junk and ext :: "'p ext"
  by unfold_locales (auto simp: tfm_svc_def dest: tfm_size_keeps tfm_fetch_keeps tfm_sign_keeps)

end
