(* ===== verification/Cli_Main.thy ===== *)
theory Cli_Main
  imports Bls_Hsm_Ns
begin

text \<open>
  \<^verbatim>\<open>src/cli/src/main.c\<close>: the shell commands of the command line application. Each command runs a function
  of \<^verbatim>\<open>bls_hsm_ns.c\<close> on the global \<open>buffer\<close>, prints it and clears it. A command is modelled by the text it
  prints, the buffer it leaves and the new state of the keystore. \<open>argv\<close> includes the name of the
  command; the shell guarantees the number of arguments each command is registered with.
\<close>

section \<open>Commands\<close>

type_synonym 's cmd_result = "(string \<times> string \<times> 's) option"

definition cmd_keygen :: "'s svc \<Rightarrow> (nat \<Rightarrow> byte) \<Rightarrow> string list \<Rightarrow> string \<Rightarrow> 's \<Rightarrow> 's cmd_result" where
  "cmd_keygen svc junk argv buffer s = do {
     (_, buffer, s) \<leftarrow> (if length argv = 1 then keygen svc junk '''' buffer s else keygen svc junk (argv ! 1) buffer s);
     Some (buffer, '''', s)
   }"

definition cmd_signature_message :: "'s svc \<Rightarrow> string list \<Rightarrow> string \<Rightarrow> 's \<Rightarrow> 's cmd_result" where
  "cmd_signature_message svc argv buffer s = do {
     (r, buffer, s) \<leftarrow> signature svc (argv ! 1) (argv ! 2) buffer s;
     Some (if r = 0 then ''Signature: \<newline>'' @ ''0x'' @ buffer @ ''\<newline>'' else buffer, '''', s)
   }"

definition cmd_signature_verification :: "'s svc \<Rightarrow> string list \<Rightarrow> string \<Rightarrow> 's \<Rightarrow> 's cmd_result" where
  "cmd_signature_verification svc argv buffer s = do {
     (_, buffer, s) \<leftarrow> verify svc (argv ! 1) (argv ! 2) (argv ! 3) buffer s;
     Some (buffer, '''', s)
   }"

definition cmd_get_keys :: "'s svc \<Rightarrow> (nat \<Rightarrow> byte) \<Rightarrow> string \<Rightarrow> 's \<Rightarrow> 's cmd_result" where
  "cmd_get_keys svc junk buffer s = do {
     (_, buffer, s) \<leftarrow> print_keys_Json svc junk buffer s;
     Some (buffer, '''', s)
   }"

definition cmd_reset :: "'s svc \<Rightarrow> string \<Rightarrow> 's \<Rightarrow> 's cmd_result" where
  "cmd_reset svc buffer s = do {
     (buffer, s) \<leftarrow> resetc svc buffer s;
     Some (buffer, '''', s)
   }"

text \<open>The text printed and the prompt set, if any.\<close>

definition cmd_prompt :: "string list \<Rightarrow> string \<times> string option" where
  "cmd_prompt argv =
     (if argv ! 1 = ''on'' then ('''', Some ''uart:~$ '')
      else if argv ! 1 = ''off'' then ('''', Some '''')
      else (''Usage: prompt on/off\<newline>'', None))"

definition cmd_import :: "'s svc \<Rightarrow> string list \<Rightarrow> string \<Rightarrow> 's \<Rightarrow> 's cmd_result" where
  "cmd_import svc argv buffer s = do {
     (_, buffer, s) \<leftarrow> import svc (argv ! 1) buffer s;
     Some (buffer, '''', s)
   }"

text \<open>The registered commands that use the buffer.\<close>

datatype command = Keygen "string option" | Sign string string | Verify string string string | Getkeys | Reset | Import string

definition run_command :: "'s svc \<Rightarrow> (nat \<Rightarrow> byte) \<Rightarrow> command \<Rightarrow> string \<Rightarrow> 's \<Rightarrow> 's cmd_result" where
  "run_command svc junk c buffer s = (case c of
     Keygen None \<Rightarrow> cmd_keygen svc junk [''keygen''] buffer s
   | Keygen (Some d) \<Rightarrow> cmd_keygen svc junk [''keygen'', d] buffer s
   | Sign pk m \<Rightarrow> cmd_signature_message svc [''signature'', pk, m] buffer s
   | Verify pk m sig \<Rightarrow> cmd_signature_verification svc [''verify'', pk, m, sig] buffer s
   | Getkeys \<Rightarrow> cmd_get_keys svc junk buffer s
   | Reset \<Rightarrow> cmd_reset svc buffer s
   | Import sk \<Rightarrow> cmd_import svc [''import'', sk] buffer s)"

primrec run_session :: "'s svc \<Rightarrow> (nat \<Rightarrow> byte) \<Rightarrow> command list \<Rightarrow> string \<Rightarrow> 's \<Rightarrow> (string list \<times> string \<times> 's) option" where
  "run_session svc junk [] buffer s = Some ([], buffer, s)"
| "run_session svc junk (c # cs) buffer s = do {
     (out, buffer, s) \<leftarrow> run_command svc junk c buffer s;
     (outs, buffer, s) \<leftarrow> run_session svc junk cs buffer s;
     Some (out # outs, buffer, s)
   }"

section \<open>Sessions\<close>

text \<open>A command that the keystore can serve without leaving its arrays: signing wants 64 digits, generation a working
  entropy source; verification is excluded.\<close>

definition servable_if :: "bool \<Rightarrow> command \<Rightarrow> bool" where
  "servable_if entropy c = (case c of
     Keygen _ \<Rightarrow> entropy
   | Sign pk m \<Rightarrow> length m = 64 \<and> list_all is_hex m
   | Verify _ _ _ \<Rightarrow> False
   | _ \<Rightarrow> True)"

definition servable :: "'p ext \<Rightarrow> command \<Rightarrow> bool" where
  "servable ext c = servable_if (\<forall>p. fst (keygen_ikm Nrf_Tfm ext p) = PSA_SUCCESS) c"

lemma length_text_list:
  "\<forall>k \<in> set ks. length k = 96 \<Longrightarrow>
   length (concat (map (\<lambda>i. ks ! i @ (if Suc i < length ks then ''\",\<newline>\"'' else '''')) [0..<length ks])) \<le> 100 * length ks"
proof -
  assume len: "\<forall>k \<in> set ks. length k = 96"
  have "length (concat (map f [0..<n])) \<le> 100 * n" if "\<And>i. i < n \<Longrightarrow> length (f i) \<le> 100" for f :: "nat \<Rightarrow> string" and n
    using that by (induction n) (auto simp: add_mono less_Suc_eq, fastforce)
  then show ?thesis
    using len by simp
qed

text \<open>The commands over any keystore that keeps the contract, with signatures of 192 characters.\<close>

locale console_service = key_service +
  assumes sig_length: "invar s \<Longrightarrow> length (sig_of s i m) = 192"
begin

lemma keygen_step:
  assumes inv: "invar s" and ent: "entropy_ok s"
  shows "\<exists>r out s'. keygen svc jk d '''' s = Some (r, out, s') \<and> invar s' \<and> length out < 2048"
proof (cases "length (keys s) = 10")
  case True
  then show ?thesis
    using keygen_full [OF inv True, of jk d "''''"] inv by simp
next
  case False
  then have "length (keys s) < 10"
    using keys_wf [OF inv] by simp
  from keygen_outcome [OF inv this, of jk d "''''"] ent
  obtain s' k where s': "invar s'" "keys s' = keys s @ [k]"
    "keygen svc jk d '''' s = Some (int (length (keys s)), ''0x'' @ k @ ''\<newline>'', s')"
    by auto
  moreover have "length k = 96"
    using keys_wf [OF s'(1)] s'(2) by simp
  ultimately show ?thesis by auto
qed

lemma command_step:
  assumes inv: "invar s" and c: "servable_if (entropy_ok s) c"
  shows "\<exists>out s'. run_command svc jk c '''' s = Some (out, '''', s') \<and> invar s' \<and> length out < 2048"
proof (cases c)
  case (Keygen d)
  then have "entropy_ok s"
    using c by (simp add: servable_if_def)
  from keygen_step [OF inv this, of jk "case d of None \<Rightarrow> [] | Some x \<Rightarrow> x"] Keygen show ?thesis
    by (cases d) (auto simp: run_command_def cmd_keygen_def)
next
  case (Sign pk m)
  then have m: "length m = 64" "list_all is_hex m"
    using c by (simp_all add: servable_if_def)
  with Sign show ?thesis
    using signature_outcome [OF inv m, of pk] inv sig_length [OF inv]
    by (cases "find_text (strip0x pk) (keys s)")
       (auto simp: run_command_def cmd_signature_message_def)
next
  case (Verify pk m sig)
  then show ?thesis using c by (simp add: servable_if_def)
next
  case Getkeys
  have wf: "length (keys s) \<le> 10" "\<forall>k \<in> set (keys s). length k = 96"
    using keys_wf [OF inv] by auto
  with Getkeys show ?thesis
    using print_keys_outcome [OF inv, of jk "''''"] inv length_text_list [OF wf(2)]
    by (simp add: run_command_def cmd_get_keys_def)
next
  case Reset
  then show ?thesis
    using reset_outcome [OF inv, of "''''"] by (auto simp: run_command_def cmd_reset_def)
next
  case (Import sk)
  obtain r out s' where "import svc sk '''' s = Some (r, '''' @ out, s')" "invar s'" "length out < 2048"
    using import_outcome [OF inv, of sk "''''"] by (auto split: if_splits)
  with Import show ?thesis
    by (auto simp: run_command_def cmd_import_def)
qed

lemma session_runs:
  assumes "invar s" and "\<forall>c \<in> set cs. servable_if (\<forall>s. entropy_ok s) c"
  shows "\<exists>outs s'. run_session svc jk cs '''' s = Some (outs, '''', s') \<and> invar s' \<and>
    length outs = length cs \<and> (\<forall>out \<in> set outs. length out < 2048)"
  using assms
proof (induction cs arbitrary: s)
  case (Cons c cs)
  have "servable_if (entropy_ok s) c"
    using Cons.prems(2) by (auto simp: servable_if_def split: command.splits)
  from command_step [OF Cons.prems(1) this, of jk] obtain out s1 where
    "run_command svc jk c '''' s = Some (out, '''', s1)" "invar s1" "length out < 2048"
    by blast
  then show ?case
    using Cons.IH [of s1] Cons.prems(2) by fastforce
qed simp

end

interpretation tfm_console: console_service "tfm_svc spm junk" "tfm_inv ext spm" "pk_texts ext" "key_signature ext" "draws_entropy Nrf_Tfm ext"
  for ext :: "'p ext" and spm junk
  by unfold_locales (simp add: tfm_inv_def key_signature_def length_signature_of)

lemma servable_entropy: "servable ext c \<Longrightarrow> servable_if (\<forall>s. draws_entropy Nrf_Tfm ext s) c"
  by (auto simp: servable_def servable_if_def draws_entropy_def split: command.splits)



text \<open>What the signing command prints: the signature after a heading and the prefix 0x when there is one, and
  the explanation otherwise.\<close>

theorem cmd_signature_prints:
  assumes "tfm_inv ext spm st" and "length m = 64" and "list_all is_hex m" and "hex_arg 96 pk"
  shows "cmd_signature_message (tfm_svc spm junk) [''signature'', pk, m] '''' st = Some (
    case find_pk ext (strip0x pk) (hsm_keys st) of
      None \<Rightarrow> (''Public key isn't stored\<newline>'', '''', st)
    | Some i \<Rightarrow> (''Signature: \<newline>'' @ ''0x'' @ signature_of ext (hsm_keys st ! i) (hexbytes m) @ ''\<newline>'', '''', st))"
  using tfm.signature_outcome [OF assms(1-3), of junk pk] find_text_pk [of "strip0x pk" ext st] assms(4)
  by (cases "find_pk ext (strip0x pk) (hsm_keys st)")
     (simp_all add: cmd_signature_message_def hex_arg_def key_signature_def)

theorem cmd_signature_prints_witness:
  "cmd_signature_message (tfm_svc demo_spm (\<lambda>_. 0)) [''signature'', hexstr (replicate 48 1), hexstr (replicate 32 2)] '''' demo_hsm =
     Some (''Public key isn't stored\<newline>'', '''', demo_hsm)"
  using cmd_signature_prints [OF demo_tfm_inv(2), of "hexstr (replicate 32 2)" "hexstr (replicate 48 1)"]
  by (simp add: hex_arg_def find_pk_def)

end
