(* ===== verification/Board.thy ===== *)
theory Board
  imports Common
begin

text \<open>
  The board around the remote signer: the lights and the button of \<^verbatim>\<open>src/remote-signer/src/main.c\<close>, the credentials and TLS options of
  \<^verbatim>\<open>src/lib/tcp.c\<close> and \<^verbatim>\<open>src/remote-signer-7002/src/main.c\<close>, and how \<open>main\<close> starts the serial line or the connection to the bridge. What the drivers, the modem and the
  sockets return are arguments.
\<close>

unbundle bit_operations_syntax

section \<open>Lights and button\<close>

datatype led = RED | GREEN | BLUE

record lights =
  pin :: "led \<Rightarrow> bool"
  on :: bool
  red :: bool
  green :: bool
  blue :: bool
  pressed :: bool

definition set_leds :: "bool \<Rightarrow> bool \<Rightarrow> bool \<Rightarrow> lights \<Rightarrow> lights" where
  "set_leds r g b l = l\<lparr>pin := (\<lambda>x. case x of RED \<Rightarrow> r | GREEN \<Rightarrow> g | BLUE \<Rightarrow> b)\<rparr>"

definition set_blink :: "bool \<Rightarrow> bool \<Rightarrow> bool \<Rightarrow> lights \<Rightarrow> lights" where
  "set_blink r g b l = l\<lparr>red := r, green := g, blue := b\<rparr>"

definition blink_callback :: "lights \<Rightarrow> lights" where
  "blink_callback l = (set_leds (on l \<and> red l) (on l \<and> green l) (on l \<and> blue l) l)\<lparr>on := \<not> on l\<rparr>"

definition button_callback :: "32 word \<Rightarrow> 32 word \<Rightarrow> 32 word \<Rightarrow> lights \<Rightarrow> lights" where
  "button_callback btn1_msk button_state has_changed l =
     (if has_changed AND btn1_msk \<noteq> 0 \<and> button_state \<noteq> 0 then l\<lparr>pressed := True\<rparr> else l)"

text \<open>\<open>bound\<close> says which devices exist, \<open>configure\<close> what \<open>gpio_pin_configure\<close> returns; a pin is configured as an active output.\<close>

definition leds_init :: "(led \<Rightarrow> bool) \<Rightarrow> (led \<Rightarrow> int) \<Rightarrow> lights \<Rightarrow> int \<times> lights" where
  "leds_init bound configure l =
     (if \<not> bound RED then (-1, l)
      else if \<not> bound GREEN then (-1, l)
      else if \<not> bound BLUE then (-1, l)
      else if configure RED < 0 then (-1, l)
      else let l = l\<lparr>pin := (pin l)(RED := True)\<rparr> in
        if configure GREEN < 0 then (-1, l)
        else let l = l\<lparr>pin := (pin l)(GREEN := True)\<rparr> in
          if configure BLUE < 0 then (-1, l)
          else (0, set_leds False False False (l\<lparr>pin := (pin l)(BLUE := True)\<rparr>)))"

section \<open>Credentials and TLS\<close>

definition cred_delete :: "(int \<Rightarrow> int \<Rightarrow> int) \<Rightarrow> int \<Rightarrow> int \<Rightarrow> int" where
  "cred_delete modem_key_mgmt_delete slot t = (let err = modem_key_mgmt_delete slot t in if err \<noteq> 0 then err else 0)"

text \<open>The modem returns an error, and whether the certificate exists.\<close>

definition cred_exists :: "(int \<Rightarrow> int \<Rightarrow> int \<times> bool) \<Rightarrow> int \<Rightarrow> int \<Rightarrow> int" where
  "cred_exists modem_key_mgmt_exists slot t =
     (let (err, exists) = modem_key_mgmt_exists slot t in if err \<noteq> 0 then err else if exists then 1 else 0)"

datatype sockopt = TLS_PEER_VERIFY int | TLS_SEC_TAG_LIST "int list" | TLS_HOSTNAME string

definition REQUIRED :: int where "REQUIRED = 2"

text \<open>\<open>tls_setup\<close>: the result and the options that were set. \<open>add\<close> is what \<open>tls_credential_add\<close> returns on the build that registers the certificate
  first.\<close>

definition tls_setup :: "int option \<Rightarrow> (sockopt \<Rightarrow> int) \<Rightarrow> string \<Rightarrow> int \<Rightarrow> int \<times> sockopt list" where
  "tls_setup add setsockopt hostname slot = (
     let opts = [TLS_PEER_VERIFY REQUIRED, TLS_SEC_TAG_LIST [slot], TLS_HOSTNAME hostname] in
     if add \<noteq> None \<and> add \<noteq> Some 0 then (the add, [])
     else if setsockopt (opts ! 0) \<noteq> 0 then (setsockopt (opts ! 0), [])
     else if setsockopt (opts ! 1) \<noteq> 0 then (setsockopt (opts ! 1), take 1 opts)
     else if setsockopt (opts ! 2) \<noteq> 0 then (setsockopt (opts ! 2), take 2 opts)
     else (0, opts))"

text \<open>The copies in \<^verbatim>\<open>src/remote-signer-7002/src/main.c\<close>: the slot and the host are constants, and the certificate, a placeholder, is registered by a
  function of its own.\<close>

definition cert :: string where
  "cert = ''TODO'' @ [nul]"

definition TLS_SEC_TAG :: int where "TLS_SEC_TAG = 42"

definition HTTPS_HOSTNAME :: string where "HTTPS_HOSTNAME = ''example.com''"

definition cert_provision :: "(int \<Rightarrow> string \<Rightarrow> int) \<Rightarrow> int" where
  "cert_provision tls_credential_add = (let err = tls_credential_add TLS_SEC_TAG cert in if err < 0 then err else 0)"

definition tls_setup_7002 :: "(sockopt \<Rightarrow> int) \<Rightarrow> int \<times> sockopt list" where
  "tls_setup_7002 setsockopt = (
     let verify = TLS_PEER_VERIFY REQUIRED; err = setsockopt verify in
     if err \<noteq> 0 then (err, [])
     else let tags = TLS_SEC_TAG_LIST [TLS_SEC_TAG]; err = setsockopt tags in
       if err \<noteq> 0 then (err, [verify])
       else let name = TLS_HOSTNAME HTTPS_HOSTNAME; err = setsockopt name in
         if err \<noteq> 0 then (err, [verify, tags]) else (0, [verify, tags, name]))"

section \<open>Starting\<close>

text \<open>The connection to the bridge: what the libraries return. \<open>main\<close> does not look at the result of \<open>modem_configure\<close> and does not
  call \<open>tls_setup\<close>.\<close>

record bridge_env =
  thingy91 :: bool
  bound :: "led \<Rightarrow> bool"
  configure :: "led \<Rightarrow> int"
  getaddrinfo :: int
  socket :: int
  connect :: int

text \<open>The socket with the options set on it, or \<open>None\<close> when \<open>main\<close> has returned.\<close>

definition start_bridge :: "bridge_env \<Rightarrow> lights \<Rightarrow> (int \<times> sockopt list) option \<times> lights" where
  "start_bridge env l = (
     let (r, l) = (if thingy91 env then leds_init (bound env) (configure env) l else (0, l));
         fail = (None, set_leds True False False l)
     in if r \<noteq> 0 then (None, l)
        else if getaddrinfo env \<noteq> 0 then fail
        else if socket env < 0 then fail
        else if connect env \<noteq> 0 then fail
        else (Some (socket env, []), l))"

text \<open>The serial line: \<open>dtrs\<close> are the readings of the control line, until one is set. \<open>None\<close> means that \<open>main\<close> has not got past the loop.\<close>

primrec wait_dtr :: "32 word list \<Rightarrow> unit option" where
  "wait_dtr [] = None"
| "wait_dtr (d # ds) = (if d \<noteq> 0 then Some () else wait_dtr ds)"

definition start_uart :: "bool \<Rightarrow> int \<Rightarrow> 32 word list \<Rightarrow> bool option" where
  "start_uart ready usb_enable dtrs =
     (if \<not> ready then Some False else if usb_enable \<noteq> 0 then Some False else do { _ \<leftarrow> wait_dtr dtrs; Some True })"

section \<open>What they do\<close>

text \<open>Blinking: after \<open>n + 1\<close> calls of the timer the lights show the chosen colours or nothing, in turn, beginning with what \<open>on\<close> says.\<close>

lemma blink_on: "on ((blink_callback ^^ n) l) = (if even n then on l else \<not> on l) \<and>
    red ((blink_callback ^^ n) l) = red l \<and> green ((blink_callback ^^ n) l) = green l \<and> blue ((blink_callback ^^ n) l) = blue l"
  by (induction n) (auto simp: blink_callback_def set_leds_def)

theorem blink_alternates:
  "pin ((blink_callback ^^ Suc n) l) = (\<lambda>x. (on l \<longleftrightarrow> even n) \<and> (case x of RED \<Rightarrow> red l | GREEN \<Rightarrow> green l | BLUE \<Rightarrow> blue l))"
  using blink_on [of n l] by (auto simp: fun_eq_iff blink_callback_def set_leds_def split: led.splits)

text \<open>\<open>tls_setup\<close> succeeds exactly when every call does, and then the peer must be verified against the certificate of the slot and the name of
  the host; otherwise it returns the first error and has set the options before it.\<close>

theorem tls_setup_spec:
  "tls_setup add setsockopt hostname slot = (0, opts) \<longleftrightarrow>
    opts = [TLS_PEER_VERIFY REQUIRED, TLS_SEC_TAG_LIST [slot], TLS_HOSTNAME hostname] \<and>
    (\<forall>x\<in>set opts. setsockopt x = 0) \<and> (add = None \<or> add = Some 0)"
  by (auto simp: tls_setup_def Let_def)

text \<open>The two copies of \<open>tls_setup\<close> agree. Neither is called.\<close>

theorem tls_setup_7002_eq: "tls_setup_7002 setsockopt = tls_setup None setsockopt HTTPS_HOSTNAME TLS_SEC_TAG"
  by (simp add: tls_setup_7002_def tls_setup_def Let_def)

text \<open>The connection to the bridge is not authenticated: when \<open>main\<close> reaches its loop, the socket is connected and no TLS option, in particular no
  verification of the peer, has been set on it.\<close>

theorem bridge_not_verified:
  assumes "start_bridge env l = (Some (fd, opts), l')"
  shows "opts = [] \<and> 0 \<le> fd \<and> getaddrinfo env = 0 \<and> connect env = 0"
  using assms by (auto simp: start_bridge_def Let_def split: if_splits prod.splits)

definition demo_bridge :: bridge_env where
  "demo_bridge = \<lparr>thingy91 = True, bound = \<lambda>_. True, configure = \<lambda>_. 0, getaddrinfo = 0, socket = 3, connect = 0\<rparr>"

definition demo_lights :: lights where
  "demo_lights = \<lparr>pin = \<lambda>_. True, on = False, red = False, green = False, blue = False, pressed = False\<rparr>"

theorem bridge_not_verified_witness:
  "start_bridge demo_bridge demo_lights = (Some (3, []), set_leds False False False demo_lights) \<and> getaddrinfo demo_bridge = 0"
proof -
  have "start_bridge demo_bridge demo_lights = (Some (3, []), set_leds False False False demo_lights)"
    by (simp add: start_bridge_def demo_bridge_def leds_init_def set_leds_def)
  with bridge_not_verified [OF this] show ?thesis by simp
qed

text \<open>The lights after a start that failed: red alone, on a board with lights.\<close>

theorem start_failure_is_red:
  assumes "thingy91 env" and "fst (leds_init (bound env) (configure env) l) = 0" and "fst (start_bridge env l) = None"
  shows "pin (snd (start_bridge env l)) = (\<lambda>x. x = RED)"
  using assms by (auto simp: start_bridge_def Let_def set_leds_def fun_eq_iff split: if_splits prod.splits led.splits)

theorem start_failure_is_red_witness:
  "pin (snd (start_bridge (demo_bridge\<lparr>connect := 5\<rparr>) demo_lights)) = (\<lambda>x. x = RED)"
  by (rule start_failure_is_red) (simp_all add: start_bridge_def demo_bridge_def leds_init_def Let_def)

end
