(* ===== verification/Power_Cycles.thy ===== *)
theory Power_Cycles
  imports Cli_Main Board
begin

text \<open>
  The command line application from power-on to power-off, and again: \<open>main\<close> of \<^verbatim>\<open>src/cli/src/main.c\<close>, a session of commands, and the loss of everything
  but the protected storage. The keys outlive the power cycles.
\<close>

section \<open>Starting the console\<close>

text \<open>\<open>main\<close>: the partition is started first; its result is not looked at. On a build with a USB console, \<open>dev\<close> says whether the device exists, \<open>dtrs\<close> are
  the readings of the control line. The first result says whether \<open>main\<close> got past all of it.\<close>

definition cli_start :: "bool \<Rightarrow> bool \<Rightarrow> int \<Rightarrow> 32 word list \<Rightarrow> 'p spm \<Rightarrow> 'p hsm \<Rightarrow> (bool \<times> 'p hsm) option" where
  "cli_start usb_console dev usb_enable dtrs spm st = do {
     (_, st) \<leftarrow> tfm_init spm st;
     if \<not> usb_console then Some (True, st)
     else if \<not> dev \<or> usb_enable \<noteq> 0 then Some (False, st)
     else do { _ \<leftarrow> wait_dtr dtrs; Some (True, st) }
   }"

text \<open>A power cycle with a console: the readings of the control line and the commands of the session. The results are the keystore after the start, what the
  commands printed, and the keystore at the end, of which only the platform state, with the storage, goes over to the next cycle.\<close>

definition power_cycle :: "'p spm \<Rightarrow> (nat \<Rightarrow> byte) \<Rightarrow> (nat \<Rightarrow> byte) \<Rightarrow> 32 word list \<times> command list \<Rightarrow> 'p \<Rightarrow> ('p hsm \<times> string list \<times> 'p hsm) option" where
  "power_cycle spm junk jk c p = do {
     (_, st) \<leftarrow> cli_start True True 0 (fst c) spm (hsm_boot p);
     (outs, _, st') \<leftarrow> run_session (tfm_svc spm junk) jk (snd c) '''' st;
     Some (st, outs, st')
   }"

primrec power_cycles :: "'p spm \<Rightarrow> (nat \<Rightarrow> byte) \<Rightarrow> (nat \<Rightarrow> byte) \<Rightarrow> (32 word list \<times> command list) list \<Rightarrow> 'p \<Rightarrow>
    ('p hsm \<times> string list \<times> 'p hsm) list option" where
  "power_cycles spm junk jk [] p = Some []"
| "power_cycles spm junk jk (c # cs) p = do {
     r \<leftarrow> power_cycle spm junk jk c p;
     rs \<leftarrow> power_cycles spm junk jk cs (plat (snd (snd r)));
     Some (r # rs)
   }"

section \<open>A keystore that is in the storage\<close>

text \<open>The contract of the service with a stronger invariant: memory and storage agree.\<close>

definition stored_inv :: "'p ext \<Rightarrow> 'p spm \<Rightarrow> 'p hsm \<Rightarrow> bool" where
  "stored_inv ext spm st \<longleftrightarrow> tfm_inv ext spm st \<and> sp_env ext \<and> durable ext st"

lemma stored_invD:
  assumes "stored_inv ext spm st"
  shows "tfm_inv ext spm st" "sp_env ext" "durable ext st" "spm_delivers ext spm" "blst_sizes ext" "hsm_inv ext st" "storage_works ext"
  using assms by (simp_all add: stored_inv_def tfm_inv_def sp_env_def)

lemma stored_keygen:
  assumes "stored_inv ext spm s" and "length info = 32" and "svc_keygen (tfm_svc spm junk) info s = Some (r, s')" and "tfm_inv ext spm s'"
  shows "stored_inv ext spm s'"
  using assms keygen_durable [OF stored_invD(6,5,7,3) [OF assms(1)], of "Some info"] stored_invD [OF assms(1)]
  by (simp add: stored_inv_def tfm_svc_def tfm_secure_keygen_refines)

lemma stored_import:
  assumes "stored_inv ext spm s" and "length sk = 64" and "list_all is_hex sk" and "svc_import (tfm_svc spm junk) sk s = Some (r, s')" and "tfm_inv ext spm s'"
  shows "stored_inv ext spm s'"
  using assms import_durable [OF stored_invD(6,5,7,3) [OF assms(1)], of sk] stored_invD [OF assms(1)]
  by (simp add: stored_inv_def tfm_svc_def tfm_import_sk_refines)

lemma stored_reset:
  assumes "stored_inv ext spm s" and "svc_reset (tfm_svc spm junk) s = Some s'" and "tfm_inv ext spm s'"
  shows "stored_inv ext spm s'"
  using assms reset_durable [OF hsm_inv_shape [OF stored_invD(6) [OF assms(1)]] stored_invD(7) [OF assms(1)]] stored_invD [OF assms(1)]
    tfm_reset_refines [of ext spm s] hsm_inv_shape [of ext s]
  by (simp add: stored_inv_def tfm_svc_def)

interpretation stored: console_service "tfm_svc spm junk" "stored_inv ext spm" "pk_texts ext" "key_signature ext" "draws_entropy Nrf_Tfm ext"
  for ext :: "'p ext" and spm junk
proof (unfold_locales, goal_cases)
  case (1 s) then show ?case by (rule tfm.keys_wf [OF stored_invD(1)])
next
  case (2 s) then show ?case by (rule tfm.size_law [OF stored_invD(1)])
next
  case (3 s info) then show ?case using tfm.keygen_law [OF stored_invD(1), of ext spm s info junk] stored_keygen by metis
next
  case (4 s buf i) then show ?case by (rule tfm.get_key_law [OF stored_invD(1)])
next
  case (5 s rs) then show ?case by (rule tfm.get_keys_law [OF stored_invD(1)])
next
  case (6 s pk m) then show ?case by (rule tfm.sign_law [OF stored_invD(1)])
next
  case (7 s) then show ?case using tfm.reset_law [OF stored_invD(1), of ext spm s junk] stored_reset by metis
next
  case (8 s sk) then show ?case using tfm.import_law [OF stored_invD(1), of ext spm s sk junk] stored_import by metis
next
  case (9 s i m) then show ?case by (rule tfm_console.sig_length [OF stored_invD(1)])
qed

section \<open>Power cycles\<close>

lemma wait_dtr_set: "d \<in> set ds \<Longrightarrow> d \<noteq> 0 \<Longrightarrow> wait_dtr ds = Some ()"
  by (induction ds) auto

lemma cli_start_restores:
  assumes inv: "stored_inv ext spm st" and dtr: "\<exists>d\<in>set dtrs. d \<noteq> 0"
  shows "\<exists>st'. cli_start True True 0 dtrs spm (hsm_boot (plat st)) = Some (True, st') \<and> stored_inv ext spm st' \<and> hsm_keys st' = hsm_keys st"
proof -
  have "hsm_shape (hsm_boot (plat st))" "plat (hsm_boot (plat st)) = plat st"
    using hsm_inv_shape [OF hsm_inv_boot, of "plat st"] by (simp_all add: hsm_boot_def)
  from init_durable [OF stored_invD(5,6,7,3) [OF inv] this] obtain r st' where
    st': "init ext (hsm_boot (plat st)) = Some (r, st')" "hsm_inv ext st'" "durable ext st'" "hsm_keys st' = hsm_keys st"
    using sp_envD(3) [OF stored_invD(2) [OF inv]] by blast
  moreover have "wait_dtr dtrs = Some ()" using dtr wait_dtr_set by blast
  ultimately show ?thesis
    using tfm_init_refines [OF stored_invD(4) [OF inv]] stored_invD [OF inv] by (simp add: cli_start_def stored_inv_def tfm_inv_def)
qed

lemma power_cycle_runs:
  assumes inv: "stored_inv ext spm st" and dtr: "\<exists>d\<in>set (fst c). d \<noteq> 0" and cs: "\<forall>x\<in>set (snd c). servable ext x"
  shows "\<exists>st0 outs st'. power_cycle spm junk jk c (plat st) = Some (st0, outs, st') \<and> hsm_keys st0 = hsm_keys st \<and>
    stored_inv ext spm st0 \<and> stored_inv ext spm st' \<and> length outs = length (snd c)"
proof -
  obtain st0 where st0: "cli_start True True 0 (fst c) spm (hsm_boot (plat st)) = Some (True, st0)" "stored_inv ext spm st0" "hsm_keys st0 = hsm_keys st"
    using cli_start_restores [OF inv dtr] by blast
  have "\<forall>x\<in>set (snd c). servable_if (\<forall>s. draws_entropy Nrf_Tfm ext s) x" using cs servable_entropy by blast
  from stored.session_runs [OF st0(2) this, of junk jk] obtain outs st' where
    "run_session (tfm_svc spm junk) jk (snd c) '''' st0 = Some (outs, '''', st')" "stored_inv ext spm st'" "length outs = length (snd c)" by blast
  then show ?thesis using st0 by (simp add: power_cycle_def)
qed

text \<open>Each cycle starts with the keys with which the one before it ended.\<close>

fun keys_chain :: "bytes list \<Rightarrow> ('p hsm \<times> string list \<times> 'p hsm) list \<Rightarrow> bool" where
  "keys_chain ks [] = True"
| "keys_chain ks ((st0, outs, st') # rs) \<longleftrightarrow> hsm_keys st0 = ks \<and> keys_chain (hsm_keys st') rs"

text \<open>C4: The keys outlive power cycles. A device whose storage agrees with its memory is switched off and on any number of times; in each cycle the console comes up and
  runs any servable commands, which may generate, import and delete keys. All commands of all cycles are served, and every cycle starts with exactly the secret keys with which the
  one before it ended, beginning with those of the device.\<close>

theorem keys_outlive_power_cycles:
  assumes "stored_inv ext spm st" and "\<forall>c\<in>set cs. (\<exists>d\<in>set (fst c). d \<noteq> 0) \<and> (\<forall>x\<in>set (snd c). servable ext x)"
  shows "\<exists>rs. power_cycles spm junk jk cs (plat st) = Some rs \<and> keys_chain (hsm_keys st) rs \<and>
    map (\<lambda>(st0, outs, st'). length outs) rs = map (\<lambda>c. length (snd c)) cs \<and> (\<forall>(st0, outs, st')\<in>set rs. hsm_inv ext st0 \<and> hsm_inv ext st')"
  using assms
proof (induction cs arbitrary: st)
  case (Cons c cs)
  obtain st0 outs st' where r: "power_cycle spm junk jk c (plat st) = Some (st0, outs, st')" "hsm_keys st0 = hsm_keys st"
      "stored_inv ext spm st0" "stored_inv ext spm st'" "length outs = length (snd c)"
    using power_cycle_runs [OF Cons.prems(1), of c junk jk] Cons.prems(2) by auto
  obtain rs where "power_cycles spm junk jk cs (plat st') = Some rs" "keys_chain (hsm_keys st') rs"
      "map (\<lambda>(st0, outs, st'). length outs) rs = map (\<lambda>c. length (snd c)) cs" "\<forall>(st0, outs, st')\<in>set rs. hsm_inv ext st0 \<and> hsm_inv ext st'"
    using Cons.IH [OF r(4)] Cons.prems(2) by auto
  then show ?case using r stored_invD(6) [OF r(3)] stored_invD(6) [OF r(4)] by simp
qed simp

theorem keys_outlive_power_cycles_witness:
  "\<exists>rs. power_cycles demo_spm (\<lambda>_. 0) (\<lambda>_. 0) [([0, 1], [Keygen None, Getkeys]), ([1], [Getkeys, Reset])] (plat demo_hsm) = Some rs \<and>
    keys_chain [] rs \<and> map (\<lambda>(st0, outs, st'). length outs) rs = [2, 2]"
proof -
  have "stored_inv demo_ext demo_spm demo_hsm" using demo_tfm_inv(2) demo_env sp_invD(2) [OF demo_inv] by (simp add: stored_inv_def)
  moreover have "\<forall>c\<in>set [([0, 1], [Keygen None, Getkeys]), ([1], [Getkeys, Reset])]. (\<exists>d\<in>set (fst c). d \<noteq> (0 :: 32 word)) \<and> (\<forall>x\<in>set (snd c). servable demo_ext x)"
    by (simp add: servable_def servable_if_def demo_keygen_simps)
  ultimately obtain rs where
    "power_cycles demo_spm (\<lambda>_. 0) (\<lambda>_. 0) [([0, 1], [Keygen None, Getkeys]), ([1], [Getkeys, Reset])] (plat demo_hsm) = Some rs"
    "keys_chain (hsm_keys demo_hsm) rs" "map (\<lambda>(st0, outs, st'). length outs) rs = [2, 2]"
    using keys_outlive_power_cycles [of demo_ext demo_spm demo_hsm "[([0, 1], [Keygen None, Getkeys]), ([1], [Getkeys, Reset])]" "\<lambda>_. 0" "\<lambda>_. 0"] by auto
  moreover have "hsm_keys demo_hsm = []" by simp
  ultimately show ?thesis by simp
qed

text \<open>Without a reading of the control line that is set, the console never comes up.\<close>

theorem cli_start_waits:
  assumes "\<forall>d\<in>set dtrs. d = 0" and "dev" and "usb_enable = 0"
  shows "cli_start True dev usb_enable dtrs spm st = None"
proof -
  have "wait_dtr dtrs = None" using assms(1) by (induction dtrs) auto
  then show ?thesis using assms(2,3) by (cases "tfm_init spm st") (auto simp: cli_start_def)
qed

theorem cli_start_waits_witness: "cli_start True True 0 [0, 0] demo_spm demo_hsm = None"
  by (rule cli_start_waits) simp_all

end
