(* ===== verification/Tiny_Json.thy ===== *)
theory Tiny_Json
  imports Common
begin

text \<open>
  \<^verbatim>\<open>src/lib/tiny-json.c\<close> and \<^verbatim>\<open>src/lib/tiny-json.h\<close>: the parser that works in place on the text of a document and allocates
  its nodes from an array of the caller.

  Pointers into the text are offsets, pointers to nodes are indices into the array; a null pointer is the inner
  \<open>None\<close>. The outer \<open>None\<close> is an access outside the text or the array, or to the wrong member of the
  union. The loop of \<open>objValue\<close> has as many rounds as the text has characters, which is enough because
  every round consumes one; the walk along the children of a container has one round more than the array has nodes.

  The lemmas show that the parser never leaves the text or the array and always returns, that the nodes of a parsed document
  can all be read and followed, and that reading a string undoes its encoding.
\<close>

section \<open>Nodes\<close>

datatype jsonType = JSON_OBJ | JSON_ARRAY | JSON_TEXT | JSON_BOOLEAN | JSON_INTEGER | JSON_REAL | JSON_NULL

text \<open>The union: a value is a position in the text, a container has its first and its last child. The last child is set with
  the first one; a container without children has \<open>None\<close> there, and following it is an error.\<close>

datatype junion = Value nat | Children "nat option" "nat option"

record json_t =
  sibling :: "nat option"
  name :: "nat option"
  un :: junion
  type :: jsonType

text \<open>A pool is the array of nodes with the index of the next free one.\<close>

record jpool =
  mem :: "json_t list"
  nextFree :: nat

definition node :: "jpool \<Rightarrow> nat \<Rightarrow> json_t option" where
  "node p i = at (mem p) i"

definition set_node :: "jpool \<Rightarrow> nat \<Rightarrow> json_t \<Rightarrow> jpool option" where
  "set_node p i n = do { m \<leftarrow> put (mem p) i n; Some (p\<lparr>mem := m\<rparr>) }"

definition poolInit :: "jpool \<Rightarrow> jpool \<times> nat" where
  "poolInit p = (p\<lparr>nextFree := 1\<rparr>, 0)"

definition poolAlloc :: "jpool \<Rightarrow> jpool \<times> nat option" where
  "poolAlloc p = (if nextFree p \<ge> length (mem p) then (p, None) else (p\<lparr>nextFree := nextFree p + 1\<rparr>, Some (nextFree p)))"

section \<open>Characters\<close>

definition isOneOfThem :: "char \<Rightarrow> string \<Rightarrow> bool" where
  "isOneOfThem ch cs \<longleftrightarrow> ch \<in> set cs"

definition blank :: string where
  "blank = [CHR '' '', CHR 0x0A, CHR 0x0D, CHR 0x09, CHR 0x0C]"

definition endofblock :: string where
  "endofblock = ''}]''"

definition isEndOfPrimitive :: "char \<Rightarrow> bool" where
  "isEndOfPrimitive ch \<longleftrightarrow> ch = CHR '','' \<or> isOneOfThem ch blank \<or> isOneOfThem ch endofblock"

definition isxdigit :: "char \<Rightarrow> bool" where
  "isxdigit c \<longleftrightarrow> between (CHR ''0'') c (CHR ''9'') \<or> between (CHR ''a'') c (CHR ''f'') \<or> between (CHR ''A'') c (CHR ''F'')"

text \<open>Moving over the text.\<close>

function go_while :: "(char \<Rightarrow> bool) \<Rightarrow> char list \<Rightarrow> nat \<Rightarrow> nat option option" where
  "go_while P tx i = (case at tx i of
     None \<Rightarrow> None
   | Some c \<Rightarrow> if c = nul then Some None else if P c then go_while P tx (Suc i) else Some (Some i))"
  by pat_completeness auto
termination
  by (relation "measure (\<lambda>(P, tx, i). length tx - i)") (auto dest: at_SomeD)

declare go_while.simps [simp del]

definition goWhile :: "char list \<Rightarrow> nat \<Rightarrow> string \<Rightarrow> nat option option" where
  "goWhile tx str cs = go_while (\<lambda>c. isOneOfThem c cs) tx str"

definition goBlank :: "char list \<Rightarrow> nat \<Rightarrow> nat option option" where
  "goBlank tx str = goWhile tx str blank"

definition goNum :: "char list \<Rightarrow> nat \<Rightarrow> nat option option" where
  "goNum tx str = go_while is_digit tx str"

definition setToNull :: "char list \<Rightarrow> nat \<Rightarrow> (char list \<times> nat) option" where
  "setToNull tx ch = do {
     c \<leftarrow> at tx ch;
     if \<not> isOneOfThem c endofblock then do { tx \<leftarrow> put tx ch nul; Some (tx, ch + 1) }
     else Some (tx, ch)
   }"

section \<open>Strings\<close>

definition getEscape :: "char \<Rightarrow> char" where
  "getEscape ch = (case map_of
       [(CHR 0x22, CHR 0x22), (CHR 0x5C, CHR 0x5C), (CHR ''/'', CHR ''/''), (CHR ''b'', CHR 0x08), (CHR ''f'', CHR 0x0C),
        (CHR ''n'', CHR 0x0A), (CHR ''r'', CHR 0x0D), (CHR ''t'', CHR 0x09)] ch of
     None \<Rightarrow> nul | Some code \<Rightarrow> code)"

primrec unicode_loop :: "nat \<Rightarrow> nat \<Rightarrow> char list \<Rightarrow> char option" where
  "unicode_loop 0 i tx = Some (CHR ''?'')"
| "unicode_loop (Suc n) i tx = do {
     c \<leftarrow> at tx i;
     if \<not> isxdigit c then Some nul else unicode_loop n (Suc i) tx
   }"

definition getCharFromUnicode :: "char list \<Rightarrow> nat \<Rightarrow> char option" where
  "getCharFromUnicode tx str = unicode_loop 4 str tx"

function parse_string :: "char list \<Rightarrow> nat \<Rightarrow> nat \<Rightarrow> (char list \<times> nat option) option" where
  "parse_string tx head tail = (case at tx head of
     None \<Rightarrow> None
   | Some c \<Rightarrow>
       if c = nul then Some (tx, None)
       else if c = CHR 0x22 then (case put tx tail nul of None \<Rightarrow> None | Some tx \<Rightarrow> Some (tx, Some (head + 1)))
       else if c = CHR 0x5C then
         (case at tx (head + 1) of
            None \<Rightarrow> None
          | Some c1 \<Rightarrow>
              if c1 = CHR ''u'' then
                (case getCharFromUnicode tx (head + 2) of
                   None \<Rightarrow> None
                 | Some ch \<Rightarrow>
                     if ch = nul then Some (tx, None)
                     else (case put tx tail ch of None \<Rightarrow> None | Some tx' \<Rightarrow> parse_string tx' (head + 6) (tail + 1)))
              else
                let esc = getEscape c1 in
                if esc = nul then Some (tx, None)
                else (case put tx tail esc of None \<Rightarrow> None | Some tx' \<Rightarrow> parse_string tx' (head + 2) (tail + 1)))
       else (case put tx tail c of None \<Rightarrow> None | Some tx' \<Rightarrow> parse_string tx' (head + 1) (tail + 1)))"
  by pat_completeness auto
termination
  by (relation "measure (\<lambda>(tx, head, tail). length tx - head)") (auto dest!: at_SomeD length_put)

declare parse_string.simps [simp del]

definition parseString :: "char list \<Rightarrow> nat \<Rightarrow> (char list \<times> nat option) option" where
  "parseString tx str = parse_string tx str str"

definition propertyName :: "char list \<Rightarrow> jpool \<Rightarrow> nat \<Rightarrow> nat \<Rightarrow> (char list \<times> jpool \<times> nat option) option" where
  "propertyName tx p ptr property = do {
     n \<leftarrow> node p property;
     p \<leftarrow> set_node p property (n\<lparr>name := Some (ptr + 1)\<rparr>);
     (tx, r) \<leftarrow> parseString tx (ptr + 1);
     case r of None \<Rightarrow> Some (tx, p, None)
     | Some ptr \<Rightarrow> do {
         r \<leftarrow> goBlank tx ptr;
         case r of None \<Rightarrow> Some (tx, p, None)
         | Some ptr \<Rightarrow> do {
             c \<leftarrow> at tx ptr;
             if c \<noteq> CHR '':'' then Some (tx, p, None)
             else do { r \<leftarrow> goBlank tx (ptr + 1); Some (tx, p, r) }
           }
       }
   }"

definition textValue :: "char list \<Rightarrow> jpool \<Rightarrow> nat \<Rightarrow> nat \<Rightarrow> (char list \<times> jpool \<times> nat option) option" where
  "textValue tx p ptr property = do {
     n \<leftarrow> node p property;
     v \<leftarrow> (case un n of Value v \<Rightarrow> Some v | Children _ _ \<Rightarrow> None);
     p \<leftarrow> set_node p property (n\<lparr>un := Value (v + 1)\<rparr>);
     (tx, r) \<leftarrow> parseString tx (ptr + 1);
     case r of None \<Rightarrow> Some (tx, p, None)
     | Some ptr \<Rightarrow> do {
         n \<leftarrow> node p property;
         p \<leftarrow> set_node p property (n\<lparr>type := JSON_TEXT\<rparr>);
         Some (tx, p, Some ptr)
       }
   }"

section \<open>Primitive values\<close>

primrec checkStr :: "string \<Rightarrow> char list \<Rightarrow> nat \<Rightarrow> nat option option" where
  "checkStr [] tx ptr = Some (Some ptr)"
| "checkStr (s # ss) tx ptr = do {
     c \<leftarrow> at tx ptr;
     if c \<noteq> s then Some None else checkStr ss tx (ptr + 1)
   }"

definition primitiveValue :: "char list \<Rightarrow> jpool \<Rightarrow> nat \<Rightarrow> nat \<Rightarrow> string \<Rightarrow> jsonType \<Rightarrow> (char list \<times> jpool \<times> nat option) option" where
  "primitiveValue tx p ptr property value t = do {
     r \<leftarrow> checkStr value tx ptr;
     case r of None \<Rightarrow> Some (tx, p, None)
     | Some ptr \<Rightarrow> do {
         c \<leftarrow> at tx ptr;
         if \<not> isEndOfPrimitive c then Some (tx, p, None)
         else do {
           (tx, ptr) \<leftarrow> setToNull tx ptr;
           n \<leftarrow> node p property;
           p \<leftarrow> set_node p property (n\<lparr>type := t\<rparr>);
           Some (tx, p, Some ptr)
         }
       }
   }"

definition trueValue where
  "trueValue tx p ptr property = primitiveValue tx p ptr property ''true'' JSON_BOOLEAN"

definition falseValue where
  "falseValue tx p ptr property = primitiveValue tx p ptr property ''false'' JSON_BOOLEAN"

definition nullValue where
  "nullValue tx p ptr property = primitiveValue tx p ptr property ''null'' JSON_NULL"

section \<open>Numbers\<close>

definition expValue :: "char list \<Rightarrow> nat \<Rightarrow> nat option option" where
  "expValue tx ptr = do {
     c \<leftarrow> at tx ptr;
     let ptr = (if c = CHR ''-'' \<or> c = CHR ''+'' then ptr + 1 else ptr);
     c \<leftarrow> at tx ptr;
     if \<not> is_digit c then Some None else goNum tx (ptr + 1)
   }"

definition fraqValue :: "char list \<Rightarrow> nat \<Rightarrow> nat option option" where
  "fraqValue tx ptr = do {
     c \<leftarrow> at tx ptr;
     if \<not> is_digit c then Some None else goNum tx (ptr + 1)
   }"

text \<open>\<open>strcmp(a, b) < 0\<close>.\<close>

fun strcmp_less :: "string \<Rightarrow> string \<Rightarrow> bool" where
  "strcmp_less s [] = False"
| "strcmp_less [] (b # bs) = True"
| "strcmp_less (a # as) (b # bs) = (if a = b then strcmp_less as bs else ord8 a < ord8 b)"

text \<open>The sign and the integer part, the fraction, and the exponent: the pointer behind each, and the type so far.\<close>

definition num_int :: "char list \<Rightarrow> nat \<Rightarrow> nat option option" where
  "num_int tx ptr = do {
     c \<leftarrow> at tx ptr;
     let ptr = (if c = CHR ''-'' then ptr + 1 else ptr);
     c \<leftarrow> at tx ptr;
     if \<not> is_digit c then Some None
     else if c \<noteq> CHR ''0'' then goNum tx ptr
     else do { c \<leftarrow> at tx (ptr + 1); Some (if is_digit c then None else Some (ptr + 1)) }
   }"

definition num_frac :: "char list \<Rightarrow> nat \<Rightarrow> (nat \<times> jsonType) option option" where
  "num_frac tx ptr = do {
     c \<leftarrow> at tx ptr;
     if c = CHR ''.'' then do { r \<leftarrow> fraqValue tx (ptr + 1); Some (map_option (\<lambda>ptr. (ptr, JSON_REAL)) r) }
     else Some (Some (ptr, JSON_INTEGER))
   }"

definition num_exp :: "char list \<Rightarrow> nat \<Rightarrow> jsonType \<Rightarrow> (nat \<times> jsonType) option option" where
  "num_exp tx ptr t = do {
     c \<leftarrow> at tx ptr;
     if c = CHR ''e'' \<or> c = CHR ''E'' then do { r \<leftarrow> expValue tx (ptr + 1); Some (map_option (\<lambda>ptr. (ptr, JSON_REAL)) r) }
     else Some (Some (ptr, t))
   }"

definition set_type :: "jpool \<Rightarrow> nat \<Rightarrow> jsonType \<Rightarrow> jpool option" where
  "set_type p property t = do { n \<leftarrow> node p property; set_node p property (n\<lparr>type := t\<rparr>) }"

text \<open>The range check of integers, on the text of the number: too many digits, or as many as the greatest number in absolute value
  and greater.\<close>

definition threshold :: "string \<Rightarrow> string" where
  "threshold value = (if value \<noteq> [] \<and> hd value = CHR ''-'' then ''-9223372036854775808'' else ''9223372036854775807'')"

definition num_close :: "char list \<Rightarrow> jpool \<Rightarrow> nat \<Rightarrow> nat \<Rightarrow> (char list \<times> jpool \<times> nat option) option" where
  "num_close tx p ptr property = do {
     c \<leftarrow> at tx ptr;
     n \<leftarrow> node p property;
     value \<leftarrow> (case un n of Value v \<Rightarrow> Some v | Children _ _ \<Rightarrow> None);
     let number = take (ptr - value) (drop value tx);
     if \<not> isEndOfPrimitive c then Some (tx, p, None)
     else if type n = JSON_INTEGER \<and> length number > length (threshold number) then Some (tx, p, None)
     else if type n = JSON_INTEGER \<and> length number = length (threshold number) \<and> strcmp_less (threshold number) number
     then do { tx \<leftarrow> put tx ptr nul; Some (tx, p, None) }
     else do { (tx, ptr) \<leftarrow> setToNull tx ptr; Some (tx, p, Some ptr) }
   }"

definition numValue :: "char list \<Rightarrow> jpool \<Rightarrow> nat \<Rightarrow> nat \<Rightarrow> (char list \<times> jpool \<times> nat option) option" where
  "numValue tx p ptr property = do {
     r \<leftarrow> num_int tx ptr;
     case r of None \<Rightarrow> Some (tx, p, None)
     | Some ptr \<Rightarrow> do {
         p \<leftarrow> set_type p property JSON_INTEGER;
         r \<leftarrow> num_frac tx ptr;
         case r of None \<Rightarrow> Some (tx, p, None)
         | Some (ptr, t) \<Rightarrow> do {
             p \<leftarrow> set_type p property t;
             r \<leftarrow> num_exp tx ptr t;
             case r of None \<Rightarrow> Some (tx, p, None)
             | Some (ptr, t) \<Rightarrow> do {
                 p \<leftarrow> set_type p property t;
                 num_close tx p ptr property
               }
           }
       }
   }"

section \<open>Objects and arrays\<close>

definition add :: "jpool \<Rightarrow> nat \<Rightarrow> nat \<Rightarrow> jpool option" where
  "add p obj property = do {
     n \<leftarrow> node p property;
     p \<leftarrow> set_node p property (n\<lparr>sibling := None\<rparr>);
     o_n \<leftarrow> node p obj;
     case un o_n of
       Value _ \<Rightarrow> None
     | Children None _ \<Rightarrow> set_node p obj (o_n\<lparr>un := Children (Some property) (Some property)\<rparr>)
     | Children (Some c) None \<Rightarrow> None
     | Children (Some c) (Some l) \<Rightarrow> do {
         l_n \<leftarrow> node p l;
         p \<leftarrow> set_node p l (l_n\<lparr>sibling := Some property\<rparr>);
         o_n \<leftarrow> node p obj;
         set_node p obj (o_n\<lparr>un := Children (Some c) (Some property)\<rparr>)
       }
   }"

text \<open>Opening a nested container: its \<open>sibling\<close> is its parent until it is closed.\<close>

definition open_nested :: "jpool \<Rightarrow> nat \<Rightarrow> nat \<Rightarrow> jsonType \<Rightarrow> jpool option" where
  "open_nested p obj property t = do {
     n \<leftarrow> node p property;
     set_node p property (n\<lparr>type := t, un := Children None None, sibling := Some obj\<rparr>)
   }"

text \<open>The value of a new property at \<open>ptr\<close>: the text, the pool, the container that is now open, and the pointer.\<close>

definition property_value :: "char list \<Rightarrow> jpool \<Rightarrow> nat \<Rightarrow> nat \<Rightarrow> nat \<Rightarrow> (char list \<times> jpool \<times> nat \<times> nat option) option" where
  "property_value tx p obj property ptr = do {
     n \<leftarrow> node p property;
     p \<leftarrow> set_node p property (n\<lparr>un := Value ptr\<rparr>);
     c \<leftarrow> at tx ptr;
     if c = CHR ''{'' then do { p \<leftarrow> open_nested p obj property JSON_OBJ; Some (tx, p, property, Some (ptr + 1)) }
     else if c = CHR ''['' then do { p \<leftarrow> open_nested p obj property JSON_ARRAY; Some (tx, p, property, Some (ptr + 1)) }
     else do {
       (tx, p, r) \<leftarrow>
         (if c = CHR 0x22 then textValue tx p ptr property
          else if c = CHR ''t'' then trueValue tx p ptr property
          else if c = CHR ''f'' then falseValue tx p ptr property
          else if c = CHR ''n'' then nullValue tx p ptr property
          else numValue tx p ptr property);
       Some (tx, p, obj, r)
     }
   }"

text \<open>One round of the loop, from the pointer behind the blanks: a comma, the end of the container, or a new property. The
  result is either the final pointer of the function or the container and the pointer of the next round.\<close>

datatype round = Done "nat option" | Next nat nat

definition new_property :: "nat \<Rightarrow> nat \<Rightarrow> char list \<times> jpool \<times> nat option \<Rightarrow> (char list \<times> jpool \<times> round) option" where
  "new_property obj property res = (case res of
     (tx, p, None) \<Rightarrow> Some (tx, p, Done None)
   | (tx, p, Some ptr) \<Rightarrow> do {
       p \<leftarrow> add p obj property;
       (tx, p, obj, r) \<leftarrow> property_value tx p obj property ptr;
       Some (tx, p, case r of None \<Rightarrow> Done None | Some ptr \<Rightarrow> Next obj ptr)
     })"

definition obj_round :: "char list \<Rightarrow> jpool \<Rightarrow> nat \<Rightarrow> nat \<Rightarrow> (char list \<times> jpool \<times> round) option" where
  "obj_round tx p obj ptr = do {
     c \<leftarrow> at tx ptr;
     o_n \<leftarrow> node p obj;
     if c = CHR '','' then Some (tx, p, Next obj (ptr + 1))
     else if c = (if type o_n = JSON_OBJ then CHR ''}'' else CHR '']'') then do {
       tx \<leftarrow> put tx ptr nul;
       case sibling o_n of
         None \<Rightarrow> Some (tx, p, Done (Some (ptr + 1)))
       | Some parentObj \<Rightarrow> do {
           p \<leftarrow> set_node p obj (o_n\<lparr>sibling := None\<rparr>);
           Some (tx, p, Next parentObj (ptr + 1))
         }
     }
     else case poolAlloc p of
       (p, None) \<Rightarrow> Some (tx, p, Done None)
     | (p, Some property) \<Rightarrow> do {
         res \<leftarrow>
           (if type o_n \<noteq> JSON_ARRAY then
              if c \<noteq> CHR 0x22 then Some (tx, p, None) else propertyName tx p ptr property
            else do {
              n \<leftarrow> node p property;
              p \<leftarrow> set_node p property (n\<lparr>name := None\<rparr>);
              Some (tx, p, Some ptr)
            });
         new_property obj property res
       }
   }"

primrec obj_loop :: "nat \<Rightarrow> char list \<Rightarrow> jpool \<Rightarrow> nat \<Rightarrow> nat \<Rightarrow> (char list \<times> jpool \<times> nat option) option" where
  "obj_loop 0 tx p obj ptr = None"
| "obj_loop (Suc fuel) tx p obj ptr = do {
     r \<leftarrow> goBlank tx ptr;
     case r of None \<Rightarrow> Some (tx, p, None)
     | Some ptr \<Rightarrow> do {
         (tx, p, r) \<leftarrow> obj_round tx p obj ptr;
         case r of Done r \<Rightarrow> Some (tx, p, r) | Next obj ptr \<Rightarrow> obj_loop fuel tx p obj ptr
       }
   }"

definition objValue :: "char list \<Rightarrow> jpool \<Rightarrow> nat \<Rightarrow> nat \<Rightarrow> (char list \<times> jpool \<times> nat option) option" where
  "objValue tx p ptr obj = do {
     c \<leftarrow> at tx ptr;
     n \<leftarrow> node p obj;
     p \<leftarrow> set_node p obj (n\<lparr>type := (if c = CHR ''{'' then JSON_OBJ else JSON_ARRAY), un := Children None None, sibling := None\<rparr>);
     obj_loop (length tx) tx p obj (ptr + 1)
   }"

definition json_createWithPool :: "char list \<Rightarrow> jpool \<Rightarrow> (char list \<times> jpool \<times> nat option) option" where
  "json_createWithPool tx p = do {
     r \<leftarrow> goBlank tx 0;
     case r of None \<Rightarrow> Some (tx, p, None)
     | Some ptr \<Rightarrow> do {
         c \<leftarrow> at tx ptr;
         if c \<noteq> CHR ''{'' \<and> c \<noteq> CHR ''['' then Some (tx, p, None)
         else do {
           let (p, obj) = poolInit p;
           n \<leftarrow> node p obj;
           p \<leftarrow> set_node p obj (n\<lparr>name := None, sibling := None, un := Children None None\<rparr>);
           (tx, p, r) \<leftarrow> objValue tx p ptr obj;
           Some (tx, p, if r = None then None else Some obj)
         }
       }
   }"

text \<open>\<open>nextFree\<close> is not initialised before \<open>poolInit\<close>.\<close>

definition json_create :: "char list \<Rightarrow> json_t list \<Rightarrow> nat \<Rightarrow> (char list \<times> jpool \<times> nat option) option" where
  "json_create str m junk = json_createWithPool str \<lparr>mem = m, nextFree = junk\<rparr>"

section \<open>Reading a parsed document\<close>

definition json_getType :: "jpool \<Rightarrow> nat \<Rightarrow> jsonType option" where
  "json_getType p i = map_option type (node p i)"

definition json_getChild :: "jpool \<Rightarrow> nat \<Rightarrow> nat option option" where
  "json_getChild p i = do { n \<leftarrow> node p i; case un n of Children c _ \<Rightarrow> Some c | Value _ \<Rightarrow> None }"

definition json_getSibling :: "jpool \<Rightarrow> nat \<Rightarrow> nat option option" where
  "json_getSibling p i = map_option sibling (node p i)"

text \<open>The text of a value, up to its terminator.\<close>

definition str_from :: "char list \<Rightarrow> nat \<Rightarrow> string option" where
  "str_from tx i = (if nul \<in> set (drop i tx) then Some (cstr (drop i tx)) else None)"

definition json_getValue :: "char list \<Rightarrow> jpool \<Rightarrow> nat \<Rightarrow> string option" where
  "json_getValue tx p i = do { n \<leftarrow> node p i; case un n of Value v \<Rightarrow> str_from tx v | Children _ _ \<Rightarrow> None }"

definition json_getName :: "char list \<Rightarrow> jpool \<Rightarrow> nat \<Rightarrow> string option option" where
  "json_getName tx p i = do { n \<leftarrow> node p i; case name n of None \<Rightarrow> Some None | Some k \<Rightarrow> map_option Some (str_from tx k) }"

definition json_getBoolean :: "char list \<Rightarrow> jpool \<Rightarrow> nat \<Rightarrow> bool option" where
  "json_getBoolean tx p i = do {
     n \<leftarrow> node p i;
     case un n of Value v \<Rightarrow> map_option (\<lambda>c. c = CHR ''t'') (at tx v) | Children _ _ \<Rightarrow> None
   }"

primrec property_loop :: "nat \<Rightarrow> char list \<Rightarrow> jpool \<Rightarrow> nat option \<Rightarrow> string \<Rightarrow> nat option option" where
  "property_loop 0 tx p s property = None"
| "property_loop (Suc fuel) tx p s property = (case s of
     None \<Rightarrow> Some None
   | Some i \<Rightarrow> do {
       n \<leftarrow> node p i;
       m \<leftarrow> (case name n of None \<Rightarrow> Some False | Some k \<Rightarrow> map_option (\<lambda>t. t = property) (str_from tx k));
       if m then Some (Some i) else property_loop fuel tx p (sibling n) property
     })"

text \<open>The list of siblings is at most as long as the array.\<close>

definition json_getProperty :: "char list \<Rightarrow> jpool \<Rightarrow> nat \<Rightarrow> string \<Rightarrow> nat option option" where
  "json_getProperty tx p obj property = do {
     c \<leftarrow> json_getChild p obj;
     property_loop (Suc (length (mem p))) tx p c property
   }"

definition json_getPropertyValue :: "char list \<Rightarrow> jpool \<Rightarrow> nat \<Rightarrow> string \<Rightarrow> string option option" where
  "json_getPropertyValue tx p obj property = do {
     r \<leftarrow> json_getProperty tx p obj property;
     case r of None \<Rightarrow> Some None
     | Some field \<Rightarrow> do {
         t \<leftarrow> json_getType p field;
         if t = JSON_OBJ \<or> t = JSON_ARRAY then Some None
         else map_option Some (json_getValue tx p field)
       }
   }"

section \<open>Staying inside the text\<close>

text \<open>The text has a terminator at \<open>e\<close>.\<close>

definition ends :: "nat \<Rightarrow> char list \<Rightarrow> bool" where
  "ends e tx \<longleftrightarrow> e < length tx \<and> tx ! e = nul"

lemma ends_at: "ends e tx \<Longrightarrow> i \<le> e \<Longrightarrow> at tx i = Some (tx ! i)"
  by (simp add: ends_def c_simps)

lemma ends_less: "ends e tx \<Longrightarrow> i \<le> e \<Longrightarrow> tx ! i \<noteq> nul \<Longrightarrow> i < e"
  by (metis ends_def le_neq_implies_less)

lemma ends_put: "ends e tx \<Longrightarrow> i < e \<Longrightarrow> \<exists>tx'. put tx i c = Some tx' \<and> ends e tx' \<and> length tx' = length tx"
  by (simp add: ends_def c_simps)

lemma go_while_ok:
  "ends e tx \<Longrightarrow> i \<le> e \<Longrightarrow> \<exists>r. go_while P tx i = Some r \<and> (\<forall>j. r = Some j \<longrightarrow> i \<le> j \<and> j < e \<and> tx ! j \<noteq> nul \<and> \<not> P (tx ! j))"
proof (induction P tx i rule: go_while.induct)
  case (1 P tx i)
  show ?case
  proof (cases "tx ! i = nul \<or> \<not> P (tx ! i)")
    case True
    then show ?thesis
      using 1(2,3) ends_less [OF 1(2,3)] by (auto simp: go_while.simps [of P tx i] ends_at)
  next
    case False
    then have "i < e" using ends_less [OF 1(2,3)] by blast
    then show ?thesis
      using 1(1) [of "tx ! i"] 1(2,3) False by (force simp: go_while.simps [of P tx i] ends_at)
  qed
qed

lemma goBlank_ok:
  "ends e tx \<Longrightarrow> i \<le> e \<Longrightarrow> \<exists>r. goBlank tx i = Some r \<and> (\<forall>j. r = Some j \<longrightarrow> i \<le> j \<and> j < e \<and> tx ! j \<noteq> nul)"
  using go_while_ok [of e tx i] unfolding goBlank_def goWhile_def by blast

lemma goNum_ok:
  "ends e tx \<Longrightarrow> i \<le> e \<Longrightarrow> \<exists>r. goNum tx i = Some r \<and> (\<forall>j. r = Some j \<longrightarrow> i \<le> j \<and> j < e \<and> \<not> is_digit (tx ! j))"
  using go_while_ok [of e tx i] unfolding goNum_def by blast

lemma is_digit_nul [simp]: "\<not> is_digit nul" "\<not> isxdigit nul"
  by code_simp+

lemma unicode_loop_ok:
  "ends e tx \<Longrightarrow> i \<le> e \<Longrightarrow> \<exists>c. unicode_loop n i tx = Some c \<and> (c \<noteq> nul \<longrightarrow> i + n \<le> e)"
proof (induction n arbitrary: i)
  case (Suc n)
  show ?case
  proof (cases "isxdigit (tx ! i)")
    case True
    then have "tx ! i \<noteq> nul" by (metis is_digit_nul(2))
    then have "Suc i \<le> e" using ends_less Suc.prems by (simp add: Suc_le_eq)
    from Suc.IH [OF Suc.prems(1) this] show ?thesis
      using True Suc.prems by (auto simp: ends_at)
  qed (use Suc.prems in \<open>simp add: ends_at\<close>)
qed simp

lemma getEscape_nul: "getEscape nul = nul"
  by code_simp

lemma parse_string_ok:
  "ends e tx \<Longrightarrow> head \<le> e \<Longrightarrow> tail \<le> head \<Longrightarrow>
   \<exists>tx' r. parse_string tx head tail = Some (tx', r) \<and> ends e tx' \<and> length tx' = length tx \<and>
     (\<forall>j. r = Some j \<longrightarrow> head < j \<and> j \<le> e)"
proof (induction tx head tail rule: parse_string.induct)
  case (1 tx head tail)
  note prems = 1(4-6)
  let ?c = "tx ! head"
  have c: "at tx head = Some ?c" using prems ends_at by blast
  have step: "\<exists>tx'. put tx tail x = Some tx' \<and> ends e tx' \<and> length tx' = length tx" if "?c \<noteq> nul" for x
    using ends_put [OF prems(1), of tail x] ends_less [OF prems(1,2) that] prems(3) by simp
  consider "?c = nul" | "?c = CHR 0x22" | "?c = CHR 0x5C" | "?c \<notin> {nul, CHR 0x22, CHR 0x5C}" by blast
  then show ?case
  proof cases
    case 1
    then show ?thesis using prems c by (simp add: parse_string.simps [of tx head tail])
  next
    case 2
    then show ?thesis
      using prems c step [of nul] ends_less [OF prems(1,2)] by (auto simp: parse_string.simps [of tx head tail])
  next
    case 4
    then obtain tx' where t: "put tx tail ?c = Some tx'" "ends e tx'" "length tx' = length tx"
      using step [of ?c] by blast
    have "head + 1 \<le> e" using ends_less [OF prems(1,2)] 4 by simp
    from 1(3) [OF c _ _ _ t(1) t(2) this] prems(3) 4 t show ?thesis
      using c by (auto simp: parse_string.simps [of tx head tail])
  next
    case 3
    let ?c1 = "tx ! (head + 1)"
    have h1: "head + 1 \<le> e" using ends_less [OF prems(1,2)] 3 by simp
    then have c1: "at tx (head + 1) = Some ?c1" using prems ends_at by blast
    show ?thesis
    proof (cases "?c1 = CHR ''u''")
      case True
      then have h2: "head + 2 \<le> e" using ends_less [OF prems(1) h1] by simp
      obtain ch where ch: "getCharFromUnicode tx (head + 2) = Some ch" "ch \<noteq> nul \<longrightarrow> head + 6 \<le> e"
        using unicode_loop_ok [OF prems(1) h2, of 4] by (auto simp: getCharFromUnicode_def)
      show ?thesis
      proof (cases "ch = nul")
        case False
        obtain tx' where t: "put tx tail ch = Some tx'" "ends e tx'" "length tx' = length tx"
          using step [of ch] 3 by auto
        from 1(1) [OF c _ _ 3 c1 True ch(1) False t(1) t(2)] ch(2) False prems(3) 3 t show ?thesis
          using c c1 ch(1) True by (auto simp: parse_string.simps [of tx head tail])
      qed (use prems c c1 ch True 3 in \<open>simp add: parse_string.simps [of tx head tail]\<close>)
    next
      case False
      show ?thesis
      proof (cases "getEscape ?c1 = nul")
        case esc: False
        have "?c1 \<noteq> nul" using esc by (metis (no_types) getEscape_nul)
        then have h2: "head + 2 \<le> e" using ends_less [OF prems(1) h1] by simp
        obtain tx' where t: "put tx tail (getEscape ?c1) = Some tx'" "ends e tx'" "length tx' = length tx"
          using step [of "getEscape ?c1"] 3 by auto
        from 1(2) [OF c _ _ 3 c1 False refl esc t(1) t(2) h2] prems(3) 3 t show ?thesis
          using c c1 False esc by (auto simp: parse_string.simps [of tx head tail] Let_def)
      qed (use prems c c1 False 3 in \<open>simp add: parse_string.simps [of tx head tail] Let_def\<close>)
    qed
  qed
qed

text \<open>Every value parser on a text with a terminator: it returns, the terminator stays, and the pointer it returns is
  further on and not behind the terminator.\<close>

definition advances :: "nat \<Rightarrow> char list \<Rightarrow> nat \<Rightarrow> char list \<Rightarrow> nat option \<Rightarrow> bool" where
  "advances e tx ptr tx' r \<longleftrightarrow> ends e tx' \<and> length tx' = length tx \<and> (\<forall>j. r = Some j \<longrightarrow> ptr < j \<and> j \<le> e)"

lemma isEndOfPrimitive_nul [simp]: "\<not> isEndOfPrimitive nul"
  by code_simp

lemma setToNull_ok:
  assumes "ends e tx" and "i < e"
  shows "\<exists>tx' j. setToNull tx i = Some (tx', j) \<and> ends e tx' \<and> length tx' = length tx \<and> i \<le> j \<and> j \<le> e"
  using assms ends_put [OF assms, of nul] ends_at [OF assms(1), of i] by (auto simp: setToNull_def)

lemma checkStr_ok:
  "ends e tx \<Longrightarrow> ptr \<le> e \<Longrightarrow> nul \<notin> set s \<Longrightarrow>
   \<exists>r. checkStr s tx ptr = Some r \<and> (\<forall>j. r = Some j \<longrightarrow> j = ptr + length s \<and> j \<le> e)"
proof (induction s arbitrary: ptr)
  case (Cons a s)
  show ?case
  proof (cases "tx ! ptr = a")
    case True
    then have "ptr + 1 \<le> e" using ends_less [of e tx ptr] Cons.prems by auto
    then show ?thesis using Cons.IH [of "ptr + 1"] Cons.prems True by (auto simp: ends_at)
  qed (use Cons.prems in \<open>simp add: ends_at\<close>)
qed simp

lemma fraqValue_ok:
  "ends e tx \<Longrightarrow> i \<le> e \<Longrightarrow> \<exists>r. fraqValue tx i = Some r \<and> (\<forall>j. r = Some j \<longrightarrow> i < j \<and> j < e)"
proof -
  assume a: "ends e tx" "i \<le> e"
  show ?thesis
  proof (cases "is_digit (tx ! i)")
    case True
    then have "tx ! i \<noteq> nul" by (metis is_digit_nul(1))
    then have "i + 1 \<le> e" using ends_less [OF a] by simp
    then show ?thesis using goNum_ok [OF a(1), of "i + 1"] a True by (fastforce simp: fraqValue_def ends_at)
  qed (use a in \<open>simp add: fraqValue_def ends_at\<close>)
qed

lemma expValue_ok:
  "ends e tx \<Longrightarrow> i \<le> e \<Longrightarrow> \<exists>r. expValue tx i = Some r \<and> (\<forall>j. r = Some j \<longrightarrow> i < j \<and> j < e)"
proof -
  assume a: "ends e tx" "i \<le> e"
  define k where "k = (if tx ! i = CHR ''-'' \<or> tx ! i = CHR ''+'' then i + 1 else i)"
  have k: "i \<le> k" "k \<le> e" using ends_less [OF a] a(2) by (auto simp: k_def)
  have "expValue tx i = fraqValue tx k"
    using a by (simp add: expValue_def fraqValue_def ends_at k_def Let_def)
  then show ?thesis using fraqValue_ok [OF a(1) k(2)] k(1) by (metis le_less_trans)
qed

lemma num_int_ok:
  assumes a: "ends e tx" "i \<le> e"
  shows "\<exists>r. num_int tx i = Some r \<and> (\<forall>j. r = Some j \<longrightarrow> i < j \<and> j \<le> e)"
proof -
  define k where "k = (if tx ! i = CHR ''-'' then i + 1 else i)"
  have k: "i \<le> k" "k \<le> e" using ends_less [OF a] a(2) by (auto simp: k_def)
  have eq: "num_int tx i = (if \<not> is_digit (tx ! k) then Some None else if tx ! k \<noteq> CHR ''0'' then goNum tx k
      else do { c \<leftarrow> at tx (k + 1); Some (if is_digit c then None else Some (k + 1)) })"
    using a k by (cases "tx ! i = CHR ''-''") (simp_all add: num_int_def ends_at k_def cong: if_cong)
  show ?thesis
  proof (cases "is_digit (tx ! k)")
    case True
    then have "tx ! k \<noteq> nul" by (metis is_digit_nul(1))
    then have k1: "k + 1 \<le> e" using ends_less [OF a(1) k(2)] by simp
    show ?thesis
    proof (cases "tx ! k = CHR ''0''")
      case False
      obtain r where r: "goNum tx k = Some r" "\<forall>j. r = Some j \<longrightarrow> k \<le> j \<and> j < e \<and> \<not> is_digit (tx ! j)"
        using goNum_ok [OF a(1) k(2)] by blast
      have "i < j \<and> j \<le> e" if "r = Some j" for j
        using r(2) that k(1) True by (cases "j = k") force+
      then show ?thesis using r(1) False True eq by auto
    qed (use a k k1 True eq in \<open>simp add: ends_at\<close>)
  qed (simp add: eq)
qed

lemma num_frac_ok:
  assumes a: "ends e tx" "i \<le> e"
  shows "\<exists>r. num_frac tx i = Some r \<and> (\<forall>j t. r = Some (j, t) \<longrightarrow> i \<le> j \<and> j \<le> e \<and> t \<in> {JSON_INTEGER, JSON_REAL})"
proof (cases "tx ! i = CHR ''.''")
  case True
  then have "i + 1 \<le> e" using ends_less [OF a] by simp
  then show ?thesis using fraqValue_ok [OF a(1), of "i + 1"] True a by (fastforce simp: num_frac_def ends_at)
qed (use a in \<open>simp add: num_frac_def ends_at\<close>)

lemma num_exp_ok:
  assumes a: "ends e tx" "i \<le> e" and t: "t \<in> {JSON_INTEGER, JSON_REAL}"
  shows "\<exists>r. num_exp tx i t = Some r \<and> (\<forall>j t. r = Some (j, t) \<longrightarrow> i \<le> j \<and> j \<le> e \<and> t \<in> {JSON_INTEGER, JSON_REAL})"
proof (cases "tx ! i = CHR ''e'' \<or> tx ! i = CHR ''E''")
  case True
  then have "i + 1 \<le> e" using ends_less [OF a] by auto
  then show ?thesis using expValue_ok [OF a(1), of "i + 1"] True a by (fastforce simp: num_exp_def ends_at)
qed (use a t in \<open>simp add: num_exp_def ends_at\<close>)

section \<open>The array of nodes\<close>

lemma node_in [c_simps]: "i < length (mem p) \<Longrightarrow> node p i = Some (mem p ! i)"
  by (simp add: node_def c_simps)

lemma set_node_in [c_simps]: "i < length (mem p) \<Longrightarrow> set_node p i n = Some (p\<lparr>mem := (mem p)[i := n]\<rparr>)"
  by (simp add: set_node_def c_simps)

text \<open>A parser of a value changes the node of the property only, and keeps its name and its sibling.\<close>

definition only_node :: "nat \<Rightarrow> jpool \<Rightarrow> jpool \<Rightarrow> bool" where
  "only_node i p p' \<longleftrightarrow> (\<exists>n. p' = p\<lparr>mem := (mem p)[i := n]\<rparr> \<and> name n = name (mem p ! i) \<and> sibling n = sibling (mem p ! i))"

lemma only_node_refl: "only_node i p p"
  unfolding only_node_def by (rule exI [of _ "mem p ! i"]) simp

lemma only_node_trans: "only_node i p p' \<Longrightarrow> only_node i p' p'' \<Longrightarrow> i < length (mem p) \<Longrightarrow> only_node i p p''"
  unfolding only_node_def by (elim exE conjE, rule exI) auto

lemma only_node_length: "only_node i p p' \<Longrightarrow> length (mem p') = length (mem p) \<and> nextFree p' = nextFree p"
  by (auto simp: only_node_def)

lemma only_node_nth: "only_node i p p' \<Longrightarrow> j \<noteq> i \<Longrightarrow> mem p' ! j = mem p ! j"
  by (auto simp: only_node_def)

text \<open>The node of a value: its text is at \<open>v\<close> or behind.\<close>

definition scalar :: "nat \<Rightarrow> json_t \<Rightarrow> bool" where
  "scalar e n \<longleftrightarrow> (\<exists>v. un n = Value v \<and> v \<le> e) \<and> type n \<notin> {JSON_OBJ, JSON_ARRAY}"

definition value_ok :: "nat \<Rightarrow> char list \<Rightarrow> jpool \<Rightarrow> nat \<Rightarrow> nat \<Rightarrow> (char list \<times> jpool \<times> nat option) option \<Rightarrow> bool" where
  "value_ok e tx p ptr i res \<longleftrightarrow> (\<exists>tx' p' r. res = Some (tx', p', r) \<and> advances e tx ptr tx' r \<and> only_node i p p' \<and>
     (r \<noteq> None \<longrightarrow> scalar e (mem p' ! i)))"

lemma set_type_ok:
  "i < length (mem p) \<Longrightarrow> set_type p i t = Some (p\<lparr>mem := (mem p)[i := (mem p ! i)\<lparr>type := t\<rparr>]\<rparr>)"
  by (simp add: set_type_def c_simps)

lemma only_node_type: "only_node i p (p\<lparr>mem := (mem p)[i := (mem p ! i)\<lparr>type := t\<rparr>]\<rparr>)"
  unfolding only_node_def by (rule exI [of _ "(mem p ! i)\<lparr>type := t\<rparr>"]) simp

lemma textValue_ok:
  assumes "ends e tx" "ptr < e" "i < length (mem p)" "un (mem p ! i) = Value ptr"
  shows "value_ok e tx p ptr i (textValue tx p ptr i)"
proof -
  obtain tx' r where r: "parseString tx (ptr + 1) = Some (tx', r)" "ends e tx'" "length tx' = length tx"
      "\<forall>j. r = Some j \<longrightarrow> ptr + 1 < j \<and> j \<le> e"
    using parse_string_ok [OF assms(1), of "ptr + 1" "ptr + 1"] assms(2) by (auto simp: parseString_def)
  then have adv: "advances e tx ptr tx' r" by (auto simp: advances_def)
  show ?thesis
  proof (cases r)
    case None
    then show ?thesis
      using adv r(1) assms(3,4) unfolding value_ok_def
      by (auto simp: textValue_def c_simps only_node_def)
  next
    case (Some j)
    then show ?thesis
      using adv r(1) assms unfolding value_ok_def
      by (auto simp: textValue_def c_simps only_node_def scalar_def)
  qed
qed

lemma primitiveValue_ok:
  assumes "ends e tx" "ptr < e" "i < length (mem p)" "un (mem p ! i) = Value ptr"
    and "nul \<notin> set s" "s \<noteq> []" "t \<notin> {JSON_OBJ, JSON_ARRAY}"
  shows "value_ok e tx p ptr i (primitiveValue tx p ptr i s t)"
proof -
  obtain r where r: "checkStr s tx ptr = Some r" "\<forall>j. r = Some j \<longrightarrow> j = ptr + length s \<and> j \<le> e"
    using checkStr_ok [OF assms(1) _ assms(5), of ptr] assms(2) by auto
  show ?thesis
  proof (cases r)
    case None
    then show ?thesis
      using r(1) assms(1) only_node_refl by (simp add: primitiveValue_def value_ok_def advances_def)
  next
    case (Some j)
    then have j: "ptr < j" "j \<le> e" using r(2) assms(6) by auto
    show ?thesis
    proof (cases "isEndOfPrimitive (tx ! j)")
      case False
      then show ?thesis
        using r(1) Some j assms(1) only_node_refl by (simp add: primitiveValue_def value_ok_def advances_def ends_at)
    next
      case True
      then have "tx ! j \<noteq> nul" by (metis isEndOfPrimitive_nul)
      then have "j < e" using ends_less [OF assms(1) j(2)] by simp
      then obtain tx' k where "setToNull tx j = Some (tx', k)" "ends e tx'" "length tx' = length tx" "j \<le> k" "k \<le> e"
        using setToNull_ok [OF assms(1)] by blast
      then show ?thesis
        using r(1) Some j True assms only_node_type [of i p t]
        by (simp add: primitiveValue_def value_ok_def advances_def ends_at c_simps scalar_def)
    qed
  qed
qed

lemma num_close_ok:
  assumes "ends e tx" "ptr < q" "q \<le> e" "i < length (mem p)" "un (mem p ! i) = Value ptr"
    and "type (mem p ! i) \<notin> {JSON_OBJ, JSON_ARRAY}"
  shows "value_ok e tx p ptr i (num_close tx p q i)"
proof (cases "isEndOfPrimitive (tx ! q)")
  case False
  then show ?thesis
    using assms only_node_refl by (simp add: num_close_def value_ok_def advances_def ends_at c_simps Let_def)
next
  case True
  then have "tx ! q \<noteq> nul" by (metis isEndOfPrimitive_nul)
  then have q: "q < e" using ends_less [OF assms(1,3)] by simp
  obtain tx' k where s: "setToNull tx q = Some (tx', k)" "ends e tx'" "length tx' = length tx" "q \<le> k" "k \<le> e"
    using setToNull_ok [OF assms(1) q] by blast
  obtain tx'' where t: "put tx q nul = Some tx''" "ends e tx''" "length tx'' = length tx"
    using ends_put [OF assms(1) q] by blast
  show ?thesis
    using True s t assms only_node_refl
    by (simp add: num_close_def value_ok_def advances_def ends_at c_simps scalar_def Let_def)
qed

lemma numValue_ok:
  assumes e: "ends e tx" and "ptr < e" and i: "i < length (mem p)" and "un (mem p ! i) = Value ptr"
  shows "value_ok e tx p ptr i (numValue tx p ptr i)"
proof -
  let ?p = "\<lambda>t. p\<lparr>mem := (mem p)[i := (mem p ! i)\<lparr>type := t\<rparr>]\<rparr>"
  obtain r where r: "num_int tx ptr = Some r" "\<forall>j. r = Some j \<longrightarrow> ptr < j \<and> j \<le> e"
    using num_int_ok [OF e, of ptr] assms(2) by auto
  have fail: "value_ok e tx p ptr i (Some (tx, ?p t, None))" "value_ok e tx p ptr i (Some (tx, p, None))" for t
    using e only_node_type only_node_refl by (simp_all add: value_ok_def advances_def)
  have types: "set_type (?p t) i t' = Some (?p t')" for t t' using i by (simp add: set_type_ok)
  show ?thesis
  proof (cases r)
    case (Some q)
    then have q: "ptr < q" "q \<le> e" using r(2) by auto
    obtain s where s: "num_frac tx q = Some s" "\<forall>j t. s = Some (j, t) \<longrightarrow> q \<le> j \<and> j \<le> e \<and> t \<in> {JSON_INTEGER, JSON_REAL}"
      using num_frac_ok [OF e q(2)] by blast
    show ?thesis
    proof (cases s)
      case s': (Some v)
      obtain j t where v: "v = (j, t)" by (cases v) auto
      then have j: "ptr < j" "j \<le> e" "t \<in> {JSON_INTEGER, JSON_REAL}" using s s' q by auto
      obtain x where x: "num_exp tx j t = Some x" "\<forall>k t. x = Some (k, t) \<longrightarrow> j \<le> k \<and> k \<le> e \<and> t \<in> {JSON_INTEGER, JSON_REAL}"
        using num_exp_ok [OF e j(2,3)] by blast
      show ?thesis
      proof (cases x)
        case x': (Some w)
        obtain k t' where w: "w = (k, t')" by (cases w) auto
        then have k: "ptr < k" "k \<le> e" "t' \<in> {JSON_INTEGER, JSON_REAL}" using x x' j by auto
        have "value_ok e tx (?p t') ptr i (num_close tx (?p t') k i)"
          by (rule num_close_ok) (use assms k in auto)
        then have "value_ok e tx p ptr i (num_close tx (?p t') k i)"
          using only_node_trans [OF only_node_type _ i] unfolding value_ok_def by blast
        then show ?thesis
          using r s s' x x' v w Some i by (simp add: numValue_def set_type_ok types)
      qed (use r s s' x v Some i fail in \<open>simp add: numValue_def set_type_ok types\<close>)
    qed (use r s Some i fail in \<open>simp add: numValue_def set_type_ok\<close>)
  qed (use r fail in \<open>simp add: numValue_def\<close>)
qed

section \<open>The tree under construction\<close>

text \<open>
  The open containers form a stack, the one being filled on top; until a container is closed its \<open>sibling\<close> is the container
  below. Links go to nodes allocated later, so that walking along them ends.
\<close>

fun opened :: "jpool \<Rightarrow> nat list \<Rightarrow> bool" where
  "opened p [] \<longleftrightarrow> False"
| "opened p [i] \<longleftrightarrow> i = 0 \<and> sibling (mem p ! i) = None"
| "opened p (i # j # S) \<longleftrightarrow> j < i \<and> sibling (mem p ! i) = Some j \<and> opened p (j # S)"

definition node_ok :: "nat \<Rightarrow> nat \<Rightarrow> nat \<Rightarrow> json_t \<Rightarrow> bool" where
  "node_ok e m i n \<longleftrightarrow> (\<forall>k. name n = Some k \<longrightarrow> k \<le> e) \<and>
     (case un n of
        Value v \<Rightarrow> v \<le> e \<and> type n \<notin> {JSON_OBJ, JSON_ARRAY}
      | Children c l \<Rightarrow> type n \<in> {JSON_OBJ, JSON_ARRAY} \<and>
          (\<forall>a. c = Some a \<longrightarrow> i < a \<and> a < m \<and> (\<exists>b. l = Some b \<and> i < b \<and> b < m)))"

definition sib_ok :: "nat \<Rightarrow> nat \<Rightarrow> json_t \<Rightarrow> bool" where
  "sib_ok m i n \<longleftrightarrow> (\<forall>j. sibling n = Some j \<longrightarrow> i < j \<and> j < m)"

definition container :: "json_t \<Rightarrow> bool" where
  "container n \<longleftrightarrow> (\<exists>c l. un n = Children c l)"

text \<open>The first \<open>m\<close> nodes, with links below \<open>m'\<close>; the containers of \<open>S\<close> are open.\<close>

definition tree_ok :: "nat \<Rightarrow> nat \<Rightarrow> nat \<Rightarrow> nat list \<Rightarrow> jpool \<Rightarrow> bool" where
  "tree_ok e m m' S p \<longleftrightarrow> opened p S \<and> m' \<le> length (mem p) \<and>
     (\<forall>i\<in>set S. i < m \<and> container (mem p ! i)) \<and>
     (\<forall>i<m. node_ok e m' i (mem p ! i) \<and> (i \<notin> set S \<longrightarrow> sib_ok m' i (mem p ! i)))"

definition jinv :: "nat \<Rightarrow> nat list \<Rightarrow> jpool \<Rightarrow> bool" where
  "jinv e S p \<longleftrightarrow> tree_ok e (nextFree p) (nextFree p) S p"

text \<open>A finished document.\<close>

definition doc_ok :: "nat \<Rightarrow> jpool \<Rightarrow> bool" where
  "doc_ok e p \<longleftrightarrow> 0 < nextFree p \<and> nextFree p \<le> length (mem p) \<and> container (mem p ! 0) \<and>
     (\<forall>i<nextFree p. node_ok e (nextFree p) i (mem p ! i) \<and> sib_ok (nextFree p) i (mem p ! i))"

lemma opened_less: "opened p (i # S) \<Longrightarrow> j \<in> set S \<Longrightarrow> j < i"
proof (induction S arbitrary: i)
  case (Cons k S)
  then have "opened p (k # S)" "k < i" by simp_all
  then show ?case using Cons.IH [of k] Cons.prems(2) by fastforce
qed simp

lemma opened_cong: "opened p S \<Longrightarrow> (\<And>i. i \<in> set S \<Longrightarrow> sibling (mem p' ! i) = sibling (mem p ! i)) \<Longrightarrow> opened p' S"
  by (induction p S rule: opened.induct) auto

lemma opened_0: "opened p S \<Longrightarrow> 0 \<in> set S"
  by (induction p S rule: opened.induct) auto

lemma node_ok_mono: "node_ok e m i n \<Longrightarrow> m \<le> m' \<Longrightarrow> node_ok e m' i n"
  by (fastforce simp: node_ok_def split: junion.splits)

lemma sib_ok_mono: "sib_ok m i n \<Longrightarrow> m \<le> m' \<Longrightarrow> sib_ok m' i n"
  by (force simp: sib_ok_def)

lemma node_ok_sibling [simp]: "node_ok e m i (n\<lparr>sibling := s\<rparr>) \<longleftrightarrow> node_ok e m i n"
  by (simp add: node_ok_def split: junion.splits)

text \<open>Closing the container on top.\<close>

lemma jinv_close:
  assumes "jinv e (i # j # S) p"
  shows "jinv e (j # S) (p\<lparr>mem := (mem p)[i := (mem p ! i)\<lparr>sibling := None\<rparr>]\<rparr>)"
proof -
  let ?p = "p\<lparr>mem := (mem p)[i := (mem p ! i)\<lparr>sibling := None\<rparr>]\<rparr>"
  have inv: "opened p (i # j # S)" "i < nextFree p" "nextFree p \<le> length (mem p)"
      "\<And>k. k \<in> set (j # S) \<Longrightarrow> k < nextFree p \<and> container (mem p ! k)"
      "\<And>k. k < nextFree p \<Longrightarrow> node_ok e (nextFree p) k (mem p ! k)"
      "\<And>k. k < nextFree p \<Longrightarrow> k \<notin> set (i # j # S) \<Longrightarrow> sib_ok (nextFree p) k (mem p ! k)"
    using assms by (auto simp: jinv_def tree_ok_def)
  have less: "k < i" if "k \<in> set (j # S)" for k using opened_less [OF inv(1) that] .
  then have "i \<notin> set (j # S)" by blast
  then have nth: "mem ?p ! k = mem p ! k" if "k \<in> set (j # S)" for k using that by (cases "k = i") auto
  have "opened ?p (j # S)" by (rule opened_cong [of p]) (use inv(1) nth in auto)
  moreover have "node_ok e (nextFree p) k (mem ?p ! k)" if "k < nextFree p" for k
    using inv(2,3) inv(5) [OF that] by (cases "k = i") auto
  moreover have "sib_ok (nextFree p) k (mem ?p ! k)" if "k < nextFree p" "k \<notin> set (j # S)" for k
    using inv(2,3) inv(6) [OF that(1)] that(2) by (cases "k = i") (auto simp: sib_ok_def)
  ultimately show ?thesis
    using inv(3,4) nth unfolding jinv_def tree_ok_def by simp
qed

lemma jinv_done: "jinv e [0] p \<Longrightarrow> doc_ok e p"
proof -
  assume "jinv e [0] p"
  then have inv: "opened p [0]" "0 < nextFree p" "container (mem p ! 0)" "nextFree p \<le> length (mem p)"
      "\<And>i. i < nextFree p \<Longrightarrow> node_ok e (nextFree p) i (mem p ! i) \<and> (i \<noteq> 0 \<longrightarrow> sib_ok (nextFree p) i (mem p ! i))"
    by (simp_all add: jinv_def tree_ok_def)
  have "sib_ok (nextFree p) i (mem p ! i)" if "i < nextFree p" for i
    using inv(5) [OF that] inv(1) by (cases "i = 0") (simp_all add: sib_ok_def)
  then show ?thesis using inv unfolding doc_ok_def by simp
qed

text \<open>Adding a property: the node \<open>m\<close> has been allocated and its name set.\<close>

lemma add_ok:
  assumes inv: "tree_ok e m m (i # S) p" and m: "m < length (mem p)" and nm: "\<forall>k. name (mem p ! m) = Some k \<longrightarrow> k \<le> e"
  shows "\<exists>p'. add p i m = Some p' \<and> tree_ok e m (Suc m) (i # S) p' \<and> nextFree p' = nextFree p \<and> length (mem p') = length (mem p) \<and>
    sibling (mem p' ! m) = None \<and> (\<forall>k. name (mem p' ! m) = Some k \<longrightarrow> k \<le> e)"
proof -
  have op: "opened p (i # S)" and i: "i < m" "container (mem p ! i)"
    and S: "\<And>k. k \<in> set (i # S) \<Longrightarrow> k < m \<and> container (mem p ! k)"
    and ok: "\<And>k. k < m \<Longrightarrow> node_ok e m k (mem p ! k)"
    and sib: "\<And>k. k < m \<Longrightarrow> k \<notin> set (i # S) \<Longrightarrow> sib_ok m k (mem p ! k)"
    using inv by (auto simp: tree_ok_def)
  obtain c l where un: "un (mem p ! i) = Children c l" using i by (auto simp: container_def)
  let ?q = "(mem p)[m := (mem p ! m)\<lparr>sibling := None\<rparr>]"
  have "\<exists>M. add p i m = Some (p\<lparr>mem := M\<rparr>) \<and> length M = length (mem p) \<and> M ! m = (mem p ! m)\<lparr>sibling := None\<rparr> \<and>
     (\<exists>c'. M ! i = (mem p ! i)\<lparr>un := Children (Some c') (Some m)\<rparr> \<and> i < c' \<and> c' < Suc m) \<and>
     (\<forall>k<m. k \<noteq> i \<longrightarrow> M ! k = mem p ! k \<or> M ! k = (mem p ! k)\<lparr>sibling := Some m\<rparr> \<and> k \<notin> set (i # S))"
  proof (cases c)
    case None
    then show ?thesis using un i m
      by (intro exI [of _ "?q[i := (mem p ! i)\<lparr>un := Children (Some m) (Some m)\<rparr>]"]) (auto simp: add_def c_simps)
  next
    case (Some a)
    then obtain b where b: "l = Some b" "i < b" "b < m" "i < a" "a < m" using ok [OF i(1)] un by (auto simp: node_ok_def)
    then have "b \<notin> set (i # S)" using opened_less [OF op, of b] by auto
    then show ?thesis
      using un i m b Some
      by (intro exI [of _ "?q[b := (mem p ! b)\<lparr>sibling := Some m\<rparr>, i := (mem p ! i)\<lparr>un := Children (Some a) (Some m)\<rparr>]"])
        (auto simp: add_def c_simps nth_list_update)
  qed
  then obtain M c' where add: "add p i m = Some (p\<lparr>mem := M\<rparr>)" and M: "length M = length (mem p)" "M ! m = (mem p ! m)\<lparr>sibling := None\<rparr>"
      "M ! i = (mem p ! i)\<lparr>un := Children (Some c') (Some m)\<rparr>" "i < c'" "c' < Suc m"
    and other: "\<And>k. k < m \<Longrightarrow> k \<noteq> i \<Longrightarrow> M ! k = mem p ! k \<or> M ! k = (mem p ! k)\<lparr>sibling := Some m\<rparr> \<and> k \<notin> set (i # S)"
    by blast
  have stack: "sibling (M ! k) = sibling (mem p ! k) \<and> container (M ! k)" if "k \<in> set (i # S)" for k
    using S [OF that] other [of k] that M(3) by (cases "k = i") (auto simp: container_def)
  have "opened (p\<lparr>mem := M\<rparr>) (i # S)" by (rule opened_cong [OF op]) (use stack in simp)
  moreover have "node_ok e (Suc m) k (M ! k)" if "k < m" for k
  proof (cases "k = i")
    case True
    then show ?thesis using ok [OF that] M i un by (auto simp: node_ok_def)
  qed (use node_ok_mono [OF ok [OF that], of "Suc m"] other [OF that] in auto)
  moreover have "sib_ok (Suc m) k (M ! k)" if "k < m" "k \<notin> set (i # S)" for k
    using sib_ok_mono [OF sib [OF that], of "Suc m"] other [OF that(1)] that by (auto simp: sib_ok_def)
  ultimately have "tree_ok e m (Suc m) (i # S) (p\<lparr>mem := M\<rparr>)"
    using M(1) m S stack unfolding tree_ok_def by simp
  then show ?thesis using add M nm by simp
qed

text \<open>The new node has its value.\<close>

lemma tree_ok_value:
  assumes inv: "tree_ok e m (Suc m) S p" and only: "only_node m p p'" and s: "scalar e (mem p' ! m)"
    and sib: "sibling (mem p ! m) = None" and nm: "\<forall>k. name (mem p ! m) = Some k \<longrightarrow> k \<le> e"
  shows "tree_ok e (Suc m) (Suc m) S p'"
proof -
  have m: "m < length (mem p)" using inv by (simp add: tree_ok_def)
  have nth: "mem p' ! k = mem p ! k" if "k < m" for k using only_node_nth [OF only] that by simp
  have new: "node_ok e (Suc m) m (mem p' ! m)" "sib_ok (Suc m) m (mem p' ! m)"
    using only s sib nm m by (auto simp: only_node_def node_ok_def sib_ok_def scalar_def)
  have "opened p' S" by (rule opened_cong [of p]) (use inv nth in \<open>auto simp: tree_ok_def\<close>)
  then show ?thesis
    using inv nth new only_node_length [OF only] unfolding tree_ok_def by (auto simp: less_Suc_eq)
qed

lemma tree_ok_nested:
  assumes inv: "tree_ok e m (Suc m) (i # S) p" and t: "t \<in> {JSON_OBJ, JSON_ARRAY}"
    and nm: "\<forall>k. name (mem p ! m) = Some k \<longrightarrow> k \<le> e"
  shows "tree_ok e (Suc m) (Suc m) (m # i # S)
    (p\<lparr>mem := (mem p)[m := (mem p ! m)\<lparr>type := t, un := Children None None, sibling := Some i\<rparr>]\<rparr>)" (is "tree_ok _ _ _ _ ?p")
proof -
  have m: "m < length (mem p)" "i < m" using inv by (simp_all add: tree_ok_def)
  have nth: "mem ?p ! k = mem p ! k" if "k < m" for k using that by simp
  have new: "node_ok e (Suc m) m (mem ?p ! m)" "container (mem ?p ! m)" "sibling (mem ?p ! m) = Some i"
    using nm m t by (auto simp: node_ok_def container_def)
  have "opened ?p (i # S)" by (rule opened_cong [of p]) (use inv nth in \<open>auto simp: tree_ok_def\<close>)
  then show ?thesis
    using inv nth new m unfolding tree_ok_def by (auto simp: less_Suc_eq)
qed

section \<open>The loop\<close>

lemma value_ok_mono: "value_ok e tx p' ptr i res \<Longrightarrow> only_node i p p' \<Longrightarrow> i < length (mem p) \<Longrightarrow> value_ok e tx p ptr i res"
  unfolding value_ok_def by (blast intro: only_node_trans)

lemma property_value_ok:
  assumes e: "ends e tx" and ptr: "ptr < e" and inv: "tree_ok e m (Suc m) (i # S) p"
    and sib: "sibling (mem p ! m) = None" and nm: "\<forall>k. name (mem p ! m) = Some k \<longrightarrow> k \<le> e"
  shows "\<exists>tx' p' i' r. property_value tx p i m ptr = Some (tx', p', i', r) \<and> advances e tx ptr tx' r \<and>
    nextFree p' = nextFree p \<and> length (mem p') = length (mem p) \<and>
    (r \<noteq> None \<longrightarrow> (\<exists>S'. tree_ok e (Suc m) (Suc m) (i' # S') p'))"
proof -
  have m: "m < length (mem p)" using inv by (simp add: tree_ok_def)
  define n where "n = (mem p ! m)\<lparr>un := Value ptr\<rparr>"
  define q where "q = p\<lparr>mem := (mem p)[m := n]\<rparr>"
  have only: "only_node m p q" unfolding only_node_def q_def by (rule exI [of _ n]) (simp add: n_def)
  have qm: "mem q ! m = n" "m < length (mem q)" "un (mem q ! m) = Value ptr" using m by (simp_all add: q_def n_def)
  have set: "node p m = Some (mem p ! m)" "set_node p m n = Some q" using m by (simp_all add: c_simps q_def)
  have c: "at tx ptr = Some (tx ! ptr)" using ends_at [OF e] ptr by simp
  consider (nest) t where "t \<in> {JSON_OBJ, JSON_ARRAY}"
      "property_value tx p i m ptr = do { p \<leftarrow> open_nested q i m t; Some (tx, p, m, Some (ptr + 1)) }"
    | (val) res where "property_value tx p i m ptr = do { (tx, p, r) \<leftarrow> res; Some (tx, p, i, r) }" "value_ok e tx q ptr m res"
  proof -
    assume N: "\<And>t. t \<in> {JSON_OBJ, JSON_ARRAY} \<Longrightarrow>
        property_value tx p i m ptr = do { p \<leftarrow> open_nested q i m t; Some (tx, p, m, Some (ptr + 1)) } \<Longrightarrow> thesis"
      and V: "\<And>res. property_value tx p i m ptr = do { (tx, p, r) \<leftarrow> res; Some (tx, p, i, r) } \<Longrightarrow> value_ok e tx q ptr m res \<Longrightarrow> thesis"
    note pv = property_value_def n_def [symmetric] set c
    note prim = primitiveValue_ok [OF e ptr qm(2,3)]
    consider "tx ! ptr = CHR ''{''" | "tx ! ptr = CHR ''[''" | "tx ! ptr = CHR 0x22" | "tx ! ptr = CHR ''t''"
      | "tx ! ptr = CHR ''f''" | "tx ! ptr = CHR ''n''"
      | "tx ! ptr \<notin> {CHR ''{'', CHR ''['', CHR 0x22, CHR ''t'', CHR ''f'', CHR ''n''}" by blast
    then show thesis
    proof cases
      case 1 then show ?thesis by (intro N [of JSON_OBJ]) (simp_all add: pv)
    next
      case 2 then show ?thesis by (intro N [of JSON_ARRAY]) (simp_all add: pv)
    next
      case 3 then show ?thesis by (intro V [OF _ textValue_ok [OF e ptr qm(2,3)]]) (simp add: pv)
    next
      case 4 then show ?thesis by (intro V [OF _ prim [of "''true''" JSON_BOOLEAN]]) (simp_all add: pv trueValue_def)
    next
      case 5 then show ?thesis by (intro V [OF _ prim [of "''false''" JSON_BOOLEAN]]) (simp_all add: pv falseValue_def)
    next
      case 6 then show ?thesis by (intro V [OF _ prim [of "''null''" JSON_NULL]]) (simp_all add: pv nullValue_def)
    next
      case 7 then show ?thesis by (intro V [OF _ numValue_ok [OF e ptr qm(2,3)]]) (simp add: pv)
    qed
  qed
  then show ?thesis
  proof cases
    case (nest t)
    have "tree_ok e (Suc m) (Suc m) (m # i # S)
      (p\<lparr>mem := (mem p)[m := (mem p ! m)\<lparr>type := t, un := Children None None, sibling := Some i\<rparr>]\<rparr>)"
      by (rule tree_ok_nested [OF inv nest(1) nm])
    moreover have "open_nested q i m t = Some (p\<lparr>mem := (mem p)[m := (mem p ! m)\<lparr>type := t, un := Children None None, sibling := Some i\<rparr>]\<rparr>)"
      using m by (simp add: open_nested_def c_simps q_def n_def)
    ultimately show ?thesis using nest(2) e ptr by (auto simp: advances_def)
  next
    case (val res)
    obtain tx' p' r where res: "res = Some (tx', p', r)" "advances e tx ptr tx' r" "only_node m p p'" "r \<noteq> None \<longrightarrow> scalar e (mem p' ! m)"
      using value_ok_mono [OF val(2) only m] by (auto simp: value_ok_def)
    then have "r \<noteq> None \<longrightarrow> tree_ok e (Suc m) (Suc m) (i # S) p'"
      using tree_ok_value [OF inv res(3) _ sib nm] by blast
    then show ?thesis using val(1) res only_node_length [OF res(3)] by auto
  qed
qed

lemma propertyName_ok:
  assumes e: "ends e tx" and ptr: "ptr < e" and m: "m < length (mem p)"
  shows "\<exists>tx' p' r. propertyName tx p ptr m = Some (tx', p', r) \<and> ends e tx' \<and> length tx' = length tx \<and>
    p' = p\<lparr>mem := (mem p)[m := (mem p ! m)\<lparr>name := Some (ptr + 1)\<rparr>]\<rparr> \<and>
    (\<forall>j. r = Some j \<longrightarrow> ptr < j \<and> j < e)"
proof -
  let ?p = "p\<lparr>mem := (mem p)[m := (mem p ! m)\<lparr>name := Some (ptr + 1)\<rparr>]\<rparr>"
  note pn = propertyName_def node_in [OF m] set_node_in [OF m]
  obtain tx' r where r: "parseString tx (ptr + 1) = Some (tx', r)" "ends e tx'" "length tx' = length tx"
      "\<forall>j. r = Some j \<longrightarrow> ptr + 1 < j \<and> j \<le> e"
    using parse_string_ok [OF e, of "ptr + 1" "ptr + 1"] ptr by (auto simp: parseString_def)
  show ?thesis
  proof (cases r)
    case (Some q)
    then obtain s where s: "goBlank tx' q = Some s" "\<forall>j. s = Some j \<longrightarrow> q \<le> j \<and> j < e \<and> tx' ! j \<noteq> nul"
      using goBlank_ok [OF r(2)] r(4) by blast
    show ?thesis
    proof (cases s)
      case s': (Some k)
      then have k: "ptr < k" "k < e" using s(2) r(4) Some by fastforce+
      then obtain b where b: "goBlank tx' (k + 1) = Some b" "\<forall>j. b = Some j \<longrightarrow> k + 1 \<le> j \<and> j < e \<and> tx' ! j \<noteq> nul"
        using goBlank_ok [OF r(2), of "k + 1"] by auto
      show ?thesis
        using r Some s s' b k by (auto simp: pn ends_at)
    qed (use r Some s in \<open>simp add: pn\<close>)
  qed (use r in \<open>simp add: pn\<close>)
qed

lemma tree_ok_fresh:
  assumes "tree_ok e m m' S p" and "m \<le> i"
  shows "tree_ok e m m' S (p\<lparr>nextFree := f, mem := (mem p)[i := n]\<rparr>)"
proof -
  have nth: "(mem p)[i := n] ! k = mem p ! k" if "k < m" for k using assms(2) that by simp
  have "opened (p\<lparr>nextFree := f, mem := (mem p)[i := n]\<rparr>) S"
    by (rule opened_cong [of p]) (use assms nth in \<open>auto simp: tree_ok_def\<close>)
  moreover have "container ((mem p)[i := n] ! k)" if "k \<in> set S" for k
    using assms(1) nth [of k] that by (simp add: tree_ok_def)
  ultimately show ?thesis using assms nth by (simp add: tree_ok_def)
qed

text \<open>What a round leaves: the finished document, or the invariant for the next one and a pointer further on.\<close>

definition round_ok :: "nat \<Rightarrow> char list \<Rightarrow> jpool \<Rightarrow> nat \<Rightarrow> (char list \<times> jpool \<times> round) option \<Rightarrow> bool" where
  "round_ok e tx p ptr res \<longleftrightarrow> (\<exists>tx' p' r. res = Some (tx', p', r) \<and> ends e tx' \<and> length tx' = length tx \<and>
     length (mem p') = length (mem p) \<and>
     (case r of
        Done None \<Rightarrow> True
      | Done (Some q) \<Rightarrow> doc_ok e p' \<and> q \<le> e
      | Next i q \<Rightarrow> ptr < q \<and> q \<le> e \<and> (\<exists>S. jinv e (i # S) p')))"

lemma new_property_ok:
  assumes inv: "jinv e (i # S) p" and m: "nextFree p < length (mem p)"
    and res: "ends e tx'" "length tx' = length tx" "\<forall>j. r = Some j \<longrightarrow> ptr \<le> j \<and> j < e"
    and nm: "\<forall>k. nm = Some k \<longrightarrow> k \<le> e"
  shows "round_ok e tx p ptr (new_property i (nextFree p)
    (tx', p\<lparr>nextFree := nextFree p + 1, mem := (mem p)[nextFree p := (mem p ! nextFree p)\<lparr>name := nm\<rparr>]\<rparr>, r))"
    (is "round_ok _ _ _ _ (new_property _ ?m (_, ?p, _))")
proof (cases r)
  case None
  then show ?thesis using res by (simp add: new_property_def round_ok_def)
next
  case (Some q)
  have "tree_ok e ?m ?m (i # S) ?p" using inv by (intro tree_ok_fresh) (simp_all add: jinv_def)
  then obtain p' where p': "add ?p i ?m = Some p'" "tree_ok e ?m (Suc ?m) (i # S) p'" "nextFree p' = Suc ?m" "length (mem p') = length (mem p)"
      "sibling (mem p' ! ?m) = None" "\<forall>k. name (mem p' ! ?m) = Some k \<longrightarrow> k \<le> e"
    using add_ok [of e ?m i S ?p] m nm by auto
  have q: "q < e" using res(3) Some by blast
  obtain tx'' p'' i' r' where v: "property_value tx' p' i ?m q = Some (tx'', p'', i', r')" "advances e tx' q tx'' r'"
      "nextFree p'' = Suc ?m" "length (mem p'') = length (mem p)" "r' \<noteq> None \<longrightarrow> (\<exists>S'. tree_ok e (Suc ?m) (Suc ?m) (i' # S') p'')"
    using property_value_ok [OF res(1) q p'(2,5,6)] unfolding p'(3,4) by blast
  show ?thesis
    using Some p'(1) v res by (cases r') (fastforce simp: new_property_def round_ok_def advances_def jinv_def)+
qed

lemma obj_round_ok:
  assumes e: "ends e tx" and ptr: "ptr < e" and inv: "jinv e (i # S) p"
  shows "round_ok e tx p ptr (obj_round tx p i ptr)"
proof -
  have i: "i < nextFree p" "i < length (mem p)" and op: "opened p (i # S)" using inv by (auto simp: jinv_def tree_ok_def)
  let ?n = "mem p ! i" and ?m = "nextFree p"
  have c: "at tx ptr = Some (tx ! ptr)" using ends_at [OF e] ptr by simp
  note rd = obj_round_def c node_in [OF i(2)]
  consider (comma) "tx ! ptr = CHR '',''"
    | (close) "tx ! ptr \<noteq> CHR '',''" "tx ! ptr = (if type ?n = JSON_OBJ then CHR ''}'' else CHR '']'')"
    | (property) "tx ! ptr \<noteq> CHR '',''" "tx ! ptr \<noteq> (if type ?n = JSON_OBJ then CHR ''}'' else CHR '']'')" by blast
  then show ?thesis
  proof cases
    case comma
    then show ?thesis using e ptr inv by (auto simp: rd round_ok_def)
  next
    case close
    obtain tx' where t: "put tx ptr nul = Some tx'" "ends e tx'" "length tx' = length tx" using ends_put [OF e ptr] by blast
    then have eq: "obj_round tx p i ptr = (case sibling ?n of
          None \<Rightarrow> Some (tx', p, Done (Some (ptr + 1)))
        | Some parentObj \<Rightarrow> do { p \<leftarrow> set_node p i (?n\<lparr>sibling := None\<rparr>); Some (tx', p, Next parentObj (ptr + 1)) })"
      using close by (simp add: rd)
    show ?thesis
    proof (cases S)
      case Nil
      then have "sibling ?n = None" "jinv e [0] p" using op inv by auto
      then show ?thesis using eq t ptr jinv_done by (simp add: round_ok_def)
    next
      case (Cons j S')
      then have "sibling ?n = Some j" using op by simp
      then show ?thesis
        using eq t ptr Cons jinv_close [of e i j S' p] inv i(2) by (auto simp: round_ok_def c_simps)
    qed
  next
    case property
    show ?thesis
    proof (cases "?m < length (mem p)")
      case True
      let ?q = "p\<lparr>nextFree := ?m + 1\<rparr>"
      have eq: "obj_round tx p i ptr = do { res \<leftarrow> (if type ?n \<noteq> JSON_ARRAY then
              if tx ! ptr \<noteq> CHR 0x22 then Some (tx, ?q, None) else propertyName tx ?q ptr ?m
            else do {
              n \<leftarrow> node ?q ?m;
              p \<leftarrow> set_node ?q ?m (n\<lparr>name := None\<rparr>);
              Some (tx, p, Some ptr)
            }); new_property i ?m res }"
        using property True by (simp add: rd poolAlloc_def)
      consider "type ?n \<noteq> JSON_ARRAY" "tx ! ptr \<noteq> CHR 0x22" | "type ?n \<noteq> JSON_ARRAY" "tx ! ptr = CHR 0x22"
        | "type ?n = JSON_ARRAY" by blast
      then show ?thesis
      proof cases
        case 1
        then show ?thesis using eq e by (simp add: new_property_def round_ok_def)
      next
        case 2
        obtain tx' r where n: "propertyName tx ?q ptr ?m = Some (tx', ?q\<lparr>mem := (mem p)[?m := (mem p ! ?m)\<lparr>name := Some (ptr + 1)\<rparr>]\<rparr>, r)"
            "ends e tx'" "length tx' = length tx" "\<forall>j. r = Some j \<longrightarrow> ptr < j \<and> j < e"
          using propertyName_ok [OF e ptr, of ?m ?q] True by auto
        then have "\<forall>j. r = Some j \<longrightarrow> ptr \<le> j \<and> j < e" by auto
        from new_property_ok [OF inv True n(2,3) this, of "Some (ptr + 1)"] show ?thesis
          using n(1) 2 eq ptr by simp
      next
        case 3
        then show ?thesis
          using new_property_ok [OF inv True e refl, of "Some ptr" ptr None] eq ptr True by (simp add: c_simps)
      qed
    next
      case False
      then show ?thesis using property e by (simp add: rd round_ok_def poolAlloc_def)
    qed
  qed
qed

text \<open>The loop ends within as many rounds as there are characters.\<close>

lemma obj_loop_ok:
  assumes "ends e tx" "ptr \<le> e" "e < fuel + ptr" "jinv e (i # S) p"
  shows "\<exists>tx' p' r. obj_loop fuel tx p i ptr = Some (tx', p', r) \<and> ends e tx' \<and> length tx' = length tx \<and>
    length (mem p') = length (mem p) \<and> (r \<noteq> None \<longrightarrow> doc_ok e p')"
  using assms
proof (induction fuel arbitrary: tx p i S ptr)
  case (Suc fuel)
  obtain r where r: "goBlank tx ptr = Some r" "\<forall>j. r = Some j \<longrightarrow> ptr \<le> j \<and> j < e \<and> tx ! j \<noteq> nul"
    using goBlank_ok [OF Suc.prems(1,2)] by blast
  show ?case
  proof (cases r)
    case None
    then show ?thesis using r Suc.prems(1) by simp
  next
    case (Some q)
    then have q: "ptr \<le> q" "q < e" using r by auto
    obtain tx' p' s where s: "obj_round tx p i q = Some (tx', p', s)" "ends e tx'" "length tx' = length tx" "length (mem p') = length (mem p)"
        "case s of Done None \<Rightarrow> True | Done (Some k) \<Rightarrow> doc_ok e p' \<and> k \<le> e | Next i k \<Rightarrow> q < k \<and> k \<le> e \<and> (\<exists>S. jinv e (i # S) p')"
      using obj_round_ok [OF Suc.prems(1) q(2) Suc.prems(4)] unfolding round_ok_def by blast
    show ?thesis
    proof (cases s)
      case (Done d)
      then show ?thesis using s r Some by (auto split: option.splits)
    next
      case (Next j k)
      then obtain S' where "jinv e (j # S') p'" "q < k" "k \<le> e" using s(5) by auto
      then show ?thesis using Suc.IH [of tx' k j S' p'] Suc.prems(3) q s Some r Next by auto
    qed
  qed
qed simp

lemma json_create_ok:
  assumes e: "ends e tx" and m: "m \<noteq> []"
  shows "\<exists>tx' p r. json_create tx m junk = Some (tx', p, r) \<and> length tx' = length tx \<and> length (mem p) = length m \<and>
    (r = None \<or> r = Some 0 \<and> ends e tx' \<and> doc_ok e p)"
proof -
  let ?p0 = "\<lparr>mem = m, nextFree = junk\<rparr>"
  obtain r where r: "goBlank tx 0 = Some r" "\<forall>j. r = Some j \<longrightarrow> j < e \<and> tx ! j \<noteq> nul"
    using goBlank_ok [OF e, of 0] by auto
  show ?thesis
  proof (cases r)
    case None
    then show ?thesis using r by (simp add: json_create_def json_createWithPool_def)
  next
    case (Some ptr)
    then have ptr: "ptr < e" and c: "at tx ptr = Some (tx ! ptr)" using r ends_at [OF e, of ptr] by auto
    show ?thesis
    proof (cases "tx ! ptr = CHR ''{'' \<or> tx ! ptr = CHR ''[''")
      case True
      define t where "t = (if tx ! ptr = CHR ''{'' then JSON_OBJ else JSON_ARRAY)"
      define p where "p = \<lparr>mem = m[0 := (m ! 0)\<lparr>name := None, type := t, un := Children None None, sibling := None\<rparr>], nextFree = 1\<rparr>"
      have "jinv e [0] p" using m by (auto simp: jinv_def tree_ok_def p_def node_ok_def container_def t_def Suc_le_eq)
      then obtain tx' p' r' where l: "obj_loop (length tx) tx p 0 (ptr + 1) = Some (tx', p', r')"
          "ends e tx'" "length tx' = length tx" "length (mem p') = length (mem p)" "r' \<noteq> None \<longrightarrow> doc_ok e p'"
        using obj_loop_ok [OF e, of "ptr + 1" "length tx" 0 "[]" p] ptr e by (auto simp: ends_def)
      have "json_create tx m junk = do { (tx, p, r) \<leftarrow> obj_loop (length tx) tx p 0 (ptr + 1); Some (tx, p, if r = None then None else Some 0) }"
        using r Some True c m
        by (auto simp: json_create_def json_createWithPool_def poolInit_def c_simps objValue_def p_def t_def)
      then show ?thesis using l by (auto simp: p_def)
    qed (use r Some c in \<open>simp add: json_create_def json_createWithPool_def\<close>)
  qed
qed

text \<open>Reading a finished document stays inside the array and the text.\<close>

lemma str_from_ok: "ends e tx \<Longrightarrow> i \<le> e \<Longrightarrow> \<exists>s. str_from tx i = Some s"
proof -
  assume a: "ends e tx" "i \<le> e"
  then have "drop i tx ! (e - i) = nul" "e - i < length (drop i tx)" by (auto simp: ends_def)
  then have "nul \<in> set (drop i tx)" by (metis nth_mem)
  then show ?thesis by (simp add: str_from_def)
qed

lemma name_matches_ok:
  assumes "ends e tx" and "\<forall>k. nm = Some k \<longrightarrow> k \<le> e"
  shows "\<exists>b. (case nm of None \<Rightarrow> Some False | Some k \<Rightarrow> map_option (\<lambda>t. t = property) (str_from tx k)) = Some b"
proof (cases nm)
  case (Some k)
  then obtain s where "str_from tx k = Some s" using str_from_ok [OF assms(1)] assms(2) by blast
  then show ?thesis using Some by simp
qed auto

lemma property_loop_ok:
  assumes doc: "doc_ok e p" and e: "ends e tx"
  shows "(\<forall>i. s = Some i \<longrightarrow> i < nextFree p \<and> nextFree p < fuel + i) \<Longrightarrow> 0 < fuel \<Longrightarrow>
    \<exists>r. property_loop fuel tx p s property = Some r \<and> (\<forall>i. r = Some i \<longrightarrow> i < nextFree p)"
proof (induction fuel arbitrary: s)
  case (Suc fuel)
  show ?case
  proof (cases s)
    case (Some i)
    then have i: "i < nextFree p" "nextFree p < Suc fuel + i" "i < length (mem p)" using Suc.prems doc by (auto simp: doc_ok_def)
    then have ok: "node_ok e (nextFree p) i (mem p ! i)" "sib_ok (nextFree p) i (mem p ! i)" using doc by (auto simp: doc_ok_def)
    obtain b where b: "(case name (mem p ! i) of None \<Rightarrow> Some False | Some k \<Rightarrow> map_option (\<lambda>t. t = property) (str_from tx k)) = Some b"
      using ok(1) name_matches_ok [OF e, of "name (mem p ! i)"] by (auto simp: node_ok_def)
    show ?thesis
    proof (cases b)
      case False
      have "\<forall>j. sibling (mem p ! i) = Some j \<longrightarrow> j < nextFree p \<and> nextFree p < fuel + j" "0 < fuel"
        using ok(2) i by (auto simp: sib_ok_def)
      from Suc.IH [OF this] show ?thesis using Some b False i by (simp add: c_simps)
    qed (use Some b i in \<open>simp add: c_simps\<close>)
  qed simp
qed simp

text \<open>What the functions that read a document return for a node.\<close>

definition readable :: "char list \<Rightarrow> jpool \<Rightarrow> nat \<Rightarrow> bool" where
  "readable tx p i \<longleftrightarrow> (\<exists>t s. json_getType p i = Some t \<and>
     json_getSibling p i = Some s \<and> (\<forall>j. s = Some j \<longrightarrow> i < j \<and> j < nextFree p) \<and>
     (if t \<in> {JSON_OBJ, JSON_ARRAY}
      then (\<exists>c. json_getChild p i = Some c \<and> (\<forall>j. c = Some j \<longrightarrow> i < j \<and> j < nextFree p)) \<and>
        (\<forall>property. \<exists>r. json_getProperty tx p i property = Some r \<and> (\<forall>j. r = Some j \<longrightarrow> j < nextFree p)) \<and>
        (\<forall>property. \<exists>v. json_getPropertyValue tx p i property = Some v)
      else (\<exists>v. json_getValue tx p i = Some v)))"

lemma json_getValue_ok:
  assumes "doc_ok e p" and "ends e tx" and "i < nextFree p" and "type (mem p ! i) \<notin> {JSON_OBJ, JSON_ARRAY}"
  shows "\<exists>v. json_getValue tx p i = Some v"
proof -
  have i: "i < length (mem p)" "node_ok e (nextFree p) i (mem p ! i)" using assms by (auto simp: doc_ok_def)
  then obtain v where "un (mem p ! i) = Value v" "v \<le> e" using assms(4) by (auto simp: node_ok_def split: junion.splits)
  then show ?thesis using str_from_ok [OF assms(2), of v] i by (simp add: json_getValue_def c_simps)
qed

lemma doc_readable:
  assumes doc: "doc_ok e p" and e: "ends e tx" and i: "i < nextFree p"
  shows "readable tx p i"
proof -
  let ?n = "mem p ! i"
  have len: "i < length (mem p)" "nextFree p \<le> length (mem p)"
    and ok: "node_ok e (nextFree p) i ?n" "sib_ok (nextFree p) i ?n" using doc i by (auto simp: doc_ok_def)
  have field: "\<exists>v. json_getValue tx p j = Some v" if "j < nextFree p" "type (mem p ! j) \<notin> {JSON_OBJ, JSON_ARRAY}" for j
    by (rule json_getValue_ok [OF doc e that])
  show ?thesis
  proof (cases "type ?n \<in> {JSON_OBJ, JSON_ARRAY}")
    case True
    then obtain c l where un: "un ?n = Children c l" using ok(1) by (auto simp: node_ok_def split: junion.splits)
    then have c: "json_getChild p i = Some c" "\<forall>j. c = Some j \<longrightarrow> i < j \<and> j < nextFree p"
      using ok(1) len by (auto simp: json_getChild_def c_simps node_ok_def)
    have search: "\<exists>r. json_getProperty tx p i property = Some r \<and> (\<forall>j. r = Some j \<longrightarrow> j < nextFree p)" for property
      using property_loop_ok [OF doc e, of c "Suc (length (mem p))" property] c len(2) by (fastforce simp: json_getProperty_def)
    have "\<exists>v. json_getPropertyValue tx p i property = Some v" for property
    proof -
      obtain r where r: "json_getProperty tx p i property = Some r" "\<forall>j. r = Some j \<longrightarrow> j < nextFree p" using search by blast
      show ?thesis
      proof (cases r)
        case (Some j)
        then have "j < nextFree p" "j < length (mem p)" using r len by auto
        then show ?thesis
          using r Some field [of j] by (auto simp: json_getPropertyValue_def json_getType_def c_simps)
      qed (use r in \<open>simp add: json_getPropertyValue_def\<close>)
    qed
    then show ?thesis
      using True c search ok(2) len unfolding readable_def
      by (simp add: json_getType_def json_getSibling_def c_simps sib_ok_def)
  next
    case False
    then show ?thesis
      using field [OF i] ok(2) len unfolding readable_def
      by (simp add: json_getType_def json_getSibling_def c_simps sib_ok_def)
  qed
qed

text \<open>C10: On any text with a terminator and any array of at least one node, whatever they hold, the parser returns: it stays inside
  the text and the array, and returns a null pointer or the root. Then every node of the document can be read: the links lead to
  later nodes of the array (so that walking along them ends), a container has a list of children and can be searched for a
  property, and any other node has a text with a terminator.\<close>

theorem json_create_safe:
  assumes "nul \<in> set tx" and "m \<noteq> []"
  shows "\<exists>tx' p r. json_create tx m junk = Some (tx', p, r) \<and> length tx' = length tx \<and>
    (r = None \<or> r = Some 0 \<and> 0 < nextFree p \<and> nextFree p \<le> length m \<and> (\<forall>i<nextFree p. readable tx' p i))"
proof -
  obtain e where e: "ends e tx" using assms(1) by (auto simp: in_set_conv_nth ends_def)
  from json_create_ok [OF e assms(2)] show ?thesis
    using doc_readable by (fastforce simp: doc_ok_def)
qed

definition blank_node :: json_t where
  "blank_node = \<lparr>sibling = None, name = None, un = Value 0, type = JSON_NULL\<rparr>"

definition demo_doc :: "char list" where
  "demo_doc = ''{'' @ [CHR 0x22] @ ''a'' @ [CHR 0x22] @ '' : [1, -20], '' @ [CHR 0x22] @ ''b'' @ [CHR 0x22] @ '':true}'' @ [nul]"

lemma json_create_safe_witness:
  "(\<exists>tx' p r. json_create demo_doc (replicate 6 blank_node) 0 = Some (tx', p, r) \<and> length tx' = length demo_doc \<and>
    (r = None \<or> r = Some 0 \<and> 0 < nextFree p \<and> nextFree p \<le> length (replicate 6 blank_node) \<and> (\<forall>i<nextFree p. readable tx' p i))) \<and>
   (do { (tx, p, r) \<leftarrow> json_create demo_doc (replicate 6 blank_node) 0; json_getPropertyValue tx p 0 ''b'' }) = Some (Some ''true'')"
proof
  have "nul \<in> set demo_doc" "replicate 6 blank_node \<noteq> []" by code_simp+
  from json_create_safe [OF this, of 0]
  show "\<exists>tx' p r. json_create demo_doc (replicate 6 blank_node) 0 = Some (tx', p, r) \<and> length tx' = length demo_doc \<and>
    (r = None \<or> r = Some 0 \<and> 0 < nextFree p \<and> nextFree p \<le> length (replicate 6 blank_node) \<and> (\<forall>i<nextFree p. readable tx' p i))" .
  show "(do { (tx, p, r) \<leftarrow> json_create demo_doc (replicate 6 blank_node) 0; json_getPropertyValue tx p 0 ''b'' }) = Some (Some ''true'')"
    by code_simp
qed

section \<open>Strings with escapes\<close>

text \<open>The reference encoder.\<close>

definition escape_char :: "char \<Rightarrow> string" where
  "escape_char c =
     (if c = CHR 0x22 \<or> c = CHR 0x5C then [CHR 0x5C, c]
      else if c = CHR 0x08 then [CHR 0x5C, CHR ''b'']
      else if c = CHR 0x0C then [CHR 0x5C, CHR ''f'']
      else if c = CHR 0x0A then [CHR 0x5C, CHR ''n'']
      else if c = CHR 0x0D then [CHR 0x5C, CHR ''r'']
      else if c = CHR 0x09 then [CHR 0x5C, CHR ''t'']
      else [c])"

definition escape :: "string \<Rightarrow> string" where
  "escape s = concat (map escape_char s)"

lemma escape_char_cases:
  assumes "c \<noteq> nul"
  shows "escape_char c = [c] \<and> c \<noteq> CHR 0x22 \<and> c \<noteq> CHR 0x5C \<or>
    (\<exists>d. escape_char c = [CHR 0x5C, d] \<and> d \<noteq> CHR ''u'' \<and> getEscape d = c)"
  by (simp add: escape_char_def getEscape_def)

lemma put_append: "put (A @ x # R) (length A) c = Some (A @ c # R)"
  by (simp add: c_simps)

lemma at_append: "at (A @ J @ c # R) (length A + length J) = Some c"
  by (simp add: c_simps nth_append)

text \<open>One character of the encoded string.\<close>

lemma parse_string_char:
  assumes "c \<noteq> nul" and "J @ escape_char c = x # J'"
  shows "parse_string (A @ J @ escape_char c @ R) (length A + length J) (length A) =
    parse_string ((A @ [c]) @ J' @ R) (length (A @ [c]) + length J') (length (A @ [c]))"
proof -
  have put: "put (A @ J @ escape_char c @ R) (length A) c = Some (A @ c # J' @ R)"
    using put_append [of A x "J' @ R" c] assms(2) by (metis append.assoc append_Cons)
  have len: "length J' + 1 = length J + length (escape_char c)"
    using arg_cong [OF assms(2), of length] by simp
  from escape_char_cases [OF assms(1)] show ?thesis
  proof (elim disjE exE conjE)
    assume "escape_char c = [c]" "c \<noteq> CHR 0x22" "c \<noteq> CHR 0x5C"
    then show ?thesis
      using put len at_append [of A J c R] assms(1)
      by (subst parse_string.simps) (simp add: add.assoc)
  next
    fix d assume d: "escape_char c = [CHR 0x5C, d]" "d \<noteq> CHR ''u''" "getEscape d = c"
    then show ?thesis
      using put len at_append [of A J "CHR 0x5C" "d # R"] at_append [of A "J @ [CHR 0x5C]" d R] assms(1)
      by (subst parse_string.simps) (simp add: add.assoc)
  qed
qed

lemma parse_string_escape:
  assumes "nul \<notin> set s"
  shows "\<exists>K. parse_string (A @ J @ escape s @ CHR 0x22 # R) (length A + length J) (length A) =
      Some (A @ s @ nul # K @ R, Some (length A + length J + length (escape s) + 1)) \<and>
    length s + length K = length J + length (escape s)"
  using assms
proof (induction s arbitrary: A J)
  case Nil
  obtain x J' where x: "J @ [CHR 0x22] = x # J'" by (cases J) auto
  have "put (A @ J @ CHR 0x22 # R) (length A) nul = Some (A @ nul # J' @ R)"
    using put_append [of A x "J' @ R" nul] x by (metis append.assoc append_Cons append_Nil)
  moreover have "length J' = length J" using arg_cong [OF x, of length] by simp
  ultimately show ?case
    using at_append [of A J "CHR 0x22" R] by (auto simp: escape_def parse_string.simps [of _ "length A + length J"])
next
  case (Cons c s)
  have c: "c \<noteq> nul" using Cons.prems by auto
  obtain x J' where x: "J @ escape_char c = x # J'"
    using escape_char_cases [OF c] by (cases J) auto
  have len: "length J' + 1 = length J + length (escape_char c)" using arg_cong [OF x, of length] by simp
  obtain K where "parse_string ((A @ [c]) @ J' @ escape s @ CHR 0x22 # R) (length (A @ [c]) + length J') (length (A @ [c])) =
      Some ((A @ [c]) @ s @ nul # K @ R, Some (length (A @ [c]) + length J' + length (escape s) + 1))"
      "length s + length K = length J' + length (escape s)"
    using Cons.IH [of "A @ [c]" J'] Cons.prems by auto
  then show ?case
    using parse_string_char [OF c x, of A "escape s @ CHR 0x22 # R"] len by (auto simp: escape_def)
qed

text \<open>C23: Reading a string undoes the encoding: at the start of an encoded string that ends with a quotation mark, the text is
  replaced by the string itself with a terminator, what precedes and what follows stays, and the pointer returned is behind the
  quotation mark.\<close>

theorem parseString_escape:
  assumes "nul \<notin> set s"
  shows "\<exists>tx'. parseString (pre @ escape s @ CHR 0x22 # post) (length pre) =
      Some (tx', Some (length pre + length (escape s) + 1)) \<and>
    str_from tx' (length pre) = Some s \<and> take (length pre) tx' = pre \<and>
    drop (length pre + length (escape s) + 1) tx' = post"
proof -
  obtain K where K: "parse_string (pre @ [] @ escape s @ CHR 0x22 # post) (length pre + length ([] :: string)) (length pre) =
      Some (pre @ s @ nul # K @ post, Some (length pre + length ([] :: string) + length (escape s) + 1))"
      "length s + length K = length ([] :: string) + length (escape s)"
    using parse_string_escape [OF assms] by blast
  then have "length (escape s) = length s + length K" by simp
  then have "drop (length pre + length (escape s) + 1) (pre @ s @ nul # K @ post) = post" by simp
  then show ?thesis
    using K assms by (simp add: parseString_def str_from_def cstr_terminated)
qed

theorem parseString_escape_witness:
  "\<exists>tx'. parseString ([CHR 0x22] @ escape [CHR ''a'', CHR 0x0A, CHR 0x22] @ CHR 0x22 # '':1'') (length [CHR 0x22]) =
      Some (tx', Some (length [CHR 0x22] + length (escape [CHR ''a'', CHR 0x0A, CHR 0x22]) + 1)) \<and>
    str_from tx' (length [CHR 0x22]) = Some [CHR ''a'', CHR 0x0A, CHR 0x22] \<and> take (length [CHR 0x22]) tx' = [CHR 0x22] \<and>
    drop (length [CHR 0x22] + length (escape [CHR ''a'', CHR 0x0A, CHR 0x22]) + 1) tx' = '':1''"
  by (rule parseString_escape) simp

section \<open>The text keeps its length\<close>

text \<open>The parser writes terminators into the text in place; whatever it is given, the text afterwards is as long as before.\<close>

lemma setToNull_text: "setToNull tx i = Some (tx', j) \<Longrightarrow> length tx' = length tx"
  by (auto simp: setToNull_def dest: length_put split: Option.bind_splits if_splits)

lemma parse_string_text: "parse_string tx h t = Some (tx', r) \<Longrightarrow> length tx' = length tx"
proof (induction "length tx - h" arbitrary: tx h t rule: less_induct)
  case less
  have step: "length tx' = length tx" if "put tx t c = Some tx1" "parse_string tx1 (h + Suc k) (t + 1) = Some (tx', r)" "h < length tx" for tx1 c k
    using less.hyps [of tx1 "h + Suc k" "t + 1"] that length_put [OF that(1)] by simp
  have "h < length tx" using less.prems by (subst (asm) parse_string.simps) (auto dest: at_SomeD split: option.splits)
  with less.prems show ?case
    by (subst (asm) parse_string.simps)
      (auto dest: length_put step [where k = 0, simplified] step [where k = 1, simplified] step [where k = 5, simplified] simp: Let_def split: option.splits if_splits)
qed

lemma propertyName_text: "propertyName tx p i m = Some (tx', p', r) \<Longrightarrow> length tx' = length tx"
  by (auto simp: propertyName_def parseString_def dest!: parse_string_text split: Option.bind_splits option.splits if_splits)

lemma textValue_text: "textValue tx p i m = Some (tx', p', r) \<Longrightarrow> length tx' = length tx"
  by (auto simp: textValue_def parseString_def dest!: parse_string_text split: Option.bind_splits option.splits)

lemma primitiveValue_text: "primitiveValue tx p i m v t = Some (tx', p', r) \<Longrightarrow> length tx' = length tx"
  by (auto simp: primitiveValue_def dest!: setToNull_text split: Option.bind_splits option.splits if_splits)

lemma num_close_text: "num_close tx p i m = Some (tx', p', r) \<Longrightarrow> length tx' = length tx"
  by (auto simp: num_close_def Let_def dest!: setToNull_text length_put split: Option.bind_splits if_splits)

lemma numValue_text: "numValue tx p i m = Some (tx', p', r) \<Longrightarrow> length tx' = length tx"
  by (auto simp: numValue_def dest!: num_close_text split: Option.bind_splits option.splits)

lemmas value_texts = textValue_text primitiveValue_text numValue_text

lemma property_value_text: "property_value tx p obj m i = Some (tx', p', obj', r) \<Longrightarrow> length tx' = length tx"
  by (auto simp: property_value_def trueValue_def falseValue_def nullValue_def dest!: value_texts split: Option.bind_splits if_splits)

lemma new_property_text: "new_property obj m (tx, p, r) = Some (tx', p', r') \<Longrightarrow> length tx' = length tx"
  by (auto simp: new_property_def dest!: property_value_text split: Option.bind_splits option.splits)

lemma obj_round_text: "obj_round tx p obj i = Some (tx', p', r) \<Longrightarrow> length tx' = length tx"
  by (auto simp: obj_round_def dest!: new_property_text propertyName_text length_put split: Option.bind_splits option.splits if_splits prod.splits)

lemma obj_loop_text: "obj_loop fuel tx p obj i = Some (tx', p', r) \<Longrightarrow> length tx' = length tx"
proof (induction fuel arbitrary: tx p obj i)
  case (Suc fuel)
  from Suc.prems show ?case
    by (auto dest!: obj_round_text Suc.IH split: Option.bind_splits option.splits round.splits)
qed simp

lemma json_create_text: "json_create tx m junk = Some (tx', p, r) \<Longrightarrow> length tx' = length tx"
  by (auto simp: json_create_def json_createWithPool_def objValue_def Let_def dest!: obj_loop_text
      split: Option.bind_splits option.splits if_splits prod.splits)

end
