(* ===== verification/Key_Import.thy ===== *)
theory Key_Import
  imports Tiny_Json Bls_Hsm_Ns
begin

text \<open>
  The second half of \<^verbatim>\<open>src/lib/httpRemote.h\<close>: the import of password-protected key files sent to the key manager
  endpoint.

  The body of the request is a text that holds, as JSON strings, further JSON documents; both are parsed in place. A parsed key
  file is its position in the text with the array of its nodes. \<open>None\<close> is an access outside an array, the use of the wrong
  member of a union, of a null pointer, of a variable that no longer exists, or of a tiny-json node where cJSON expects its own.
\<close>

section \<open>Reading the fields of a key file\<close>

text \<open>The test of a pointer for null, with the value returned then.\<close>

definition need :: "'a option option \<Rightarrow> 'b \<Rightarrow> ('a \<Rightarrow> 'b option) \<Rightarrow> 'b option" where
  "need r bad k = (case r of None \<Rightarrow> None | Some None \<Rightarrow> Some bad | Some (Some x) \<Rightarrow> k x)"

type_synonym keyfile = "nat \<times> jpool"

definition field :: "char list \<Rightarrow> keyfile \<Rightarrow> nat \<Rightarrow> string \<Rightarrow> nat option option" where
  "field tx ks obj property = json_getProperty (drop (fst ks) tx) (snd ks) obj property"

text \<open>A field that must have a type.\<close>

definition typed_field :: "char list \<Rightarrow> keyfile \<Rightarrow> nat \<Rightarrow> string \<Rightarrow> jsonType \<Rightarrow> nat option option" where
  "typed_field tx ks obj property t = do {
     r \<leftarrow> field tx ks obj property;
     case r of None \<Rightarrow> Some None
     | Some j \<Rightarrow> do { ty \<leftarrow> json_getType (snd ks) j; Some (if ty \<noteq> t then None else Some j) }
   }"

definition value_of :: "char list \<Rightarrow> keyfile \<Rightarrow> nat \<Rightarrow> string option" where
  "value_of tx ks j = json_getValue (drop (fst ks) tx) (snd ks) j"

text \<open>\<open>strtoll\<close> at base ten on the text of an integer, and the conversion to \<open>int\<close> of the callers.\<close>

definition dec_nat :: "string \<Rightarrow> nat" where
  "dec_nat s = of_dec (takeWhile is_digit s)"

definition json_getInteger :: "char list \<Rightarrow> keyfile \<Rightarrow> nat \<Rightarrow> 64 word option" where
  "json_getInteger tx ks j = do {
     s \<leftarrow> value_of tx ks j;
     Some (if chr_at s 0 = CHR ''-'' then - word_of_nat (dec_nat (tl s)) else word_of_nat (dec_nat s))
   }"

definition to_int :: "64 word \<Rightarrow> int" where
  "to_int w = sint (ucast w :: 32 word)"

text \<open>\<open>keystores[i] == NULL || json_getType(keystores[i]) != JSON_OBJ\<close>.\<close>

definition key_object :: "keyfile option list \<Rightarrow> nat \<Rightarrow> keyfile option option" where
  "key_object keystores i = do {
     k \<leftarrow> at keystores i;
     case k of None \<Rightarrow> Some None
     | Some ks \<Rightarrow> do { t \<leftarrow> json_getType (snd ks) 0; Some (if t \<noteq> JSON_OBJ then None else Some ks) }
   }"

abbreviation (input) SCRYPTTYPE :: int where "SCRYPTTYPE \<equiv> 1"
abbreviation (input) PBKDF2TYPE :: int where "PBKDF2TYPE \<equiv> 2"

definition get_decryption_key_encryption_type :: "char list \<Rightarrow> keyfile option list \<Rightarrow> nat \<Rightarrow> int \<Rightarrow> (int \<times> int) option" where
  "get_decryption_key_encryption_type tx keystores i ty =
     need (key_object keystores i) (BADJSONFORMAT, ty) (\<lambda>ks.
     need (field tx ks 0 ''crypto'') (BADJSONFORMAT, ty) (\<lambda>crypto.
     need (field tx ks crypto ''kdf'') (BADJSONFORMAT, ty) (\<lambda>kdf.
     need (typed_field tx ks kdf ''function'' JSON_TEXT) (BADJSONFORMAT, ty) (\<lambda>json_function. do {
       function \<leftarrow> value_of tx ks json_function;
       Some (if function = ''pbkdf2'' then (0, PBKDF2TYPE) else if function = ''scrypt'' then (0, SCRYPTTYPE) else (-1, ty))
     }))))"

text \<open>A password is a position in the text, or the array of a block that has been left.\<close>

datatype password = In_Text nat | Left_Block

definition password_text :: "char list \<Rightarrow> password list \<Rightarrow> nat \<Rightarrow> string option" where
  "password_text tx passwords i = do {
     w \<leftarrow> at passwords i;
     case w of In_Text k \<Rightarrow> str_from tx k | Left_Block \<Rightarrow> None
   }"

text \<open>Only NRF builds derive the key here; the others leave it as it is.\<close>

definition get_decryption_key_pbkdf2_params :: "build \<Rightarrow> kdf \<Rightarrow> (nat \<Rightarrow> byte) \<Rightarrow> char list \<Rightarrow> keyfile option list \<Rightarrow> password list \<Rightarrow> nat \<Rightarrow>
    bytes \<Rightarrow> (int \<times> bytes) option" where
  "get_decryption_key_pbkdf2_params b kd junk tx keystores passwords i decryption_key =
     need (key_object keystores i) (BADJSONFORMAT, decryption_key) (\<lambda>ks.
     need (field tx ks 0 ''crypto'') (BADJSONFORMAT, decryption_key) (\<lambda>crypto.
     need (field tx ks crypto ''kdf'') (BADJSONFORMAT, decryption_key) (\<lambda>kdf.
     need (field tx ks kdf ''params'') (BADJSONFORMAT, decryption_key) (\<lambda>params.
     need (typed_field tx ks params ''dklen'' JSON_INTEGER) (BADJSONFORMAT, decryption_key) (\<lambda>json_dklen.
     need (typed_field tx ks params ''c'' JSON_INTEGER) (BADJSONFORMAT, decryption_key) (\<lambda>json_c.
     need (typed_field tx ks params ''prf'' JSON_TEXT) (BADJSONFORMAT, decryption_key) (\<lambda>json_prf.
     need (typed_field tx ks params ''salt'' JSON_TEXT) (BADJSONFORMAT, decryption_key) (\<lambda>json_salt_str. do {
       salt_str \<leftarrow> value_of tx ks json_salt_str;
       c \<leftarrow> json_getInteger tx ks json_c;
       if b = Native then Some (0, decryption_key)
       else do {
         (k, salt) \<leftarrow> hex2bin salt_str 64 (stack_arr junk 32) 32;
         if k = 0 then Some (HEX2BINERR, decryption_key)
         else do {
           pw \<leftarrow> password_text tx passwords i;
           PBKDF2 kd salt pw (to_int c) decryption_key
         }
       }
     }))))))))"

text \<open>The types of tiny-json as the numbers of their enumeration; they are compared with those of cJSON.\<close>

definition type_code :: "jsonType \<Rightarrow> int" where
  "type_code t = (case t of JSON_OBJ \<Rightarrow> 0 | JSON_ARRAY \<Rightarrow> 1 | JSON_TEXT \<Rightarrow> 2 | JSON_BOOLEAN \<Rightarrow> 3 | JSON_INTEGER \<Rightarrow> 4 | JSON_REAL \<Rightarrow> 5 | JSON_NULL \<Rightarrow> 6)"

definition coded_field :: "char list \<Rightarrow> keyfile \<Rightarrow> nat \<Rightarrow> string \<Rightarrow> int \<Rightarrow> nat option option" where
  "coded_field tx ks obj property code = do {
     r \<leftarrow> field tx ks obj property;
     case r of None \<Rightarrow> Some None
     | Some j \<Rightarrow> do { ty \<leftarrow> json_getType (snd ks) j; Some (if type_code ty \<noteq> code then None else Some j) }
   }"

record cjson_codes =
  cJSON_Number :: int
  cJSON_String :: int

definition get_decryption_key_scrypt_params :: "build \<Rightarrow> kdf \<Rightarrow> (nat \<Rightarrow> byte) \<Rightarrow> cjson_codes \<Rightarrow> char list \<Rightarrow> keyfile option list \<Rightarrow>
    password list \<Rightarrow> nat \<Rightarrow> bytes \<Rightarrow> (int \<times> bytes) option" where
  "get_decryption_key_scrypt_params b kd junk cc tx keystores passwords i decryption_key =
     (if b = Native then
       need (key_object keystores i) (BADJSONFORMAT, decryption_key) (\<lambda>ks.
       need (field tx ks 0 ''crypto'') (BADJSONFORMAT, decryption_key) (\<lambda>crypto.
       need (field tx ks crypto ''kdf'') (BADJSONFORMAT, decryption_key) (\<lambda>kdf.
       need (field tx ks kdf ''params'') (BADJSONFORMAT, decryption_key) (\<lambda>params.
       need (coded_field tx ks params ''dklen'' (cJSON_Number cc)) (BADJSONFORMAT, decryption_key) (\<lambda>json_dklen.
       need (coded_field tx ks params ''n'' (cJSON_Number cc)) (BADJSONFORMAT, decryption_key) (\<lambda>json_n.
       need (coded_field tx ks params ''r'' (cJSON_Number cc)) (BADJSONFORMAT, decryption_key) (\<lambda>json_r.
       need (coded_field tx ks params ''p'' (cJSON_Number cc)) (BADJSONFORMAT, decryption_key) (\<lambda>json_p.
       need (coded_field tx ks params ''salt'' (cJSON_String cc)) (BADJSONFORMAT, decryption_key) (\<lambda>json_salt_str. do {
         dklen \<leftarrow> json_getInteger tx ks json_dklen;
         n \<leftarrow> json_getInteger tx ks json_n;
         r \<leftarrow> json_getInteger tx ks json_r;
         p \<leftarrow> json_getInteger tx ks json_p;
         salt_str \<leftarrow> value_of tx ks json_salt_str;
         pw \<leftarrow> password_text tx passwords i;
         get_decryption_key_scrypt b kd junk pw (to_int dklen) (to_int n) (to_int r) (to_int p) salt_str decryption_key
       })))))))))
      else Some (-1, decryption_key))"

definition verify_password_params :: "build \<Rightarrow> kdf \<Rightarrow> (nat \<Rightarrow> byte) \<Rightarrow> char list \<Rightarrow> keyfile option list \<Rightarrow> nat \<Rightarrow> bytes \<Rightarrow> int option" where
  "verify_password_params b kd junk tx keystores i decryption_key =
     need (key_object keystores i) BADJSONFORMAT (\<lambda>ks.
     need (field tx ks 0 ''crypto'') BADJSONFORMAT (\<lambda>crypto.
     need (field tx ks crypto ''checksum'') BADJSONFORMAT (\<lambda>checksum.
     need (field tx ks crypto ''cipher'') BADJSONFORMAT (\<lambda>cipher.
     need (typed_field tx ks checksum ''message'' JSON_TEXT) BADJSONFORMAT (\<lambda>json_checksum_message.
     need (typed_field tx ks cipher ''message'' JSON_TEXT) BADJSONFORMAT (\<lambda>json_message_cipher. do {
       checksum_message_hex \<leftarrow> value_of tx ks json_checksum_message;
       cipher_message_hex \<leftarrow> value_of tx ks json_message_cipher;
       verify_password b kd junk checksum_message_hex cipher_message_hex decryption_key
     }))))))"

definition get_private_key_params :: "build \<Rightarrow> kdf \<Rightarrow> 's svc \<Rightarrow> (nat \<Rightarrow> byte) \<Rightarrow> char list \<Rightarrow> keyfile option list \<Rightarrow> nat \<Rightarrow> bytes \<Rightarrow> bytes \<Rightarrow> 's \<Rightarrow>
    (int \<times> bytes \<times> 's) option" where
  "get_private_key_params b kd svc junk tx keystores i decryption_key private_key s =
     need (key_object keystores i) (BADJSONFORMAT, private_key, s) (\<lambda>ks.
     need (field tx ks 0 ''crypto'') (BADJSONFORMAT, private_key, s) (\<lambda>crypto.
     need (field tx ks crypto ''cipher'') (BADJSONFORMAT, private_key, s) (\<lambda>cipher.
     need (field tx ks cipher ''params'') (BADJSONFORMAT, private_key, s) (\<lambda>params.
     need (typed_field tx ks params ''iv'' JSON_TEXT) (BADJSONFORMAT, private_key, s) (\<lambda>json_iv_str.
     need (typed_field tx ks cipher ''message'' JSON_TEXT) (BADJSONFORMAT, private_key, s) (\<lambda>json_cipher_message. do {
       iv_str \<leftarrow> value_of tx ks json_iv_str;
       cipher_message \<leftarrow> value_of tx ks json_cipher_message;
       get_private_key b kd svc junk cipher_message iv_str decryption_key private_key s
     }))))))"

section \<open>The import\<close>

text \<open>One key file.\<close>

definition import_one :: "build \<Rightarrow> kdf \<Rightarrow> 's svc \<Rightarrow> (nat \<Rightarrow> byte) \<Rightarrow> cjson_codes \<Rightarrow> char list \<Rightarrow> keyfile option list \<Rightarrow> password list \<Rightarrow> nat \<Rightarrow>
    bytes \<Rightarrow> bytes \<Rightarrow> 's \<Rightarrow> (int \<times> bytes \<times> bytes \<times> 's) option" where
  "import_one b kd svc junk cc tx keystores passwords i decryption_key private_key s = do {
     (error, ty) \<leftarrow> get_decryption_key_encryption_type tx keystores i (uint (junk 0));
     if error \<noteq> 0 then Some (error, decryption_key, private_key, s)
     else do {
       (error, decryption_key) \<leftarrow>
         (if ty = PBKDF2TYPE then get_decryption_key_pbkdf2_params b kd junk tx keystores passwords i decryption_key
          else if ty = SCRYPTTYPE then get_decryption_key_scrypt_params b kd junk cc tx keystores passwords i decryption_key
          else Some (-1, decryption_key));
       if error \<noteq> 0 then Some (error, decryption_key, private_key, s)
       else do {
         error \<leftarrow> verify_password_params b kd junk tx keystores i decryption_key;
         if error \<noteq> 0 then Some (error, decryption_key, private_key, s)
         else do {
           (error, private_key, s) \<leftarrow> get_private_key_params b kd svc junk tx keystores i decryption_key private_key s;
           Some (error, decryption_key, private_key, s)
         }
       }
     }
   }"

primrec import_loop :: "nat \<Rightarrow> nat \<Rightarrow> build \<Rightarrow> kdf \<Rightarrow> 's svc \<Rightarrow> (nat \<Rightarrow> byte) \<Rightarrow> cjson_codes \<Rightarrow> char list \<Rightarrow> keyfile option list \<Rightarrow>
    password list \<Rightarrow> bytes \<Rightarrow> bytes \<Rightarrow> 's \<Rightarrow> (int \<times> 's) option" where
  "import_loop 0 i b kd svc junk cc tx keystores passwords decryption_key private_key s = Some (0, s)"
| "import_loop (Suc n) i b kd svc junk cc tx keystores passwords decryption_key private_key s = do {
     (error, decryption_key, private_key, s) \<leftarrow>
       import_one b kd svc junk cc tx keystores passwords i decryption_key private_key s;
     if error \<noteq> 0 then Some (error, s)
     else import_loop n (Suc i) b kd svc junk cc tx keystores passwords decryption_key private_key s
   }"

definition import_from_keystore :: "build \<Rightarrow> kdf \<Rightarrow> 's svc \<Rightarrow> (nat \<Rightarrow> byte) \<Rightarrow> cjson_codes \<Rightarrow> char list \<Rightarrow> keyfile option list \<Rightarrow>
    password list \<Rightarrow> nat \<Rightarrow> 's \<Rightarrow> (int \<times> 's) option" where
  "import_from_keystore b kd svc junk cc tx keystores passwords nKeys s =
     import_loop nKeys 0 b kd svc junk cc tx keystores passwords (stack_arr junk 32) (stack_arr junk 32) s"

text \<open>\<open>del\<close> fills an array of ten characters of its own and leaves its argument alone. The array is never read; \<open>keep\<close> says
  whether the compiler keeps it.\<close>

definition del :: "bool \<Rightarrow> string \<Rightarrow> char \<Rightarrow> unit option" where
  "del keep str ch = (if keep \<and> length (filter (\<lambda>c. c \<noteq> ch) str) \<ge> 10 then None else Some ())"

text \<open>The first and the last four characters of a text.\<close>

definition get_short_version :: "string \<Rightarrow> string option" where
  "get_short_version long_text = (if length long_text < 4 then None
     else Some (take 4 long_text @ ''...'' @ drop (length long_text - 4) long_text))"

text \<open>\<open>MAXKeys\<close>, the arrays \<open>keystores\<close> and \<open>passwords\<close> have this size; \<open>key_mem\<close> has room for three key files.\<close>

abbreviation (input) MAXKeys :: nat where "MAXKeys \<equiv> 10"

text \<open>The settings of a build: whether \<open>del\<close> keeps its array, the keyboard of the touch screen if there is one, and what the arrays of
  nodes hold before they are used.\<close>

record import_env =
  keep_del :: bool
  keyboard :: "(string \<Rightarrow> string) option"
  node_junk :: "nat \<Rightarrow> json_t list"

text \<open>The loop over the key files. \<open>key\<close> is a node of the request, whose array is \<open>p\<close>. The error branch frees tiny-json nodes
  with cJSON.\<close>

primrec keystores_loop :: "nat \<Rightarrow> import_env \<Rightarrow> jpool \<Rightarrow> int \<Rightarrow> nat option \<Rightarrow> nat \<Rightarrow> char list \<Rightarrow> keyfile option list \<Rightarrow>
    (nat \<times> char list \<times> keyfile option list) option" where
  "keystores_loop 0 env p nKeysAlreadyStored key nKeystores tx keystores = None"
| "keystores_loop (Suc fuel) env p nKeysAlreadyStored key nKeystores tx keystores = (case key of
     None \<Rightarrow> Some (nKeystores, tx, keystores)
   | Some j \<Rightarrow>
       if int nKeystores < int MAXKeys + nKeysAlreadyStored then do {
         n \<leftarrow> node p j;
         off \<leftarrow> (case un n of Value v \<Rightarrow> Some v | Children _ _ \<Rightarrow> None);
         keystorestr \<leftarrow> str_from tx off;
         _ \<leftarrow> del (keep_del env) keystorestr (CHR 0x5C);
         (if nKeystores < 3 then Some () else None);
         (tx', kp, r) \<leftarrow> json_create (drop off tx) (node_junk env nKeystores) 0;
         keystores \<leftarrow> put keystores nKeystores (map_option (\<lambda>_. (off, kp)) r);
         keystores_loop fuel env p nKeysAlreadyStored (sibling n) (nKeystores + 1) (take off tx @ tx') keystores
       }
       else None)"

text \<open>The text shown above the keyboard: the fields of the first key file are read for it.\<close>

definition keyboard_prompt :: "char list \<Rightarrow> keyfile option list \<Rightarrow> (int + string) option" where
  "keyboard_prompt tx keystores =
     need (key_object keystores 0) (Inl BADJSONFORMAT) (\<lambda>ks.
     need (field tx ks 0 ''crypto'') (Inl BADJSONFORMAT) (\<lambda>crypto.
     need (field tx ks crypto ''checksum'') (Inl BADJSONFORMAT) (\<lambda>checksum.
     need (typed_field tx ks checksum ''message'' JSON_TEXT) (Inl BADJSONFORMAT) (\<lambda>json_cipher_message. do {
       cipher_message \<leftarrow> value_of tx ks json_cipher_message;
       shortened_msg \<leftarrow> get_short_version cipher_message;
       Some (Inr (''Enter the password for the key '' @ shortened_msg))
     }))))"

text \<open>The loop over the passwords; \<open>Inl\<close> is an early return. A password typed on the screen goes to an array of the block.\<close>

primrec passwords_loop :: "nat \<Rightarrow> import_env \<Rightarrow> jpool \<Rightarrow> int \<Rightarrow> keyfile option list \<Rightarrow> nat option \<Rightarrow> nat \<Rightarrow> char list \<Rightarrow> password list \<Rightarrow>
    (int + nat \<times> password list) option" where
  "passwords_loop 0 env p nKeysAlreadyStored keystores pwd nPasswords tx passwords = None"
| "passwords_loop (Suc fuel) env p nKeysAlreadyStored keystores pwd nPasswords tx passwords = (case pwd of
     None \<Rightarrow> Some (Inr (nPasswords, passwords))
   | Some j \<Rightarrow>
       if int nPasswords < int MAXKeys + nKeysAlreadyStored then do {
         n \<leftarrow> node p j;
         if type n \<noteq> JSON_TEXT then None
         else do {
           off \<leftarrow> (case un n of Value v \<Rightarrow> Some v | Children _ _ \<Rightarrow> None);
           w \<leftarrow> str_from tx off;
           if w = [] then
             (case keyboard env of
                None \<Rightarrow> Some (Inl (-1))
              | Some kb \<Rightarrow> do {
                  r \<leftarrow> keyboard_prompt tx keystores;
                  case r of Inl e \<Rightarrow> Some (Inl e)
                  | Inr displayed_text \<Rightarrow>
                      if length (kb displayed_text) < 100 then do {
                        passwords \<leftarrow> put passwords nPasswords Left_Block;
                        passwords_loop fuel env p nKeysAlreadyStored keystores (sibling n) (nPasswords + 1) tx passwords
                      }
                      else None
                })
           else do {
             passwords \<leftarrow> put passwords nPasswords (In_Text off);
             passwords_loop fuel env p nKeysAlreadyStored keystores (sibling n) (nPasswords + 1) tx passwords
           }
         }
       }
       else None)"

text \<open>From the number of stored keys on. \<open>pwd\<close> is the first password.\<close>

definition import_entries :: "import_env \<Rightarrow> build \<Rightarrow> kdf \<Rightarrow> 's svc \<Rightarrow> (nat \<Rightarrow> byte) \<Rightarrow> cjson_codes \<Rightarrow> char list \<Rightarrow> jpool \<Rightarrow> nat \<Rightarrow> nat \<Rightarrow> 's \<Rightarrow>
    (int \<times> char list \<times> 's) option" where
  "import_entries env b kd svc junk cc tx p keystoresJson pwd s = do {
     (nKeysAlreadyStored, s) \<leftarrow> svc_size svc s;
     key \<leftarrow> json_getChild p keystoresJson;
     (nKeystores, tx, keystores) \<leftarrow>
       keystores_loop (Suc (length (mem p))) env p nKeysAlreadyStored key 0 tx (replicate MAXKeys None);
     w \<leftarrow> passwords_loop (Suc (length (mem p))) env p nKeysAlreadyStored keystores (Some pwd) 0 tx (replicate MAXKeys Left_Block);
     case w of Inl e \<Rightarrow> Some (e, tx, s)
     | Inr (nPasswords, passwords) \<Rightarrow>
         if nKeystores \<noteq> nPasswords then Some (-1, tx, s)
         else do {
           (e, s) \<leftarrow> import_from_keystore b kd svc junk cc tx keystores passwords nKeystores s;
           Some (if e \<noteq> 0 then -1 else 0, tx, s)
         }
   }"

text \<open>The result and the text afterwards. \<open>EXIT_FAILURE\<close> is 1.\<close>

definition httpImportFromKeystore :: "import_env \<Rightarrow> build \<Rightarrow> kdf \<Rightarrow> 's svc \<Rightarrow> (nat \<Rightarrow> byte) \<Rightarrow> cjson_codes \<Rightarrow> char list \<Rightarrow> 's \<Rightarrow>
    (int \<times> char list \<times> 's) option" where
  "httpImportFromKeystore env b kd svc junk cc body s = do {
     (tx, p, r) \<leftarrow> json_create body (node_junk env 3) 0;
     need (Some r) (1, tx, s) (\<lambda>json.
     need (json_getProperty tx p json ''keystores'') (1, tx, s) (\<lambda>keystoresJson.
     need (json_getProperty tx p json ''passwords'') (-1, tx, s) (\<lambda>passwordsJson. do {
       t \<leftarrow> json_getType p passwordsJson;
       if t \<noteq> JSON_ARRAY then Some (-1, tx, s)
       else need (json_getChild p passwordsJson) (-1, tx, s) (\<lambda>pwd.
         import_entries env b kd svc junk cc tx p keystoresJson pwd s)
     })))
   }"

section \<open>No key file is ever imported\<close>

lemma need_SomeD: "need r bad k = Some x \<Longrightarrow> x = bad \<or> (\<exists>y. r = Some (Some y) \<and> k y = Some x)"
  by (auto simp: need_def split: option.splits)

lemma verify_password_fails:
  assumes "hash_sizes kd" and "verify_password b kd junk checksum cipher key = Some r"
  shows "r \<noteq> 0"
  using assms(2) checksum_text_None [OF assms(1)]
  by (auto simp: verify_password_def Let_def split: if_splits Option.bind_splits)

lemma verify_password_params_fails:
  assumes "hash_sizes kd" and "verify_password_params b kd junk tx keystores i key = Some r"
  shows "r \<noteq> 0"
  using assms(2) verify_password_fails [OF assms(1)]
  by (fastforce simp: verify_password_params_def dest!: need_SomeD split: Option.bind_splits)

lemma import_one_fails:
  assumes "hash_sizes kd"
    and "import_one b kd svc junk cc tx keystores passwords i key priv s = Some (e, key', priv', s')"
  shows "e \<noteq> 0 \<and> s' = s"
  using assms(2) verify_password_params_fails [OF assms(1)]
  by (auto simp: import_one_def split: Option.bind_splits if_splits)

lemma import_from_keystore_fails:
  assumes "hash_sizes kd" and "0 < n"
    and "import_from_keystore b kd svc junk cc tx keystores passwords n s = Some (e, s')"
  shows "e \<noteq> 0 \<and> s' = s"
  using assms(2,3)
  by (cases n) (auto simp: import_from_keystore_def split: Option.bind_splits if_splits dest!: import_one_fails [OF assms(1)])

lemma passwords_loop_counts:
  "passwords_loop fuel env p m keystores pwd n tx passwords = Some (Inr (n', passwords')) \<Longrightarrow> n \<le> n' \<and> (pwd \<noteq> None \<longrightarrow> n < n')"
proof (induction fuel arbitrary: pwd n passwords)
  case (Suc fuel)
  show ?case
  proof (cases pwd)
    case (Some j)
    with Suc.prems obtain q pw where "passwords_loop fuel env p m keystores q (n + 1) tx pw = Some (Inr (n', passwords'))"
      by (auto split: if_splits Option.bind_splits option.splits sum.splits)
    from Suc.IH [OF this] show ?thesis by simp
  qed (use Suc.prems in simp)
qed simp

text \<open>The loop over the key files stays inside \<open>key_mem\<close> only if there are at most three.\<close>

lemma keystores_loop_bound:
  "keystores_loop fuel env p m key n tx keystores = Some (n', tx', keystores') \<Longrightarrow> n \<le> 3 \<Longrightarrow> n' \<le> 3"
proof (induction fuel arbitrary: key n tx keystores)
  case (Suc fuel)
  show ?case
  proof (cases key)
    case (Some j)
    with Suc.prems obtain q t ks where "n < 3" "keystores_loop fuel env p m q (n + 1) t ks = Some (n', tx', keystores')"
      by (auto split: if_splits Option.bind_splits option.splits)
    then show ?thesis using Suc.IH [of q "n + 1" t ks] by simp
  qed (use Suc.prems in simp)
qed simp

lemma keyboard_prompt_error: "keyboard_prompt tx keystores = Some (Inl e) \<Longrightarrow> e = BADJSONFORMAT"
  by (fastforce simp: keyboard_prompt_def dest!: need_SomeD split: Option.bind_splits)

lemma passwords_loop_error:
  "passwords_loop fuel env p m keystores pwd n tx passwords = Some (Inl e) \<Longrightarrow> e \<noteq> 0"
proof (induction fuel arbitrary: pwd n passwords)
  case (Suc fuel)
  then show ?case
    by (auto split: if_splits Option.bind_splits option.splits sum.splits dest: Suc.IH keyboard_prompt_error)
qed simp

lemma import_entries_fails:
  assumes sha: "hash_sizes kd" and sz: "svc_size svc s = Some (n, s)"
    and r: "import_entries env b kd svc junk cc tx p k pwd s = Some (r, tx', s')"
  shows "r \<noteq> 0 \<and> s' = s"
proof -
  let ?pws = "\<lambda>ks t. passwords_loop (Suc (length (mem p))) env p n ks (Some pwd) 0 t (replicate MAXKeys Left_Block)"
  obtain m0 t ks w where w: "?pws ks t = Some w"
    and rest: "(case w of Inl e \<Rightarrow> Some (e, t, s)
      | Inr (m, pws) \<Rightarrow> if m0 \<noteq> m then Some (-1, t, s)
          else do { (e, s) \<leftarrow> import_from_keystore b kd svc junk cc t ks pws m0 s; Some (if e \<noteq> 0 then -1 else 0, t, s) }) = Some (r, tx', s')"
    using r by (auto simp: import_entries_def sz bind_eq_Some_conv)
  show ?thesis
  proof (cases w)
    case (Inl e)
    then have "e \<noteq> 0" using passwords_loop_error [OF w [unfolded Inl]] by simp
    then show ?thesis using rest Inl by simp
  next
    case (Inr v)
    obtain m pws where v: "v = (m, pws)" by (cases v)
    have "0 < m" using passwords_loop_counts [OF w [unfolded Inr v]] by simp
    then have fails: "e \<noteq> 0 \<and> s2 = s" if "import_from_keystore b kd svc junk cc t ks pws m s = Some (e, s2)" for e s2
      using import_from_keystore_fails [OF sha _ that] by simp
    show ?thesis
    proof (cases "m0 = m")
      case True
      then obtain e s2 where "import_from_keystore b kd svc junk cc t ks pws m s = Some (e, s2)" "r = (if e \<noteq> 0 then -1 else 0)" "s' = s2"
        using rest unfolding Inr v by (cases "import_from_keystore b kd svc junk cc t ks pws m s") auto
      then show ?thesis using fails by simp
    qed (use rest Inr v in simp)
  qed
qed

lemma http_import_fails:
  assumes sha: "hash_sizes kd" and sz: "svc_size svc s = Some (n, s)"
    and r: "httpImportFromKeystore env b kd svc junk cc body s = Some (r, tx, s')"
  shows "r \<noteq> 0 \<and> s' = s"
  using r unfolding httpImportFromKeystore_def
  by (fastforce simp: bind_eq_Some_conv dest!: need_SomeD dest: import_entries_fails [OF sha sz] split: if_splits)


lemma type_code_range: "0 \<le> type_code t \<and> type_code t \<le> 6"
  by (cases t) (simp_all add: type_code_def)

lemma coded_field_fails: "coded_field tx ks obj property 8 \<noteq> Some (Some j)"
proof
  assume "coded_field tx ks obj property 8 = Some (Some j)"
  then obtain t where "type_code t = 8"
    by (auto simp: coded_field_def bind_eq_Some_conv split: option.splits if_splits)
  then show False using type_code_range [of t] by simp
qed

text \<open>A key file that uses scrypt is refused by every build: the builds that support it compare the type of a tiny-json node
  with the constant of cJSON for a number, which is 8 and never equals it.\<close>

theorem scrypt_params_refused:
  assumes "cJSON_Number cc = 8"
    and "get_decryption_key_scrypt_params b kd junk cc tx keystores passwords i key = Some (e, key')"
  shows "e \<noteq> 0 \<and> key' = key"
proof (cases "b = Native")
  case True
  then show ?thesis
    using assms unfolding get_decryption_key_scrypt_params_def
    by (auto simp: coded_field_fails dest!: need_SomeD)
next
  case False
  then show ?thesis using assms(2) by (simp add: get_decryption_key_scrypt_params_def)
qed


definition demo_env :: import_env where
  "demo_env = \<lparr>keep_del = True, keyboard = None, node_junk = \<lambda>_. replicate 8 blank_node\<rparr>"

definition quoted :: "string \<Rightarrow> string" where
  "quoted s = [CHR 0x22] @ s @ [CHR 0x22]"

definition demo_body :: "char list" where
  "demo_body = ''{'' @ quoted ''keystores'' @ '':['' @ quoted ''x'' @ ''],'' @ quoted ''passwords'' @ '':['' @ quoted ''y'' @ '']}'' @ [nul]"

lemma demo_import:
  "map_option (\<lambda>(r, tx, st). r) (httpImportFromKeystore demo_env Native demo_kdf (direct_svc Native demo_ext (\<lambda>_. 0)) (\<lambda>_. 0)
     \<lparr>cJSON_Number = 8, cJSON_String = 16\<rparr> demo_body demo_hsm) = Some (-1)"
  by code_simp


lemma demo_scrypt:
  "map_option fst (get_decryption_key_scrypt_params Native demo_kdf (\<lambda>_. 0) \<lparr>cJSON_Number = 8, cJSON_String = 16\<rparr> demo_body
     (replicate 10 None) [] 0 []) = Some BADJSONFORMAT"
  by code_simp

theorem scrypt_params_refused_witness:
  "\<exists>e key'. get_decryption_key_scrypt_params Native demo_kdf (\<lambda>_. 0) \<lparr>cJSON_Number = 8, cJSON_String = 16\<rparr> demo_body
     (replicate 10 None) [] 0 [] = Some (e, key') \<and> e \<noteq> 0 \<and> key' = []"
proof -
  obtain e key' where r: "get_decryption_key_scrypt_params Native demo_kdf (\<lambda>_. 0) \<lparr>cJSON_Number = 8, cJSON_String = 16\<rparr> demo_body
     (replicate 10 None) [] 0 [] = Some (e, key')"
    using demo_scrypt by auto
  from scrypt_params_refused [OF _ r] r show ?thesis by simp
qed

text \<open>A body that is no JSON document is answered with \<open>EXIT_FAILURE\<close>, which is 1 and not a negative error; nothing else
  changes.\<close>

lemma import_no_document:
  assumes "body = c # rest" and "\<not> isOneOfThem c blank" and "c \<noteq> CHR ''{''" and "c \<noteq> CHR ''[''"
  shows "httpImportFromKeystore env b kd svc junk cc body s = Some (1, body, s)"
proof -
  have "goBlank body 0 = Some (if c = nul then None else Some 0)"
    using assms(1,2) unfolding goBlank_def goWhile_def by (subst go_while.simps) (simp add: c_simps)
  then show ?thesis
    using assms by (simp add: httpImportFromKeystore_def json_create_def json_createWithPool_def need_def c_simps)
qed

section \<open>The body keeps its length\<close>

lemma keystores_loop_text:
  "keystores_loop fuel env p m key n tx ks = Some (n', tx', ks') \<Longrightarrow> length tx' = length tx"
proof (induction fuel arbitrary: key n tx ks)
  case (Suc fuel)
  from Suc.prems show ?case
    by (auto dest!: json_create_text Suc.IH simp: add_diff_inverse_nat split: Option.bind_splits option.splits if_splits junion.splits)
qed simp

lemma import_entries_text: "import_entries env b kd svc junk cc tx p ks pwd s = Some (r, tx', s') \<Longrightarrow> length tx' = length tx"
  by (auto simp: import_entries_def simp del: keystores_loop.simps passwords_loop.simps dest!: keystores_loop_text split: Option.bind_splits sum.splits if_splits prod.splits)

lemma httpImportFromKeystore_text:
  "httpImportFromKeystore env b kd svc junk cc body s = Some (r, tx, s') \<Longrightarrow> length tx = length body"
  unfolding httpImportFromKeystore_def
  by (fastforce simp: bind_eq_Some_conv dest!: need_SomeD json_create_text import_entries_text split: if_splits)

end
