(* ===== verification/Merkleization.thy ===== *)
theory Merkleization
  imports Common
begin

text \<open>
  \<^verbatim>\<open>src/lib/merkleization.h\<close>, first part: hash tree roots of integers, the table of zero hashes, and the
  routine \<open>merge\<close> that builds a Merkle tree leaf by leaf.

  The hash is a parameter \<open>H\<close>: the 32 bytes that \<open>hash\<close> leaves for 64 bytes of input. The
  global \<open>zerohashes\<close> is a list of 64 rows that is passed along, because the code changes it: some calls of
  \<open>merge\<close> pass \<open>zerohashes[0]\<close> as the array in which the hash is accumulated. \<open>None\<close> stands for an access
  outside an array or a shift by 64.

  The specification is \<open>mtree\<close>, the Merkle root of the leaves padded with zero chunks to a power of two.
\<close>

type_synonym hashf = "bytes \<Rightarrow> bytes"
type_synonym zeros = "bytes list"

section \<open>Integers\<close>

text \<open>Big endian bytes of a number, and back.\<close>

primrec be_bytes :: "nat \<Rightarrow> nat \<Rightarrow> bytes" where
  "be_bytes 0 v = []"
| "be_bytes (Suc n) v = be_bytes n (v div 256) @ [word_of_nat v]"

definition of_be :: "bytes \<Rightarrow> nat" where
  "of_be bs = foldl (\<lambda>a b. a * 256 + unat b) 0 bs"

text \<open>\<open>sys_be16_to_cpu\<close> and its like reverse the bytes on a little-endian processor.\<close>

definition bswap :: "nat \<Rightarrow> nat \<Rightarrow> nat" where
  "bswap n v = of_be (rev (be_bytes n v))"

text \<open>\<open>sprintf\<close> with a format of \<open>2 n\<close> hexadecimal digits, for a value of \<open>n\<close> bytes.\<close>

definition sprintf_x :: "nat \<Rightarrow> nat \<Rightarrow> string" where
  "sprintf_x n v = hexstr (be_bytes n v)"

text \<open>The digits, filled up with the character 0 to 64, decoded into \<open>buf\<close>.\<close>

definition htr_digits :: "string \<Rightarrow> bytes \<Rightarrow> bytes option" where
  "htr_digits digits buf = map_option snd (hex2bin (digits @ replicate (64 - length digits) (CHR ''0'')) 64 buf 32)"

definition htru8 :: "8 word \<Rightarrow> bytes \<Rightarrow> bytes option" where
  "htru8 t buf = htr_digits (sprintf_x 1 (unat t)) buf"

definition htru16 :: "16 word \<Rightarrow> bytes \<Rightarrow> bytes option" where
  "htru16 t buf = htr_digits (sprintf_x 2 (bswap 2 (unat t))) buf"

definition htru32 :: "32 word \<Rightarrow> bytes \<Rightarrow> bytes option" where
  "htru32 t buf = htr_digits (sprintf_x 4 (bswap 4 (unat t))) buf"

definition htru64 :: "64 word \<Rightarrow> bytes \<Rightarrow> bytes option" where
  "htru64 t buf = htr_digits (sprintf_x 8 (bswap 8 (unat t))) buf"

text \<open>\<open>htrbool\<close> prints 64 characters and a terminator into \<open>buf\<close>.\<close>

definition htrbool :: "bool \<Rightarrow> bytes \<Rightarrow> bytes option" where
  "htrbool t buf = blit buf (map ord8 (replicate 63 (CHR ''0'') @ [if t then CHR ''1'' else CHR ''0'', nul]))"

definition htrversion :: "bytes \<Rightarrow> bytes \<Rightarrow> bytes option" where
  "htrversion out ver = (if length out < 32 \<or> length ver < 4 then None
     else Some (take 4 ver @ replicate 28 0 @ drop 32 out))"

section \<open>Bit lengths and depths\<close>

definition BitIndex :: "8 word \<Rightarrow> 64 word" where
  "BitIndex v = (
     let (v, out) = (if v AND 0xf0 \<noteq> 0 then (drop_bit 4 v, 4) else (v, 0 :: 64 word));
         (v, out) = (if v AND 0x0c \<noteq> 0 then (drop_bit 2 v, out OR 2) else (v, out));
         (v, out) = (if v AND 0x02 \<noteq> 0 then (drop_bit 1 v, out OR 1) else (v, out))
     in out)"

definition BitlistLen :: "bytes \<Rightarrow> 64 word \<Rightarrow> 64 word option" where
  "BitlistLen bitlist byteLen =
     (if byteLen = 0 then Some 0
      else do {
        last \<leftarrow> at bitlist (unat (byteLen - 1));
        Some (push_bit 3 (byteLen - 1) OR BitIndex last)
      })"

text \<open>The argument of \<open>BitIndex\<close> is converted to 8 bits.\<close>

definition CoverDepth :: "64 word \<Rightarrow> 8 word" where
  "CoverDepth v = (if v = 0 \<or> v = 1 then 0 else ucast (BitIndex (ucast (v - 1)) + 1))"

section \<open>Hashing\<close>

definition hashsum :: "hashf \<Rightarrow> bytes \<Rightarrow> bytes \<Rightarrow> bytes" where
  "hashsum H in1 in2 = H (take 32 in1 @ take 32 in2)"

primrec init_zero_loop :: "nat \<Rightarrow> nat \<Rightarrow> hashf \<Rightarrow> zeros \<Rightarrow> zeros option" where
  "init_zero_loop 0 i H zh = Some zh"
| "init_zero_loop (Suc n) i H zh = do {
     z \<leftarrow> at zh i;
     zh1 \<leftarrow> put zh (Suc i) (H (take 32 z @ take 32 z));
     init_zero_loop n (Suc i) H zh1
   }"

definition InitZeroHashes :: "hashf \<Rightarrow> 8 word \<Rightarrow> zeros \<Rightarrow> zeros option" where
  "InitZeroHashes H sz zh = do {
     zh1 \<leftarrow> put zh 0 (replicate 32 0);
     init_zero_loop (unat sz) 0 H zh1
   }"

text \<open>
  The loop of \<open>merge\<close>, with the bit position \<open>j\<close> and 64 - \<open>j\<close> rounds left. \<open>alias\<close> tells whether \<open>hArr\<close> is
  \<open>zerohashes[0]\<close>. The result is \<open>jj\<close>, \<open>hArr\<close> and the zero hashes.
\<close>

primrec merge_loop :: "nat \<Rightarrow> nat \<Rightarrow> hashf \<Rightarrow> bool \<Rightarrow> bytes \<Rightarrow> bytes list \<Rightarrow> zeros \<Rightarrow> 8 word \<Rightarrow> 8 word \<Rightarrow> 64 word \<Rightarrow>
    (nat \<times> bytes \<times> zeros) option" where
  "merge_loop 0 j H alias hArr tmp zh sz depth i = None"
| "merge_loop (Suc n) j H alias hArr tmp zh sz depth i =
     (if i AND push_bit j 1 = 0 then
        if i = ucast sz \<and> j < unat depth then do {
          z \<leftarrow> at zh j;
          let h = hashsum H hArr z;
          merge_loop n (Suc j) H alias h tmp (if alias then zh[0 := h] else zh) sz depth i
        }
        else Some (j, hArr, zh)
      else do {
        t \<leftarrow> at tmp j;
        let h = hashsum H t hArr;
        merge_loop n (Suc j) H alias h tmp (if alias then zh[0 := h] else zh) sz depth i
      })"

definition merge :: "hashf \<Rightarrow> bool \<Rightarrow> bytes \<Rightarrow> bytes list \<Rightarrow> zeros \<Rightarrow> 8 word \<Rightarrow> 8 word \<Rightarrow> 64 word \<Rightarrow> (bytes list \<times> zeros) option" where
  "merge H alias hArr tmp zh sz depth i = do {
     (jj, h, zh1) \<leftarrow> merge_loop 64 0 H alias hArr tmp zh sz depth i;
     tmp1 \<leftarrow> put tmp jj h;
     Some (tmp1, zh1)
   }"

section \<open>Lists\<close>

text \<open>
  The code shared by all list types. \<open>elem i\<close> computes the root of element \<open>i\<close> and may change the zero
  hashes; \<open>limit\<close> determines the depth, \<open>mix\<close> is the number mixed in at the end; \<open>nrows\<close> is the number
  of 32-byte rows that \<open>calloc\<close> provides.
\<close>

primrec leaves_loop :: "nat \<Rightarrow> nat \<Rightarrow> hashf \<Rightarrow> (nat \<Rightarrow> zeros \<Rightarrow> (bytes \<times> zeros) option) \<Rightarrow> bytes list \<Rightarrow> zeros \<Rightarrow> 64 word \<Rightarrow>
    8 word \<Rightarrow> (bytes list \<times> zeros) option" where
  "leaves_loop 0 i H el tmp zh sz depth = Some (tmp, zh)"
| "leaves_loop (Suc n) i H el tmp zh sz depth = do {
     (hArr, zh1) \<leftarrow> el i zh;
     (tmp1, zh2) \<leftarrow> merge H False hArr tmp zh1 (ucast sz) depth (word_of_nat i);
     leaves_loop n (Suc i) H el tmp1 zh2 sz depth
   }"

primrec extend_loop :: "nat \<Rightarrow> nat \<Rightarrow> hashf \<Rightarrow> bytes list \<Rightarrow> zeros \<Rightarrow> bytes list option" where
  "extend_loop 0 j H tmp zh = Some tmp"
| "extend_loop (Suc n) j H tmp zh = do {
     t \<leftarrow> at tmp j;
     z \<leftarrow> at zh j;
     tmp1 \<leftarrow> put tmp (Suc j) (hashsum H t z);
     extend_loop n (Suc j) H tmp1 zh
   }"

text \<open>The leaves, the padding of the last level, and the extension to the depth of the limit.\<close>

definition merkleize :: "hashf \<Rightarrow> nat \<Rightarrow> 64 word \<Rightarrow> (nat \<Rightarrow> zeros \<Rightarrow> (bytes \<times> zeros) option) \<Rightarrow> 8 word \<Rightarrow> 8 word \<Rightarrow> zeros \<Rightarrow> (bytes \<times> zeros) option" where
  "merkleize H nrows sz el depth limitdepth zh = do {
     (tmp, zh) \<leftarrow> leaves_loop (unat sz) 0 H el (replicate nrows (replicate 32 0)) zh sz depth;
     (tmp, zh) \<leftarrow>
       (if push_bit (unat depth) 1 \<noteq> sz then do {
          z \<leftarrow> at zh 0;
          merge H True z tmp zh (ucast sz) depth sz
        }
        else Some (tmp, zh));
     tmp \<leftarrow> extend_loop (unat limitdepth - unat depth) (unat depth) H tmp zh;
     root \<leftarrow> at tmp (unat limitdepth);
     Some (root, zh)
   }"

definition htr_list :: "hashf \<Rightarrow> 64 word \<Rightarrow> (nat \<Rightarrow> zeros \<Rightarrow> (bytes \<times> zeros) option) \<Rightarrow> 64 word \<Rightarrow> 64 word \<Rightarrow> zeros \<Rightarrow> (bytes \<times> zeros) option" where
  "htr_list H sz el limit mix zh = (
     let depth = CoverDepth sz; limitdepth = CoverDepth limit in
     if sz = 0 then do {
       zl \<leftarrow> at zh (unat limitdepth);
       z0 \<leftarrow> at zh 0;
       Some (hashsum H zl z0, zh)
     }
     else do {
       (root, zh) \<leftarrow> merkleize H (4 * (unat limitdepth + 1)) sz el depth limitdepth zh;
       htrlimit \<leftarrow> htru64 mix (replicate 32 0);
       Some (hashsum H root htrlimit, zh)
     })"

text \<open>The chunks of a bit list; the last one loses the bit that marks the length.\<close>

definition bitlist_chunk :: "bytes \<Rightarrow> 64 word \<Rightarrow> 64 word \<Rightarrow> nat \<Rightarrow> zeros \<Rightarrow> (bytes \<times> zeros) option" where
  "bitlist_chunk bitlist byteLen bitLen k zh = (
     let i = word_of_nat k :: 64 word;
         start = unat (push_bit 5 i);
         n = (if bitLen - push_bit 8 i \<ge> 256 then 32 else unat (byteLen - push_bit 5 i))
     in if length bitlist < start + n then None
     else do {
       hArr \<leftarrow> blit (replicate 32 0) (take n (drop start bitlist));
       hArr \<leftarrow>
         (if push_bit 8 (i + 1) > bitLen then do {
            let p = unat (drop_bit 3 (bitLen AND 0xff));
            b \<leftarrow> at hArr p;
            put hArr p (b AND NOT (push_bit (unat (bitLen AND 7)) 1))
          }
          else Some hArr);
       Some (hArr, zh)
     })"

definition htrBitlist :: "hashf \<Rightarrow> bytes \<Rightarrow> 64 word \<Rightarrow> 64 word \<Rightarrow> zeros \<Rightarrow> (bytes \<times> zeros) option" where
  "htrBitlist H bitlist byteLen bitlimit zh = do {
     bitLen \<leftarrow> BitlistLen bitlist byteLen;
     let chunks = drop_bit 8 (bitLen + 0xff);
     let chunkLimit = drop_bit 8 (bitlimit + 0xff);
     let depth = CoverDepth chunks;
     let limitDepth = CoverDepth chunkLimit;
     (root, zh) \<leftarrow> merkleize H (unat limitDepth + 1) chunks (bitlist_chunk bitlist byteLen bitLen) depth limitDepth zh;
     htrlen \<leftarrow> htru64 bitLen (replicate 32 0);
     Some (hashsum H root htrlen, zh)
   }"

section \<open>Depths\<close>

lemma nat_and_field: "(x AND push_bit n (mask m) = (0::nat)) = (x div 2 ^ n mod 2 ^ m = 0)"
proof -
  have "x AND push_bit n (mask m) = push_bit n (take_bit m (drop_bit n x))"
    by (rule bit_eqI) (auto simp: bit_simps)
  also have "\<dots> = 2 ^ n * (x div 2 ^ n mod 2 ^ m)"
    by (simp only: push_bit_eq_mult take_bit_eq_mod drop_bit_eq_div mult.commute)
  finally show ?thesis by simp
qed

lemma and_field:
  fixes v c :: "8 word"
  assumes "unat c = push_bit n (mask m)"
  shows "(v AND c = 0) = (unat v div 2 ^ n mod 2 ^ m = 0)"
proof -
  have "(v AND c = 0) = (unat (v AND c) = 0)"
    by (simp add: unat_eq_0)
  also have "unat (v AND c) = unat v AND push_bit n (mask m)"
    by (simp only: unsigned_and_eq assms)
  finally show ?thesis by (simp only: nat_and_field)
qed

lemma fields:
  fixes v :: "8 word"
  shows "(v AND 0xf0 = 0) = (unat v < 16)" "unat v < 16 \<Longrightarrow> (v AND 0x0c = 0) = (unat v < 4)"
    "unat v < 4 \<Longrightarrow> (v AND 0x02 = 0) = (unat v < 2)"
proof -
  have b: "unat v < 256"
    using unsigned_less [of v] by simp
  have "(v AND 0xf0 = 0) = (unat v div 2 ^ 4 mod 2 ^ 4 = 0)"
    by (rule and_field) (simp add: push_bit_eq_mult mask_eq_exp_minus_1)
  then show "(v AND 0xf0 = 0) = (unat v < 16)"
    using b by simp presburger
  have "(v AND 0x0c = 0) = (unat v div 2 ^ 2 mod 2 ^ 2 = 0)"
    by (rule and_field) (simp add: push_bit_eq_mult mask_eq_exp_minus_1)
  then show "unat v < 16 \<Longrightarrow> (v AND 0x0c = 0) = (unat v < 4)"
    by simp presburger
  have "(v AND 0x02 = 0) = (unat v div 2 ^ 1 mod 2 ^ 1 = 0)"
    by (rule and_field) (simp add: push_bit_eq_mult mask_eq_exp_minus_1)
  then show "unat v < 4 \<Longrightarrow> (v AND 0x02 = 0) = (unat v < 2)"
    by simp presburger
qed

lemma unat_shift: "unat (drop_bit n v) = unat (v :: 8 word) div 2 ^ n"
  by (subst unat_drop_bit_eq) (rule drop_bit_eq_div)

lemma nat_log_fields:
  fixes x y z :: nat
  assumes "x < 256" and "x \<noteq> 0" and y: "y = (if 16 \<le> x then x div 16 else x)"
    and z: "z = (if 4 \<le> y then y div 4 else y)"
    and n: "n = (if 16 \<le> x then 4 else 0) + (if 4 \<le> y then 2 else 0) + (if 2 \<le> z then 1 else (0::nat))"
  shows "n < 8 \<and> 2 ^ n \<le> x \<and> x < 2 ^ Suc n"
proof -
  have "4 \<le> y \<longleftrightarrow> (if 16 \<le> x then 64 \<le> x else 4 \<le> x)"
    by (simp add: y less_eq_div_iff_mult_less_eq)
  moreover have "2 \<le> z \<longleftrightarrow> (if 16 \<le> x then if 64 \<le> x then 128 \<le> x else 32 \<le> x else if 4 \<le> x then 8 \<le> x else 2 \<le> x)"
    by (simp add: z y less_eq_div_iff_mult_less_eq)
  ultimately show ?thesis
    using assms(1,2) by (simp add: n)
qed

lemma BitIndex_log:
  fixes v :: "8 word"
  assumes "v \<noteq> 0"
  shows "unat (BitIndex v) < 8 \<and> 2 ^ unat (BitIndex v) \<le> unat v \<and> unat v < 2 ^ Suc (unat (BitIndex v))"
proof -
  have b: "unat v < 256" "unat v \<noteq> 0"
    using unsigned_less [of v] assms by (simp_all add: unat_eq_0)
  define v1 where "v1 = (if v AND 0xf0 \<noteq> 0 then drop_bit 4 v else v)"
  define v2 where "v2 = (if v1 AND 0x0c \<noteq> 0 then drop_bit 2 v1 else v1)"
  have v1: "unat v1 = (if 16 \<le> unat v then unat v div 16 else unat v)" and v1b: "unat v1 < 16"
    using b by (auto simp: v1_def fields(1) unat_shift)
  have v2: "unat v2 = (if 4 \<le> unat v1 then unat v1 div 4 else unat v1)" and v2b: "unat v2 < 4"
    using v1b by (auto simp: v2_def fields(2) unat_shift)
  have "BitIndex v = (if 16 \<le> unat v then 4 else 0) OR (if 4 \<le> unat v1 then 2 else 0) OR (if 2 \<le> unat v2 then 1 else 0)"
    using fields(1) [of v] fields(2) [OF v1b] fields(3) [OF v2b]
    by (simp add: BitIndex_def Let_def v1_def v2_def split: if_splits)
  then have "unat (BitIndex v) = (if 16 \<le> unat v then 4 else 0) + (if 4 \<le> unat v1 then 2 else 0) + (if 2 \<le> unat v2 then 1 else 0)"
    by simp
  then show ?thesis
    using nat_log_fields [OF b v1 v2] by blast
qed

lemma unat_word64: "n < 2 ^ 64 \<Longrightarrow> unat (word_of_nat n :: 64 word) = n"
  by (simp add: unsigned_of_nat take_bit_nat_eq_self)

lemma CoverDepth_log:
  assumes "1 \<le> k" and "k \<le> 256"
  shows "unat (CoverDepth (word_of_nat k)) \<le> 8 \<and> k \<le> 2 ^ unat (CoverDepth (word_of_nat k)) \<and>
    (\<forall>e. k \<le> 2 ^ e \<longrightarrow> unat (CoverDepth (word_of_nat k)) \<le> e)"
proof (cases "k = 1")
  case True
  then show ?thesis by (simp add: CoverDepth_def)
next
  case False
  let ?w = "word_of_nat k :: 64 word"
  let ?v = "ucast (?w - 1) :: 8 word"
  have uw: "unat ?w = k"
    using assms by (simp add: unsigned_of_nat take_bit_nat_eq_self)
  have "?w \<noteq> 0" "?w \<noteq> 1"
    using uw False assms by (auto dest: arg_cong [where f = unat])
  then have cd: "CoverDepth ?w = ucast (BitIndex ?v + 1)"
    by (simp add: CoverDepth_def)
  have "?w - 1 = word_of_nat (k - 1)"
    using assms(1) by (simp add: of_nat_diff)
  then have "unat (?w - 1) = k - 1"
    using unat_word64 [of "k - 1"] assms(2) by (simp only: less_imp_diff_less) auto
  then have uv: "unat ?v = k - 1"
    using assms(2) by (simp add: unsigned_ucast_eq take_bit_nat_eq_self)
  then have "?v \<noteq> 0"
    using False assms by auto
  from BitIndex_log [OF this] uv
  have log: "unat (BitIndex ?v) < 8" "2 ^ unat (BitIndex ?v) \<le> k - 1" "k - 1 < 2 ^ Suc (unat (BitIndex ?v))"
    by simp_all
  have "unat (BitIndex ?v + 1) = Suc (unat (BitIndex ?v))"
    using log(1) by (simp add: unat_plus_simple word_le_nat_alt unat_word_ariths(1))
  then have d: "unat (CoverDepth ?w) = Suc (unat (BitIndex ?v))"
    using log(1) by (simp add: cd unsigned_ucast_eq take_bit_nat_eq_self)
  have "Suc (unat (BitIndex ?v)) \<le> e" if "k \<le> 2 ^ e" for e
  proof -
    have "2 ^ unat (BitIndex ?v) < (2::nat) ^ e"
      using log(2) that assms by linarith
    then show ?thesis by simp
  qed
  with log d show ?thesis by auto
qed

section \<open>Specification: the Merkle tree of padded leaves\<close>

fun mtree :: "hashf \<Rightarrow> nat \<Rightarrow> bytes list \<Rightarrow> bytes" where
  "mtree H 0 xs = (case xs of [] \<Rightarrow> replicate 32 0 | x # _ \<Rightarrow> x)"
| "mtree H (Suc d) xs = hashsum H (mtree H d (take (2 ^ d) xs)) (mtree H d (drop (2 ^ d) xs))"

text \<open>The table holds the roots of empty trees.\<close>

definition zeros_ok :: "hashf \<Rightarrow> nat \<Rightarrow> zeros \<Rightarrow> bool" where
  "zeros_ok H n zh \<longleftrightarrow> n \<le> length zh \<and> (\<forall>j < n. zh ! j = mtree H j [])"

lemma mtree_short: "length xs \<le> 2 ^ d \<Longrightarrow> mtree H (Suc d) xs = hashsum H (mtree H d xs) (mtree H d [])"
  by simp

text \<open>\<open>subtree j i xs\<close>: the leaves of the subtree of height \<open>j\<close> that contains position \<open>i\<close>, from its left end.\<close>

definition subtree :: "nat \<Rightarrow> nat \<Rightarrow> 'a list \<Rightarrow> 'a list" where
  "subtree j i xs = drop (2 ^ j * (i div 2 ^ j)) xs"

lemma subtree_0: "subtree 0 i xs = drop i xs"
  by (simp add: subtree_def)

lemma div_Suc_pow: "i div 2 ^ Suc j = i div 2 ^ j div (2::nat)"
  by (metis power_Suc2 div_mult2_eq)

lemma subtree_even:
  assumes "even (i div 2 ^ j)"
  shows "subtree (Suc j) i xs = subtree j i xs"
proof -
  have "2 ^ Suc j * (i div 2 ^ Suc j) = 2 ^ j * (2 * (i div 2 ^ j div 2))"
    unfolding div_Suc_pow by (simp add: ac_simps)
  also have "\<dots> = 2 ^ j * (i div 2 ^ j)"
    using assms by simp
  finally show ?thesis by (simp only: subtree_def)
qed

lemma subtree_odd:
  assumes "odd (i div 2 ^ j)"
  shows "drop (2 ^ j) (subtree (Suc j) i xs) = subtree j i xs"
proof -
  have "2 ^ j + 2 ^ Suc j * (i div 2 ^ Suc j) = 2 ^ j * (2 * (i div 2 ^ j div 2) + 1)"
    unfolding div_Suc_pow by (simp add: algebra_simps)
  also have "2 * (i div 2 ^ j div 2) + 1 = i div 2 ^ j"
    using assms by (rule odd_two_times_div_two_succ)
  finally show ?thesis by (simp only: subtree_def drop_drop)
qed

lemma subtree_length: "length (subtree j (length xs) xs) = length xs mod 2 ^ j"
  by (simp add: subtree_def minus_mult_div_eq_mod [symmetric])

text \<open>One step up, from the subtree of height \<open>j\<close> to its parent.\<close>

lemma mtree_step_odd:
  assumes "odd (i div 2 ^ j)"
  shows "mtree H (Suc j) (subtree (Suc j) i xs) =
    hashsum H (mtree H j (take (2 ^ j) (subtree (Suc j) i xs))) (mtree H j (subtree j i xs))"
  using subtree_odd [OF assms, of xs] by simp

lemma mtree_step_even:
  assumes "even (i div 2 ^ j)" and "length (subtree j i xs) \<le> 2 ^ j"
  shows "mtree H (Suc j) (subtree (Suc j) i xs) = hashsum H (mtree H j (subtree j i xs)) (mtree H j [])"
  using assms by (simp add: subtree_even)

text \<open>The bit test of the code.\<close>

lemma bit_test:
  fixes w :: "64 word"
  assumes "j < 64"
  shows "(w AND push_bit j 1 = 0) = even (unat w div 2 ^ j)"
proof -
  have "(w AND push_bit j 1 = 0) = (\<not> bit w j)"
    by (simp only: push_bit_of_1 and_exp_eq_0_iff_not_bit)
  also have "bit w j = bit (unat w) j"
    by (simp add: bit_unsigned_iff)
  also have "bit (unat w) j = odd (unat w div 2 ^ j)"
    by (rule bit_iff_odd)
  finally show ?thesis by simp
qed

section \<open>The rows between leaves\<close>

text \<open>After \<open>i\<close> leaves, row \<open>j\<close> holds the root of the complete subtree to the left of position \<open>i\<close>, for each
  bit \<open>j\<close> that is set in \<open>i\<close>.\<close>

definition rows_ok :: "hashf \<Rightarrow> bytes list \<Rightarrow> nat \<Rightarrow> bytes list \<Rightarrow> bool" where
  "rows_ok H tmp i xs \<longleftrightarrow> (\<forall>j. odd (i div 2 ^ j) \<longrightarrow> j < length tmp \<and>
     tmp ! j = mtree H j (take (2 ^ j) (subtree (Suc j) i xs)))"

lemma rows_ok_0: "rows_ok H tmp 0 xs"
  by (simp add: rows_ok_def)

text \<open>The loop on a leaf: it runs up the set bits of \<open>i\<close> and stops at the first clear one.\<close>

lemma merge_loop_leaf:
  assumes rows: "rows_ok H tmp k xs" and k: "k < 2 ^ m" "m < 64" and i: "unat (i::64 word) = k"
    and ns: "i \<noteq> ucast (sz::8 word)"
  shows "j \<le> m \<Longrightarrow> n = 64 - j \<Longrightarrow> (\<And>l. l < j \<Longrightarrow> odd (k div 2 ^ l)) \<Longrightarrow> h = mtree H j (subtree j k xs) \<Longrightarrow>
    \<exists>jj. merge_loop n j H False h tmp zh sz depth i = Some (jj, mtree H jj (subtree jj k xs), zh) \<and>
      jj \<le> m \<and> even (k div 2 ^ jj) \<and> (\<forall>l < jj. odd (k div 2 ^ l))"
proof (induction "m - j" arbitrary: j n h)
  case 0
  then have "j = m" by simp
  then have "even (k div 2 ^ j)" using k by simp
  moreover obtain n' where "n = Suc n'"
    using 0 k by (metis Suc_diff_Suc diff_Suc_1 \<open>j = m\<close>)
  ultimately show ?case
    using 0 \<open>j = m\<close> k ns bit_test [of j i] i by auto
next
  case (Suc d)
  then have jm: "j < m" and j64: "j < 64" using k by auto
  have n': "n = Suc (64 - Suc j)"
    using Suc.prems(2) j64 by simp
  show ?case
  proof (cases "even (k div 2 ^ j)")
    case True
    then have "merge_loop n j H False h tmp zh sz depth i = Some (j, h, zh)"
      using n' ns bit_test [OF j64, of i] i by simp
    with True show ?thesis
      using Suc.prems jm by auto
  next
    case False
    then have t: "at tmp j = Some (mtree H j (take (2 ^ j) (subtree (Suc j) k xs)))"
      using rows by (simp add: rows_ok_def c_simps)
    have "hashsum H (mtree H j (take (2 ^ j) (subtree (Suc j) k xs))) h = mtree H (Suc j) (subtree (Suc j) k xs)"
      using mtree_step_odd [OF False, of H xs] Suc.prems(4) by simp
    then have "merge_loop n j H False h tmp zh sz depth i =
        merge_loop (64 - Suc j) (Suc j) H False (mtree H (Suc j) (subtree (Suc j) k xs)) tmp zh sz depth i"
      using n' False t bit_test [OF j64, of i] i by (simp add: Let_def del: mtree.simps)
    moreover have "\<And>l. l < Suc j \<Longrightarrow> odd (k div 2 ^ l)"
      using Suc.prems(3) False by (auto simp: less_Suc_eq)
    ultimately show ?thesis
      using Suc.hyps(1) [of "Suc j" "64 - Suc j"] Suc.hyps(2) jm by auto
  qed
qed

lemma mtree_take: "mtree H j (take (2 ^ j) xs) = mtree H j xs"
proof (induction j arbitrary: xs)
  case 0
  then show ?case by (cases xs) simp_all
next
  case (Suc j)
  have "take (2 ^ j) (take (2 ^ Suc j) xs) = take (2 ^ j) xs"
    by (simp add: min_def)
  moreover have "drop (2 ^ j) (take (2 ^ Suc j) xs) = take (2 ^ j) (drop (2 ^ j) xs)"
    by (simp add: drop_take)
  ultimately show ?case
    by (simp only: mtree.simps Suc.IH)
qed

lemma pred_div:
  fixes k :: nat
  assumes "Suc k = 2 ^ j * Suc p"
  shows "k div 2 ^ j = p"
proof (rule div_nat_eqI)
  have "(1::nat) \<le> 2 ^ j" by simp
  then show "2 ^ j * p \<le> k" "k < 2 ^ j * Suc p"
    using assms unfolding mult_Suc_right by linarith+
qed

lemma low_ones_mod:
  fixes k :: nat
  shows "(\<And>l. l < j \<Longrightarrow> odd (k div 2 ^ l)) \<Longrightarrow> Suc k mod 2 ^ j = 0"
proof (induction j)
  case 0
  then show ?case by simp
next
  case (Suc j)
  then have IH: "Suc k mod 2 ^ j = 0" and odd: "odd (k div 2 ^ j)" by auto
  then obtain q where q: "Suc k = 2 ^ j * q" by (metis mod_0_imp_dvd dvdE)
  then have "q \<noteq> 0" by (cases q) auto
  then obtain p where p: "q = Suc p" by (cases q) auto
  have "k div 2 ^ j = p"
    using q p by (intro pred_div) simp
  with odd p have "even q" by simp
  then show ?case
    using q by (auto elim!: evenE)
qed

lemma carry:
  fixes k :: nat
  assumes ones: "\<And>l. l < j \<Longrightarrow> odd (k div 2 ^ l)" and zero: "even (k div 2 ^ j)"
  obtains q where "k div 2 ^ j = 2 * q" and "Suc k = 2 ^ j * (2 * q + 1)"
proof -
  obtain q where q: "k div 2 ^ j = 2 * q" using zero by (auto elim: evenE)
  obtain p where p: "Suc k = 2 ^ j * p"
    using low_ones_mod [of j k, OF ones] by (metis mod_0_imp_dvd dvdE)
  then have "p \<noteq> 0" by (cases p) auto
  then obtain p' where p': "p = Suc p'" by (cases p) auto
  have "k div 2 ^ j = p'"
    using p p' by (intro pred_div) simp
  with p p' q that show thesis by simp
qed

lemma carry_div:
  fixes k :: nat
  assumes ones: "\<And>l. l < j \<Longrightarrow> odd (k div 2 ^ l)" and zero: "even (k div 2 ^ j)"
  shows "l < j \<Longrightarrow> even (Suc k div 2 ^ l)" and "odd (Suc k div 2 ^ j)"
    and "j < l \<Longrightarrow> Suc k div 2 ^ l = k div 2 ^ l"
proof -
  obtain q where q: "k div 2 ^ j = 2 * q" "Suc k = 2 ^ j * (2 * q + 1)"
    using carry [of j k, OF ones zero] by blast
  show "even (Suc k div 2 ^ l)" if "l < j"
  proof -
    have "Suc k = 2 ^ l * (2 ^ (j - l) * (2 * q + 1))"
      using q(2) that by (metis le_add_diff_inverse less_or_eq_imp_le mult.assoc power_add)
    then have "Suc k div 2 ^ l = 2 ^ (j - l) * (2 * q + 1)"
      by (metis nonzero_mult_div_cancel_left power_not_zero zero_neq_numeral)
    with that show ?thesis by simp
  qed
  have d: "Suc k div 2 ^ j = 2 * q + 1"
    using q(2) by (metis nonzero_mult_div_cancel_left power_not_zero zero_neq_numeral)
  then show "odd (Suc k div 2 ^ j)" by simp
  show "Suc k div 2 ^ l = k div 2 ^ l" if jl: "j < l"
  proof -
    obtain e where e: "l = Suc (j + e)"
      using less_imp_Suc_add [OF jl] by blast
    have "x div 2 ^ l = x div 2 ^ j div 2 div 2 ^ e" for x :: nat
      unfolding e div_mult2_eq [symmetric] by (simp add: power_add ac_simps)
    then show ?thesis
      using d q(1) by simp
  qed
qed

lemma merge_leaf:
  assumes rows: "rows_ok H tmp k xs" and k: "k < length xs" "k < 2 ^ m" "m < 64" "m < length tmp"
    and i: "unat (i::64 word) = k" and ns: "i \<noteq> ucast (sz::8 word)"
  shows "\<exists>tmp'. merge H False (xs ! k) tmp zh sz depth i = Some (tmp', zh) \<and> rows_ok H tmp' (Suc k) xs \<and>
    length tmp' = length tmp"
proof -
  have "xs ! k = mtree H 0 (subtree 0 k xs)"
    using k(1) by (simp add: subtree_0 Cons_nth_drop_Suc [symmetric])
  from merge_loop_leaf [OF rows k(2,3) i ns, of 0 64, OF _ _ _ this, of zh depth]
  obtain jj where jj: "merge_loop 64 0 H False (xs ! k) tmp zh sz depth i = Some (jj, mtree H jj (subtree jj k xs), zh)"
    "jj \<le> m" "even (k div 2 ^ jj)" "\<And>l. l < jj \<Longrightarrow> odd (k div 2 ^ l)"
    by auto
  let ?tmp = "tmp[jj := mtree H jj (subtree jj k xs)]"
  have "rows_ok H ?tmp (Suc k) xs"
    unfolding rows_ok_def
  proof (intro allI impI)
    fix j assume odd: "odd (Suc k div 2 ^ j)"
    show "j < length ?tmp \<and> ?tmp ! j = mtree H j (take (2 ^ j) (subtree (Suc j) (Suc k) xs))"
    proof (cases "j = jj")
      case True
      obtain q where "k div 2 ^ jj = 2 * q" "Suc k = 2 ^ jj * (2 * q + 1)"
        using carry [of jj k, OF jj(4,3)] by blast
      then have "Suc k div 2 ^ Suc jj = q" and "2 ^ jj * (k div 2 ^ jj) = 2 ^ Suc jj * q"
        unfolding div_Suc_pow by simp_all
      then have "subtree (Suc jj) (Suc k) xs = subtree jj k xs"
        by (simp only: subtree_def)
      then show ?thesis
        using True jj(2) k(4) by (simp add: mtree_take del: mtree.simps)
    next
      case False
      then have "jj < j"
        using carry_div(1) [of jj k j, OF jj(4,3)] odd by (meson linorder_neqE_nat)
      then have "k div 2 ^ j = Suc k div 2 ^ j" "k div 2 ^ Suc j = Suc k div 2 ^ Suc j"
        using carry_div(3) [of jj k j, OF jj(4,3)] carry_div(3) [of jj k "Suc j", OF jj(4,3)] by simp_all
      then have "odd (k div 2 ^ j)" "subtree (Suc j) (Suc k) xs = subtree (Suc j) k xs"
        using odd by (simp_all add: subtree_def)
      then show ?thesis
        using rows False by (simp add: rows_ok_def del: mtree.simps)
    qed
  qed
  with jj k show ?thesis
    by (simp add: merge_def c_simps del: mtree.simps merge_loop.simps)
qed

lemma subtree_all: "i < 2 ^ d \<Longrightarrow> subtree d i xs = xs"
  by (simp add: subtree_def)

text \<open>The loop on the padding, where the accumulated hash is row 0 of the table: it climbs to the depth, and
  leaves the root in the table.\<close>

lemma merge_loop_pad:
  assumes rows: "rows_ok H tmp (length xs) xs" and len: "length xs < 2 ^ d" and d: "d = unat depth" "d < 64"
    and z: "zeros_ok H d zh" "zh \<noteq> []" "zh ! 0 = mtree H 0 []" and i: "unat i = length xs" "i = ucast sz"
  shows "j \<le> d \<Longrightarrow> h = mtree H j (subtree j (length xs) xs) \<Longrightarrow>
    merge_loop (64 - j) j H True h tmp (zh[0 := h]) sz depth i = Some (d, mtree H d xs, zh[0 := mtree H d xs])"
proof (induction "d - j" arbitrary: j h)
  case 0
  then have "j = d" by simp
  then have "even (length xs div 2 ^ j)" using len by simp
  moreover have "64 - j = Suc (63 - j)"
    using \<open>j = d\<close> d(2) by simp
  ultimately show ?case
    using 0 \<open>j = d\<close> d bit_test [of j i] i(1) subtree_all [OF len, of xs] by (simp del: mtree.simps)
next
  case (Suc e)
  then have jd: "j < d" by simp
  let ?n = "length xs"
  let ?h = "mtree H (Suc j) (subtree (Suc j) ?n xs)"
  have step: "64 - j = Suc (64 - Suc j)" and j64: "j < 64"
    using jd d(2) by simp_all
  have "merge_loop (64 - j) j H True h tmp (zh[0 := h]) sz depth i =
      merge_loop (64 - Suc j) (Suc j) H True ?h tmp (zh[0 := ?h]) sz depth i"
  proof (cases "even (?n div 2 ^ j)")
    case True
    have "at (zh[0 := h]) j = Some (mtree H j [])"
    proof (cases "j = 0")
      case True
      then show ?thesis
        using Suc.prems(2) z(2) by (simp add: c_simps subtree_0)
    next
      case False
      then show ?thesis
        using z(1) jd by (simp add: c_simps zeros_ok_def)
    qed
    moreover have "?n mod 2 ^ j \<le> 2 ^ j"
      by (simp add: less_imp_le)
    then have "?h = hashsum H h (mtree H j [])"
      using mtree_step_even [OF True, of xs H] Suc.prems(2) by (simp only: subtree_length)
    ultimately show ?thesis
      using True jd d bit_test [OF j64, of i] i unfolding step by (simp add: Let_def del: mtree.simps)
  next
    case False
    then have "at tmp j = Some (mtree H j (take (2 ^ j) (subtree (Suc j) ?n xs)))"
      using rows by (simp add: rows_ok_def c_simps del: mtree.simps)
    moreover have "?h = hashsum H (mtree H j (take (2 ^ j) (subtree (Suc j) ?n xs))) h"
      using mtree_step_odd [OF False, of H xs] Suc.prems(2) by (simp only:)
    ultimately show ?thesis
      using False bit_test [OF j64, of i] i unfolding step by (simp add: Let_def del: mtree.simps)
  qed
  then show ?case
    using Suc.hyps(1) [of "Suc j" ?h] Suc.hyps(2) jd by simp
qed

lemma merge_pad:
  assumes "rows_ok H tmp (length xs) xs" and "length xs < 2 ^ unat depth" and "unat depth < 64"
    and "zeros_ok H (unat depth) zh" and "zh \<noteq> []" and z0: "zh ! 0 = mtree H 0 []"
    and "unat i = length xs" and "i = ucast sz" and "unat depth < length tmp"
  shows "merge H True (zh ! 0) tmp zh sz depth i =
    Some (tmp[unat depth := mtree H (unat depth) xs], zh[0 := mtree H (unat depth) xs])"
proof -
  have "zh[0 := zh ! 0] = zh" by simp
  moreover have "zh ! 0 = mtree H 0 (subtree 0 (length xs) xs)"
    using z0 by (simp add: subtree_0)
  ultimately show ?thesis
    using merge_loop_pad [OF assms(1,2) refl assms(3-8), of 0 "zh ! 0"] assms(9)
    by (simp add: merge_def c_simps del: mtree.simps merge_loop.simps)
qed

lemma ucast_8_64:
  fixes w :: "64 word"
  assumes "unat w \<le> 255"
  shows "ucast (ucast w :: 8 word) = w"
proof -
  have "unat (take_bit 8 w) = unat w"
    using assms by (simp add: unsigned_take_bit_eq take_bit_nat_eq_self)
  then show ?thesis
    by (simp add: word_unat_eq_iff unsigned_ucast_eq)
qed

lemma leaves_loop_ok:
  assumes el: "\<And>k. k < length xs \<Longrightarrow> el k zh = Some (xs ! k, zh)"
    and len: "length xs \<le> 255" "length xs \<le> 2 ^ m" "m < 64" and s: "unat (sz::64 word) = length xs"
  shows "k + n = length xs \<Longrightarrow> rows_ok H tmp k xs \<Longrightarrow> m < length tmp \<Longrightarrow>
    \<exists>tmp'. leaves_loop n k H el tmp zh sz depth = Some (tmp', zh) \<and> rows_ok H tmp' (length xs) xs \<and>
      length tmp' = length tmp"
proof (induction n arbitrary: k tmp)
  case 0
  then show ?case by simp
next
  case (Suc n)
  let ?i = "word_of_nat k :: 64 word"
  have k: "k < length xs" "k < 2 ^ m"
    using Suc.prems(1) len(2) by linarith+
  have ui: "unat ?i = k"
    using k len by (intro unat_word64) simp
  have "?i \<noteq> ucast (ucast sz :: 8 word)"
    using ui k s len(1) ucast_8_64 [of sz] by auto
  from merge_leaf [OF Suc.prems(2) k len(3) Suc.prems(3) ui this, of zh depth]
  obtain tmp1 where "merge H False (xs ! k) tmp zh (ucast sz) depth ?i = Some (tmp1, zh)"
    "rows_ok H tmp1 (Suc k) xs" "length tmp1 = length tmp"
    by blast
  then show ?case
    using Suc.IH [of "Suc k" tmp1] Suc.prems el [OF k(1)] by simp
qed

lemma extend_loop_ok:
  assumes z: "\<And>l. j \<le> l \<Longrightarrow> l < j + n \<Longrightarrow> l < length zh \<and> zh ! l = mtree H l []"
  shows "length xs \<le> 2 ^ j \<Longrightarrow> tmp ! j = mtree H j xs \<Longrightarrow> j + n < length tmp \<Longrightarrow>
    \<exists>tmp'. extend_loop n j H tmp zh = Some tmp' \<and> length tmp' = length tmp \<and> tmp' ! (j + n) = mtree H (j + n) xs"
  using z
proof (induction n arbitrary: j tmp)
  case 0
  then show ?case by simp
next
  case (Suc n)
  have "zh ! j = mtree H j []" "j < length zh"
    using Suc.prems(4) [of j] by simp_all
  then have "extend_loop (Suc n) j H tmp zh = extend_loop n (Suc j) H (tmp[Suc j := mtree H (Suc j) xs]) zh"
    using Suc.prems(1-3) mtree_short [of xs j H] by (simp add: c_simps del: mtree.simps)
  moreover have "length xs \<le> 2 ^ Suc j"
    using Suc.prems(1) by simp
  ultimately show ?case
    using Suc.IH [of "Suc j" "tmp[Suc j := mtree H (Suc j) xs]"] Suc.prems(3,4) by (simp del: mtree.simps)
qed

text \<open>The table after a list of \<open>n\<close> leaves: row 0 is overwritten when the last level was padded.\<close>

definition zeros_after :: "hashf \<Rightarrow> nat \<Rightarrow> bytes list \<Rightarrow> zeros \<Rightarrow> zeros" where
  "zeros_after H d xs zh = (if length xs = 2 ^ d then zh else zh[0 := mtree H d xs])"

lemma merkleize_ok:
  assumes el: "\<And>k. k < length xs \<Longrightarrow> el k zh = Some (xs ! k, zh)"
    and s: "unat (sz::64 word) = length xs" and len: "length xs \<le> 255" "length xs \<le> 2 ^ d"
    and d: "d = unat depth" "d \<le> l" "l = unat limitdepth" "l < 64" "l < nrows"
    and z: "zeros_ok H l zh" "zh \<noteq> []" "zh ! 0 = mtree H 0 []"
  shows "merkleize H nrows sz el depth limitdepth zh = Some (mtree H l xs, zeros_after H d xs zh)"
proof -
  let ?tmp0 = "replicate nrows (replicate 32 0) :: bytes list"
  have d64: "d < 64" using d by simp
  obtain tmp where tmp: "leaves_loop (unat sz) 0 H el ?tmp0 zh sz depth = Some (tmp, zh)"
    "rows_ok H tmp (length xs) xs" "length tmp = nrows"
    using leaves_loop_ok [where xs = xs and el = el and zh = zh and m = d and sz = sz and k = 0 and n = "length xs"
        and H = H and tmp = ?tmp0 and depth = depth] el len d64 s rows_ok_0 d(2,5) by auto
  have zd: "zeros_ok H d zh"
    using z(1) d(2) by (simp add: zeros_ok_def)
  have pow: "(push_bit d 1 \<noteq> sz) = (length xs \<noteq> 2 ^ d)"
  proof -
    have "unat (push_bit d (1::64 word)) = 2 ^ d"
      using unat_word64 [of "2 ^ d"] power_strict_increasing [OF d64, of "2::nat"] by (simp add: push_bit_of_1)
    then show ?thesis using s by (metis word_unat_eq_iff)
  qed
  have uc: "sz = ucast (ucast sz :: 8 word)"
    using s len(1) ucast_8_64 [of sz] by simp
  let ?tmp1 = "if length xs = 2 ^ d then tmp else tmp[d := mtree H d xs]"
  have padded: "(if push_bit d 1 \<noteq> sz then do { z \<leftarrow> at zh 0; merge H True z tmp zh (ucast sz) depth sz } else Some (tmp, zh)) =
      Some (?tmp1, zeros_after H d xs zh)"
  proof (cases "length xs = 2 ^ d")
    case True
    then show ?thesis using pow by (simp add: zeros_after_def)
  next
    case False
    then have "length xs < 2 ^ unat depth" using len(2) d(1) by simp
    moreover have "at zh 0 = Some (zh ! 0)" using z(2) by (simp add: c_simps)
    ultimately show ?thesis
      using pow False merge_pad [OF tmp(2) _ _ _ z(2,3) s uc, of depth] d64 zd tmp(3) d
      by (simp add: zeros_after_def del: mtree.simps)
  qed
  have lt: "length ?tmp1 = nrows" using tmp(3) by simp
  have top: "?tmp1 ! d = mtree H d xs"
  proof (cases "length xs = 2 ^ d")
    case True
    then have "odd (length xs div 2 ^ d)" "subtree (Suc d) (length xs) xs = xs"
      by (simp_all add: subtree_def)
    then show ?thesis
      using tmp(2) True by (simp add: rows_ok_def mtree_take del: mtree.simps)
  qed (use tmp(3) d in simp)
  have "r < length (zeros_after H d xs zh) \<and> zeros_after H d xs zh ! r = mtree H r []" if "d \<le> r" "r < l" for r
  proof (cases "r = 0 \<and> length xs \<noteq> 2 ^ d")
    case True
    then have "length xs < 1" "d = 0" using that len(2) by (auto simp: less_eq_Suc_le le_Suc_eq)
    then have "xs = []" "d = 0" by simp_all
    then show ?thesis using True z(2,3) by (simp add: zeros_after_def)
  next
    case False
    then show ?thesis
      using z(1) that by (auto simp: zeros_after_def zeros_ok_def simp del: mtree.simps)
  qed
  then obtain tmp2 where "extend_loop (l - d) d H ?tmp1 (zeros_after H d xs zh) = Some tmp2" "length tmp2 = nrows"
    "tmp2 ! l = mtree H l xs"
    using extend_loop_ok [of d "l - d" "zeros_after H d xs zh" H xs ?tmp1] len(2) top lt d(2,5) by auto
  then show ?thesis
    using tmp(1) padded d by (simp add: merkleize_def c_simps)
qed

section \<open>Roots of integers\<close>

lemma length_be_bytes [simp]: "length (be_bytes n v) = n"
  by (induction n arbitrary: v) simp_all

lemma of_be_snoc: "of_be (bs @ [b]) = of_be bs * 256 + unat b"
  by (simp add: of_be_def)

lemma unat_byte_less: "unat (b::byte) < 256"
  using unsigned_less [of b] by simp

lemma unat_of_nat_byte: "unat (word_of_nat n :: byte) = n mod 256"
  by (simp add: unsigned_of_nat take_bit_eq_mod)

lemma be_bytes_of_be: "be_bytes (length bs) (of_be bs) = bs"
proof (induction bs rule: rev_induct)
  case Nil
  then show ?case by simp
next
  case (snoc b bs)
  have "(of_be bs * 256 + unat b) div 256 = of_be bs"
    using unat_byte_less [of b] by simp
  moreover have "(word_of_nat (of_be bs * 256 + unat b) :: byte) = b"
    unfolding word_unat_eq_iff unat_of_nat_byte using unat_byte_less [of b] by simp
  ultimately show ?case
    by (simp add: of_be_snoc snoc.IH)
qed

text \<open>Little endian bytes, the SSZ serialisation of an integer.\<close>

definition le_bytes :: "nat \<Rightarrow> nat \<Rightarrow> bytes" where
  "le_bytes n v = map (\<lambda>k. word_of_nat (v div 256 ^ k)) [0..<n]"

lemma rev_be_bytes: "rev (be_bytes n v) = le_bytes n v"
proof (induction n arbitrary: v)
  case 0
  then show ?case by (simp add: le_bytes_def)
next
  case (Suc n)
  have "[0..<Suc n] = 0 # map Suc [0..<n]"
    by (simp add: map_Suc_upt upt_conv_Cons del: upt_Suc)
  then show ?case
    by (simp add: Suc.IH le_bytes_def o_def div_mult2_eq del: upt_Suc)
qed

lemma length_le_bytes [simp]: "length (le_bytes n v) = n"
  by (simp add: le_bytes_def)

lemma be_bytes_bswap: "be_bytes n (bswap n v) = le_bytes n v"
  using be_bytes_of_be [of "le_bytes n v"] unfolding bswap_def rev_be_bytes length_le_bytes .

lemma hexstr_zeros: "hexstr (replicate n 0) = replicate (2 * n) (CHR ''0'')"
proof (induction n)
  case (Suc n)
  moreover have "hexdigit (drop_bit 4 0) = CHR ''0''" "hexdigit (0 AND 15) = CHR ''0''"
    by code_simp+
  ultimately show ?case by simp
qed simp

lemma hexstr_append: "hexstr (a @ b) = hexstr a @ hexstr b"
  by (simp add: hexstr_def)

lemma htr_digits_hexstr:
  assumes "length bs \<le> 32" and "length buf = 32"
  shows "htr_digits (hexstr bs) buf = Some (bs @ replicate (32 - length bs) 0)"
proof -
  have "hexstr bs @ replicate (64 - length (hexstr bs)) (CHR ''0'') = hexstr (bs @ replicate (32 - length bs) 0)"
    using assms(1) by (simp add: hexstr_append hexstr_zeros right_diff_distrib')
  then show ?thesis
    using hex2bin_hexstr [of buf "bs @ replicate (32 - length bs) 0"] assms by (simp add: htr_digits_def)
qed

lemma htru64_eq: "length buf = 32 \<Longrightarrow> htru64 t buf = Some (le_bytes 8 (unat t) @ replicate 24 0)"
  unfolding htru64_def sprintf_x_def be_bytes_bswap by (subst htr_digits_hexstr) (simp_all add: le_bytes_def)

text \<open>Roots of integers. \<open>htru8\<close> to \<open>htru64\<close> produce the SSZ chunk of an integer, its bytes least significant
  first, followed by zeros up to 32; the detour over byte swapping, formatting and decoding
  text is correct for every value.\<close>

theorem htru_chunks:
  assumes "length buf = 32"
  shows "htru8 a buf = Some (le_bytes 1 (unat a) @ replicate 31 0) \<and>
    htru16 b buf = Some (le_bytes 2 (unat b) @ replicate 30 0) \<and>
    htru32 c buf = Some (le_bytes 4 (unat c) @ replicate 28 0) \<and>
    htru64 d buf = Some (le_bytes 8 (unat d) @ replicate 24 0)"
proof -
  have one: "be_bytes 1 (unat a) = le_bytes 1 (unat a)"
    by (simp add: le_bytes_def)
  show ?thesis
    unfolding htru8_def htru16_def htru32_def htru64_def sprintf_x_def be_bytes_bswap one
    using assms by (simp add: htr_digits_hexstr)
qed

theorem htru_chunks_witness:
  "htru64 0x0102 (replicate 32 0) = Some ([2, 1, 0, 0, 0, 0, 0, 0] @ replicate 24 0)"
  using htru_chunks [of "replicate 32 0" 0 0 0 "0x0102"] by (simp add: le_bytes_def upt_conv_Cons)

text \<open>\<open>htrbool\<close> is not such a chunk: it prints 64 characters and a terminator, so it leaves
  every array of 32 bytes.\<close>

theorem htrbool_overflows: "htrbool t (replicate 32 0) = None"
  by (simp add: htrbool_def blit_def)

section \<open>The table of zero hashes\<close>

lemma length_mtree_0: "length (mtree H 0 []) = 32"
  by simp

lemma init_zero_loop_ok:
  assumes H: "\<And>x. length (H x) = 32"
  shows "i + n < length zh \<Longrightarrow> (\<forall>j \<le> i. zh ! j = mtree H j []) \<Longrightarrow>
    \<exists>zh'. init_zero_loop n i H zh = Some zh' \<and> length zh' = length zh \<and> (\<forall>j \<le> i + n. zh' ! j = mtree H j [])"
proof (induction n arbitrary: i zh)
  case 0
  then show ?case by simp
next
  case (Suc n)
  have z: "zh ! i = mtree H i []" using Suc.prems(2) by simp
  let ?zh = "zh[Suc i := mtree H (Suc i) []]"
  have "init_zero_loop (Suc n) i H zh = init_zero_loop n (Suc i) H ?zh"
    using Suc.prems(1) z by (simp add: c_simps hashsum_def)
  moreover have "\<forall>j \<le> Suc i. ?zh ! j = mtree H j []"
    using Suc.prems by (auto simp: nth_list_update le_Suc_eq simp del: mtree.simps)
  ultimately show ?case
    using Suc.IH [of "Suc i" ?zh] Suc.prems(1) by (simp del: mtree.simps)
qed

lemma init_zero_loop_over:
  "length zh \<le> i + n \<Longrightarrow> i < length zh \<Longrightarrow> 0 < n \<Longrightarrow> init_zero_loop n i H zh = None"
proof (induction n arbitrary: i zh)
  case (Suc n)
  show ?case
  proof (cases "Suc i < length zh")
    case True
    have "init_zero_loop n (Suc i) H (zh[Suc i := x]) = None" for x
      using Suc.IH [of "zh[Suc i := x]" "Suc i"] Suc.prems True by (cases n) auto
    with True show ?thesis by (simp add: c_simps)
  next
    case False
    with Suc.prems show ?thesis by (simp add: c_simps)
  qed
qed simp

text \<open>The table. With room for it, \<open>InitZeroHashes\<close> computes the roots of the empty trees of every height up to
  its argument. The argument 64, with which both applications call it, makes it write row 64 of
  the 64 rows.\<close>

theorem InitZeroHashes_spec:
  assumes "length zh = 64" and "\<forall>x. length (H x) = 32"
  shows "(unat n < 64 \<longrightarrow> (\<exists>zh'. InitZeroHashes H n zh = Some zh' \<and> zeros_ok H (Suc (unat n)) zh')) \<and>
    InitZeroHashes H 64 zh = None"
proof
  show "unat n < 64 \<longrightarrow> (\<exists>zh'. InitZeroHashes H n zh = Some zh' \<and> zeros_ok H (Suc (unat n)) zh')"
  proof
    assume "unat n < 64"
    with assms obtain zh' where "init_zero_loop (unat n) 0 H (zh[0 := replicate 32 0]) = Some zh'"
      "length zh' = 64" "\<forall>j \<le> unat n. zh' ! j = mtree H j []"
      using init_zero_loop_ok [of H 0 "unat n" "zh[0 := replicate 32 0]"] by auto
    then show "\<exists>zh'. InitZeroHashes H n zh = Some zh' \<and> zeros_ok H (Suc (unat n)) zh'"
      using assms(1) \<open>unat n < 64\<close> by (simp add: InitZeroHashes_def zeros_ok_def c_simps less_Suc_eq_le del: mtree.simps)
  qed
  show "InitZeroHashes H 64 zh = None"
    using init_zero_loop_over [of "zh[0 := replicate 32 0]" 0 64 H] assms(1)
    by (simp add: InitZeroHashes_def c_simps del: init_zero_loop.simps)
qed

definition demo_H :: hashf where
  "demo_H x = take 32 (drop 1 x @ replicate 32 7)"

lemma length_demo_H [simp]: "length (demo_H x) = 32"
  by (simp add: demo_H_def)

theorem InitZeroHashes_spec_witness: "InitZeroHashes demo_H 64 (replicate 64 []) = None"
  using InitZeroHashes_spec [of "replicate 64 []" demo_H] by simp

section \<open>Roots of lists\<close>

text \<open>The chunk of a 64-bit number, and what the list routines compute for the roots \<open>xs\<close> of the elements: the root
  of the tree of height \<open>l\<close>, hashed with the number \<open>mix\<close>.\<close>

definition chunk64 :: "64 word \<Rightarrow> bytes" where
  "chunk64 v = le_bytes 8 (unat v) @ replicate 24 0"

definition list_root :: "hashf \<Rightarrow> nat \<Rightarrow> 64 word \<Rightarrow> bytes list \<Rightarrow> bytes" where
  "list_root H l mix xs = hashsum H (mtree H l xs) (chunk64 mix)"

lemma htru64_chunk: "length buf = 32 \<Longrightarrow> htru64 t buf = Some (chunk64 t)"
  by (simp add: htru64_eq chunk64_def)

lemma CoverDepth_word:
  assumes "1 \<le> unat k" and "unat k \<le> 256"
  shows "unat (CoverDepth k) \<le> 8" and "unat k \<le> 2 ^ unat (CoverDepth k)"
    and "\<And>e. unat k \<le> 2 ^ e \<Longrightarrow> unat (CoverDepth k) \<le> e"
  using CoverDepth_log [OF assms] by simp_all

lemma CoverDepth_le_8: "unat (CoverDepth v) \<le> 8"
proof -
  have b: "unat (BitIndex w) < 8" for w
    by (cases "w = 0") (simp add: BitIndex_def, use BitIndex_log [of w] in simp)
  have "unat (BitIndex w + 1) = unat (BitIndex w) + 1" "unat (BitIndex w) + 1 \<le> 8" for w
    using b [of w] by (simp_all add: unat_word_ariths)
  moreover have "take_bit 8 n = n" if "n \<le> 8" for n :: nat
    using that by (simp add: take_bit_nat_eq_self)
  ultimately show ?thesis
    by (simp add: CoverDepth_def unsigned_ucast_eq del: Suc_eq_plus1)
qed

lemma htr_list_ok:
  assumes el: "\<And>k. k < length xs \<Longrightarrow> el k zh = Some (xs ! k, zh)"
    and s: "unat sz = length xs" and len: "0 < length xs" "length xs \<le> 255"
    and l: "l = unat (CoverDepth limit)" "length xs \<le> 2 ^ l"
    and z: "zeros_ok H 9 zh"
  shows "htr_list H sz el limit mix zh = Some (list_root H l mix xs, zeros_after H (unat (CoverDepth sz)) xs zh)"
proof -
  let ?d = "unat (CoverDepth sz)"
  have d: "length xs \<le> 2 ^ ?d" "?d \<le> l"
    using CoverDepth_word [of sz] s len l(2) by simp_all
  have l8: "l \<le> 8" using CoverDepth_le_8 [of limit] l(1) by simp
  have z': "zeros_ok H l zh" "zh \<noteq> []" "zh ! 0 = mtree H 0 []"
    using z l8 by (auto simp: zeros_ok_def)
  have "merkleize H (4 * (l + 1)) sz el (CoverDepth sz) (CoverDepth limit) zh =
      Some (mtree H l xs, zeros_after H ?d xs zh)"
    using merkleize_ok [of xs el zh sz ?d "CoverDepth sz" l "CoverDepth limit" "4 * (l + 1)" H] el s len(2) d l(1) l8 z'
    by simp
  moreover have "sz \<noteq> 0" using s len(1) by auto
  ultimately show ?thesis
    using htru64_chunk [of "replicate 32 0" mix] l(1) by (simp add: htr_list_def Let_def list_root_def)
qed

text \<open>Depths. Up to 256, \<open>CoverDepth\<close> is the least height of a tree with that many leaves. Its
  argument to \<open>BitIndex\<close> loses all but 8 bits, so that no height is greater than 8 and every
  number above 256 gets a tree that is too small.\<close>

theorem CoverDepth_spec:
  assumes "1 \<le> unat v"
  shows "if unat v \<le> 256 then \<forall>e. unat v \<le> 2 ^ e \<longleftrightarrow> unat (CoverDepth v) \<le> e
    else 2 ^ unat (CoverDepth v) < unat v"
proof (cases "unat v \<le> 256")
  case True
  have "unat v \<le> 2 ^ e \<longleftrightarrow> unat (CoverDepth v) \<le> e" for e
  proof
    assume "unat (CoverDepth v) \<le> e"
    then have "(2::nat) ^ unat (CoverDepth v) \<le> 2 ^ e" by (rule power_increasing) simp
    then show "unat v \<le> 2 ^ e" using CoverDepth_word(2) [OF assms True] by linarith
  qed (rule CoverDepth_word(3) [OF assms True])
  with True show ?thesis by simp
next
  case False
  have "2 ^ unat (CoverDepth v) \<le> (2::nat) ^ 8"
    by (rule power_increasing [OF CoverDepth_le_8]) simp
  with False show ?thesis by simp
qed

theorem CoverDepth_spec_witness: "2 ^ unat (CoverDepth 2048) < unat (2048 :: 64 word)"
  using CoverDepth_spec [of 2048] by simp

lemma zeros_ok_row0:
  assumes "zeros_ok H n zh" and "0 < n"
  shows "0 < length zh" and "zh ! 0 = replicate 32 0" and "at zh 0 = Some (replicate 32 0)"
    and "zh[0 := replicate 32 0] = zh"
proof -
  show z: "0 < length zh" "zh ! 0 = replicate 32 0"
    using assms by (auto simp: zeros_ok_def simp del: mtree.simps) simp
  then show "at zh 0 = Some (replicate 32 0)" "zh[0 := replicate 32 0] = zh"
    by (simp_all add: c_simps list_update_same_conv)
qed

lemma htr_list_empty:
  assumes "zeros_ok H 9 zh"
  shows "htr_list H 0 el limit mix zh = Some (list_root H (unat (CoverDepth limit)) 0 [], zh)"
proof -
  let ?l = "unat (CoverDepth limit)"
  have l: "?l < 9" using CoverDepth_le_8 [of limit] by simp
  have c: "chunk64 0 = replicate 32 0"
    by (simp add: chunk64_def le_bytes_def) (simp add: numeral_eq_Suc upt_conv_Cons)
  have "at zh ?l = Some (mtree H ?l [])"
    using assms l by (simp add: zeros_ok_def c_simps)
  then show ?thesis
    using c zeros_ok_row0 [OF assms] by (simp add: htr_list_def list_root_def)
qed

lemma zeros_after_Nil: "zeros_ok H 9 zh \<Longrightarrow> zeros_after H 0 [] zh = zh"
  using zeros_ok_row0 [of H 9 zh] by (simp add: zeros_after_def)

text \<open>C11: The list routine. For at most 255 elements that fit the tree of the limit, with the table of zero hashes in order, it returns the
  root of the tree of the limit's height over the roots of the elements, hashed with the chunk of
  \<open>mix\<close> (with the chunk of 0 for the empty list); no access leaves an array. The table afterwards is
  \<open>zeros_after\<close>. SSZ asks for the number of elements in the place of \<open>mix\<close>.\<close>

theorem htr_list_spec:
  assumes "\<And>k. k < length xs \<Longrightarrow> el k zh = Some (xs ! k, zh)" and "unat sz = length xs"
    and "length xs \<le> 255" and "length xs \<le> 2 ^ unat (CoverDepth limit)" and "zeros_ok H 9 zh"
  shows "htr_list H sz el limit mix zh =
    Some (list_root H (unat (CoverDepth limit)) (if xs = [] then 0 else mix) xs,
      zeros_after H (unat (CoverDepth sz)) xs zh)"
proof (cases "xs = []")
  case True
  then have "sz = 0" using assms(2) by (simp add: word_unat_eq_iff)
  then show ?thesis
    using True htr_list_empty [OF assms(5)] zeros_after_Nil [OF assms(5)] by (simp add: CoverDepth_def)
next
  case False
  then show ?thesis
    using htr_list_ok [of xs el zh sz "unat (CoverDepth limit)" limit H mix] assms by simp
qed

lemma zeros_after_ok:
  assumes "zeros_ok H 9 zh"
  shows "zeros_ok H 9 (zeros_after H d xs zh) \<longleftrightarrow> length xs = 2 ^ d \<or> mtree H d xs = replicate 32 0"
proof (cases "length xs = 2 ^ d")
  case False
  have "zeros_ok H 9 (zh[0 := x]) \<longleftrightarrow> x = replicate 32 0" for x
  proof
    assume "zeros_ok H 9 (zh[0 := x])"
    from zeros_ok_row0 [OF this] show "x = replicate 32 0" by simp
  qed (use assms zeros_ok_row0 [OF assms] in simp)
  with False show ?thesis by (simp add: zeros_after_def)
qed (use assms in \<open>simp add: zeros_after_def\<close>)

text \<open>C34: The table of zero hashes is not constant. After a list of at least one element the table is
  in order again only if the number of elements is a power of two, or if the tree over the elements
  happens to have the root zero: \<open>merge(zerohashes[0], ...)\<close> accumulates the hash in the table.\<close>

theorem htr_list_damages_zeros:
  assumes "\<And>k. k < length xs \<Longrightarrow> el k zh = Some (xs ! k, zh)" and "unat sz = length xs"
    and "xs \<noteq> []" and "length xs \<le> 255" and "length xs \<le> 2 ^ unat (CoverDepth limit)" and "zeros_ok H 9 zh"
  shows "\<exists>zh'. htr_list H sz el limit mix zh = Some (list_root H (unat (CoverDepth limit)) mix xs, zh') \<and>
    (zeros_ok H 9 zh' \<longleftrightarrow> (\<exists>e. length xs = 2 ^ e) \<or> mtree H (unat (CoverDepth sz)) xs = replicate 32 0)"
proof -
  let ?d = "unat (CoverDepth sz)"
  have "(\<exists>e. length xs = 2 ^ e) \<longleftrightarrow> length xs = 2 ^ ?d"
  proof
    assume "\<exists>e. length xs = 2 ^ e"
    then obtain e where e: "length xs = 2 ^ e" ..
    have "?d \<le> e" "length xs \<le> 2 ^ ?d"
      using CoverDepth_word [of sz] assms(2,4) e by (simp_all add: Suc_le_eq)
    then have "e = ?d" using e by (simp add: power_increasing_iff le_antisym)
    then show "length xs = 2 ^ ?d" using e by simp
  qed blast
  then show ?thesis
    using htr_list_ok [of xs el zh sz "unat (CoverDepth limit)" limit H mix] assms zeros_after_ok [OF assms(6), of ?d xs]
    by simp
qed

text \<open>Witnesses: three elements under the limit 16, with a hash that is easily computed.\<close>

definition demo_zeros :: zeros where
  "demo_zeros = map (\<lambda>j. mtree demo_H j []) [0..<64]"

lemma demo_zeros_ok: "zeros_ok demo_H 9 demo_zeros"
  by (simp add: zeros_ok_def demo_zeros_def del: upt_rec_numeral)

definition demo_el :: "nat \<Rightarrow> zeros \<Rightarrow> (bytes \<times> zeros) option" where
  "demo_el k zh = Some (replicate 32 (word_of_nat (Suc k)), zh)"

definition demo_leaves :: "bytes list" where
  "demo_leaves = map (\<lambda>k. replicate 32 (word_of_nat (Suc k))) [0..<3]"

lemma CoverDepth_16: "unat (CoverDepth 16) = 4"
  by code_simp

lemma CoverDepth_3: "unat (CoverDepth 3) = 2"
  by code_simp

theorem htr_list_spec_witness:
  "htr_list demo_H 3 demo_el 16 2 demo_zeros = Some (list_root demo_H 4 2 demo_leaves, zeros_after demo_H 2 demo_leaves demo_zeros)"
  using htr_list_spec [of demo_leaves demo_el demo_zeros 3 16 demo_H 2] demo_zeros_ok
  by (simp add: demo_leaves_def demo_el_def CoverDepth_16 CoverDepth_3)

theorem htr_list_damages_zeros_witness:
  "\<exists>zh'. htr_list demo_H 3 demo_el 16 2 demo_zeros = Some (list_root demo_H 4 2 demo_leaves, zh') \<and> \<not> zeros_ok demo_H 9 zh'"
proof -
  have "mtree demo_H 2 demo_leaves \<noteq> replicate 32 0"
    by code_simp
  moreover have "length demo_leaves \<noteq> 2 ^ e" for e
  proof
    assume "length demo_leaves = 2 ^ e"
    then have "2 ^ e = (3::nat)" by (simp add: demo_leaves_def)
    moreover from this have "e \<noteq> 0" by (cases "e = 0") simp_all
    then have "even (2 ^ e :: nat)" by simp
    ultimately show False by simp
  qed
  ultimately show ?thesis
    using htr_list_damages_zeros [of demo_leaves demo_el demo_zeros 3 16 demo_H 2] demo_zeros_ok
    by (simp add: demo_leaves_def demo_el_def CoverDepth_16 CoverDepth_3)
qed

section \<open>Bit lists\<close>

text \<open>A bit list of \<open>m\<close> bytes ends with a byte whose highest set bit marks the end. Its length in bits, its bytes without the
  mark, and the chunks of those.\<close>

definition bits_len :: "bytes \<Rightarrow> nat" where
  "bits_len bs = 8 * (length bs - 1) + unat (BitIndex (last bs))"

definition unmark :: "bytes \<Rightarrow> bytes" where
  "unmark bs = bs[length bs - 1 := last bs AND NOT (push_bit (unat (BitIndex (last bs))) 1)]"

definition bits_chunk :: "bytes \<Rightarrow> nat \<Rightarrow> bytes" where
  "bits_chunk bs k = take 32 (drop (32 * k) (unmark bs) @ replicate 32 0)"

definition bits_chunks :: "bytes \<Rightarrow> bytes list" where
  "bits_chunks bs = map (bits_chunk bs) [0..<(bits_len bs + 255) div 256]"

lemma BitIndex_less: "unat (BitIndex w) < 8"
  by (cases "w = 0") (simp add: BitIndex_def, use BitIndex_log [of w] in simp)

lemma unat_push:
  assumes "k * 2 ^ n < 2 ^ 64"
  shows "unat (push_bit n (word_of_nat k :: 64 word)) = k * 2 ^ n"
proof -
  have "push_bit n (word_of_nat k :: 64 word) = word_of_nat (k * 2 ^ n)"
    by (simp add: push_bit_eq_mult)
  then show ?thesis using unat_word64 [OF assms] by (simp only:)
qed

lemma bit_small: "b < 2 ^ m \<Longrightarrow> bit (b::nat) n \<Longrightarrow> n < m"
proof (rule ccontr)
  assume "b < 2 ^ m" "bit b n" "\<not> n < m"
  then have "b < 2 ^ n" by (meson less_le_trans not_less one_le_numeral power_increasing)
  then show False using \<open>bit b n\<close> by (simp add: bit_iff_odd)
qed

lemma or_low:
  fixes a b :: nat
  assumes "b < 2 ^ 3"
  shows "push_bit 3 a OR b = 8 * a + b"
proof -
  have "push_bit 3 a OR b = push_bit 3 a + b"
    by (rule disjunctive_add [symmetric]) (auto simp: bit_push_bit_iff_nat dest!: bit_small [OF assms])
  then show ?thesis by (simp add: push_bit_eq_mult)
qed

lemma BitlistLen_ok:
  assumes "bs \<noteq> []" and "length bs < 2 ^ 32" and "take (length bs) arr = bs"
  shows "BitlistLen arr (word_of_nat (length bs)) = Some (word_of_nat (bits_len bs))"
proof -
  let ?m = "length bs" and ?b = "BitIndex (last bs)"
  have m: "1 \<le> ?m" "word_of_nat ?m \<noteq> (0::64 word)" "word_of_nat ?m - 1 = (word_of_nat (?m - 1) :: 64 word)"
    using assms(1,2) by (simp_all add: Suc_le_eq word_unat_eq_iff unat_word64 del: unsigned_of_nat)
  have u: "unat (word_of_nat (?m - 1) :: 64 word) = ?m - 1"
    using assms(2) by (intro unat_word64) simp
  have "?m \<le> length arr" using assms(3) by (metis length_take min.cobounded1 min.commute)
  moreover have "arr ! (?m - 1) = last bs"
    using assms(1,3) m(1) by (metis diff_less last_conv_nth length_greater_0_conv nth_take zero_less_one)
  ultimately have "at arr (?m - 1) = Some (last bs)"
    using m(1) by (simp add: c_simps)
  moreover have "unat (push_bit 3 (word_of_nat (?m - 1)) OR ?b) = bits_len bs"
  proof -
    have "unat (push_bit 3 (word_of_nat (?m - 1) :: 64 word)) = push_bit 3 (?m - 1)"
      using unat_push [of "?m - 1" 3] assms(2) by (simp add: push_bit_eq_mult)
    then have "unat (push_bit 3 (word_of_nat (?m - 1)) OR ?b) = push_bit 3 (?m - 1) OR unat ?b"
      by (simp only: unsigned_or_eq)
    then show ?thesis using or_low [of "unat ?b" "?m - 1"] BitIndex_less [of "last bs"] by (simp add: bits_len_def)
  qed
  then have "push_bit 3 (word_of_nat (?m - 1)) OR ?b = word_of_nat (bits_len bs)"
    by (metis word_nchotomy unat_word64 of_nat_unat ucast_id)
  ultimately show ?thesis
    using m(2) u unfolding BitlistLen_def m(3) by simp
qed

lemma bits_len_div: "bs \<noteq> [] \<Longrightarrow> bits_len bs div 8 = length bs - 1"
  and bits_len_mod: "bits_len bs mod 8 = unat (BitIndex (last bs))"
  using BitIndex_less [of "last bs"] by (simp_all add: bits_len_def)

text \<open>The word arithmetic of the chunk loop, read as numbers.\<close>

lemma chunk_arith:
  fixes k m L :: nat
  assumes "256 * k < 2 ^ 40" and "L < 2 ^ 40" and "m < 2 ^ 40" and "256 * k \<le> L" and "32 * k \<le> m"
  shows "unat (push_bit 5 (word_of_nat k :: 64 word)) = 32 * k"
    and "(256 \<le> (word_of_nat L :: 64 word) - push_bit 8 (word_of_nat k)) = (256 * Suc k \<le> L)"
    and "unat (word_of_nat m - push_bit 5 (word_of_nat k) :: 64 word) = m - 32 * k"
    and "((word_of_nat L :: 64 word) < push_bit 8 (word_of_nat k + 1)) = (L < 256 * Suc k)"
    and "unat (drop_bit 3 ((word_of_nat L :: 64 word) AND 0xff)) = L mod 256 div 8"
    and "unat ((word_of_nat L :: 64 word) AND 7) = L mod 8"
proof -
  have u: "unat (word_of_nat L :: 64 word) = L" "unat (word_of_nat m :: 64 word) = m"
    using assms(2,3) by (intro unat_word64; simp)+
  show p5: "unat (push_bit 5 (word_of_nat k :: 64 word)) = 32 * k"
    using unat_push [of k 5] assms(1) by simp
  have p8: "unat (push_bit 8 (word_of_nat k :: 64 word)) = 256 * k"
    using unat_push [of k 8] assms(1) by simp
  have "unat (word_of_nat L - push_bit 8 (word_of_nat k) :: 64 word) = L - 256 * k"
    using assms(4) u(1) p8 by (subst unat_sub) (simp_all only: word_le_nat_alt)
  then show "(256 \<le> (word_of_nat L :: 64 word) - push_bit 8 (word_of_nat k)) = (256 * Suc k \<le> L)"
    by (simp add: word_le_nat_alt) linarith
  show "unat (word_of_nat m - push_bit 5 (word_of_nat k) :: 64 word) = m - 32 * k"
    using assms(5) u(2) p5 by (subst unat_sub) (simp_all only: word_le_nat_alt)
  have "unat (push_bit 8 (word_of_nat k + 1 :: 64 word)) = 256 * Suc k"
    using unat_push [of "Suc k" 8] assms(1) by (simp add: add.commute)
  then show "((word_of_nat L :: 64 word) < push_bit 8 (word_of_nat k + 1)) = (L < 256 * Suc k)"
    using u(1) by (simp only: word_less_nat_alt)
  have "L AND 255 = L mod 256" "L AND 7 = L mod 8"
    using take_bit_eq_mask [of 8 L] take_bit_eq_mask [of 3 L] by (simp_all add: take_bit_eq_mod mask_eq_exp_minus_1)
  then have "unat ((word_of_nat L :: 64 word) AND 0xff) = L mod 256"
    and "unat ((word_of_nat L :: 64 word) AND 7) = L mod 8"
    using u(1) by (simp_all add: unsigned_and_eq)
  moreover have "unat (drop_bit 3 w) = unat w div 8" for w :: "64 word"
    unfolding unat_drop_bit_eq by (simp add: drop_bit_eq_div)
  ultimately show "unat (drop_bit 3 ((word_of_nat L :: 64 word) AND 0xff)) = L mod 256 div 8"
    "unat ((word_of_nat L :: 64 word) AND 7) = L mod 8"
    by (simp_all only:)
qed

lemma bitlist_chunk_ok:
  assumes bs: "bs \<noteq> []" "length bs < 2 ^ 32" "take (length bs) arr = bs" and k: "k < (bits_len bs + 255) div 256"
  shows "bitlist_chunk arr (word_of_nat (length bs)) (word_of_nat (bits_len bs)) k zh = Some (bits_chunk bs k, zh)"
proof -
  let ?m = "length bs" and ?L = "bits_len bs"
  have L: "256 * k < ?L" using k by linarith
  have m: "?L div 8 = ?m - 1" "0 < ?m" "?m \<le> length arr"
    using bs bits_len_div [OF bs(1)] by (simp_all, metis length_take min.cobounded1 min.commute)
  have "?L < 8 * ?m"
    using m(1,2) by linarith
  then have b: "256 * k < 2 ^ 40" "?L < 2 ^ 40" "?m < 2 ^ 40" "256 * k \<le> ?L" "32 * k \<le> ?m"
    using bs(2) L by simp_all
  note ar = chunk_arith [OF b]
  show ?thesis
  proof (cases "256 * Suc k \<le> ?L")
    case True
    then have mk: "32 * k + 32 \<le> ?m - 1"
      using div_le_mono [OF True, of 8] m(1) by simp
    have "32 \<le> ?m - 32 * k" using mk by linarith
    then have "take 32 (drop (32 * k) (take ?m arr)) = take 32 (drop (32 * k) arr)"
      by (simp only: drop_take take_take min_absorb1)
    then have "take 32 (drop (32 * k) arr) = take 32 (drop (32 * k) bs)"
      unfolding bs(3) ..
    moreover have "bits_chunk bs k = take 32 (drop (32 * k) bs)"
      using mk by (simp add: bits_chunk_def unmark_def drop_update_swap)
    ultimately show ?thesis
      using True ar m mk by (simp add: bitlist_chunk_def Let_def c_simps)
  next
    case False
    define p where "p = ?m - 1 - 32 * k"
    have q: "32 * k \<le> ?L div 8" "?L div 8 < 32 * Suc k"
      using False L by (simp_all add: div_less_iff_less_mult less_eq_div_iff_mult_less_eq)
    have "?L mod 256 div 8 = ?L div 8 mod 32"
      using mod_mult2_eq [of ?L 8 32] by simp
    also have "\<dots> = ?L div 8 - 32 * k"
      using q mod_nat_eqI [of "?L div 8 - 32 * k" 32 "?L div 8"] by simp
    finally have p1: "?L mod 256 div 8 = p"
      using m(1) by (simp add: p_def)
    have p2: "p < 32" "?m - 1 = 32 * k + p"
      using q m(1) unfolding p_def by simp_all
    then have p: "?m - 32 * k = Suc p" "p < 32" "?m - 1 = 32 * k + p"
      using m(2) by linarith+
    let ?d = "drop (32 * k) bs"
    have "take (Suc p) (drop (32 * k) arr) = ?d"
      using drop_take [of "32 * k" ?m arr] unfolding bs(3) p(1) ..
    moreover have "length ?d = Suc p" "?d ! p = last bs"
      using bs(1) p by (simp_all add: last_conv_nth)
    ultimately have d: "take (Suc p) (drop (32 * k) arr) = ?d" "length ?d = Suc p" "?d ! p = last bs"
      by simp_all
    show ?thesis
      using False ar p1 p d m bits_len_mod [of bs]
      by (simp add: bitlist_chunk_def Let_def c_simps bits_chunk_def unmark_def drop_update_swap list_update_append nth_append)
  qed
qed

lemma length_bits_chunks [simp]: "length (bits_chunks bs) = (bits_len bs + 255) div 256"
  by (simp add: bits_chunks_def)

lemma unat_add255_shift:
  assumes "n < 2 ^ 40"
  shows "unat (drop_bit 8 (word_of_nat n + 0xff :: 64 word)) = (n + 255) div 256"
proof -
  have "(word_of_nat n + 0xff :: 64 word) = word_of_nat (n + 255)" by simp
  moreover have "unat (word_of_nat (n + 255) :: 64 word) = n + 255"
    using assms by (intro unat_word64) simp
  ultimately show ?thesis
    unfolding unat_drop_bit_eq by (simp only: drop_bit_eq_div) simp
qed

lemma htrBitlist_ok:
  assumes bs: "bs \<noteq> []" "length bs < 2 ^ 32" "take (length bs) arr = bs"
    and l: "l = unat (CoverDepth (drop_bit 8 (bitlimit + 0xff)))"
    and len: "length (bits_chunks bs) \<le> 255" "length (bits_chunks bs) \<le> 2 ^ l"
    and z: "zeros_ok H 9 zh"
  shows "htrBitlist H arr (word_of_nat (length bs)) bitlimit zh =
    Some (list_root H l (word_of_nat (bits_len bs)) (bits_chunks bs),
      zeros_after H (unat (CoverDepth (word_of_nat (length (bits_chunks bs))))) (bits_chunks bs) zh)"
proof -
  let ?xs = "bits_chunks bs" and ?L = "word_of_nat (bits_len bs) :: 64 word"
  let ?sz = "drop_bit 8 (?L + 0xff)"
  have L: "bits_len bs < 2 ^ 40"
    using bs(2) BitIndex_less [of "last bs"] by (simp add: bits_len_def)
  have s: "unat ?sz = length ?xs"
    using unat_add255_shift [OF L] by (simp only: length_bits_chunks)
  then have sz: "?sz = word_of_nat (length ?xs)"
    by (metis of_nat_unat ucast_id)
  let ?d = "unat (CoverDepth ?sz)"
  have d: "length ?xs \<le> 2 ^ ?d" "?d \<le> l"
  proof -
    have "length ?xs = 0 \<or> 1 \<le> unat ?sz" using s by linarith
    moreover have "length ?xs = 0 \<Longrightarrow> ?d = 0"
      using s by (simp add: CoverDepth_def unat_eq_0)
    moreover have "1 \<le> unat ?sz \<Longrightarrow> length ?xs \<le> 2 ^ ?d \<and> ?d \<le> l"
      using CoverDepth_word [of ?sz] s len by simp
    ultimately show "length ?xs \<le> 2 ^ ?d" "?d \<le> l" by auto
  qed
  have l8: "l \<le> 8" using CoverDepth_le_8 l by simp
  have zl: "zeros_ok H l zh" "zh \<noteq> []" "zh ! 0 = mtree H 0 []"
    using z l8 zeros_ok_row0 [OF z] by (auto simp: zeros_ok_def)
  have "bitlist_chunk arr (word_of_nat (length bs)) ?L k zh = Some (?xs ! k, zh)" if "k < length ?xs" for k
    using bitlist_chunk_ok [OF bs, of k zh] that by (simp add: bits_chunks_def)
  then have "merkleize H (l + 1) ?sz (bitlist_chunk arr (word_of_nat (length bs)) ?L) (CoverDepth ?sz)
      (CoverDepth (drop_bit 8 (bitlimit + 0xff))) zh = Some (mtree H l ?xs, zeros_after H ?d ?xs zh)"
    by (intro merkleize_ok) (use s len(1) d l l8 zl in simp_all)
  then show ?thesis
    using BitlistLen_ok [OF bs] htru64_chunk [of "replicate 32 0" ?L] l unfolding sz [symmetric]
    by (simp add: htrBitlist_def Let_def list_root_def)
qed

text \<open>C21: Bit lists. For a bit list whose chunks fit the limit, \<open>htrBitlist\<close> returns the root of its
  chunks, without the bit that marks the end, under the tree of the limit's height, hashed with the number of bits:
  the root that SSZ prescribes.\<close>

theorem htrBitlist_spec:
  assumes "bs \<noteq> []" and "length bs < 2 ^ 32" and "take (length bs) arr = bs"
    and "length (bits_chunks bs) \<le> 255"
    and "length (bits_chunks bs) \<le> 2 ^ unat (CoverDepth (drop_bit 8 (bitlimit + 0xff)))"
    and "zeros_ok H 9 zh"
  shows "map_option fst (htrBitlist H arr (word_of_nat (length bs)) bitlimit zh) =
    Some (list_root H (unat (CoverDepth (drop_bit 8 (bitlimit + 0xff)))) (word_of_nat (bits_len bs)) (bits_chunks bs))"
  using htrBitlist_ok [OF assms(1-3) refl assms(4-6)] by simp

theorem htrBitlist_spec_witness:
  "map_option fst (htrBitlist demo_H [0xff, 0x03, 7] 2 2048 demo_zeros) =
    Some (list_root demo_H 3 9 [[0xff, 0x01] @ replicate 30 0])"
proof -
  have "bits_len [0xff, 0x03] = 9" "bits_chunks [0xff, 0x03] = [[0xff, 0x01] @ replicate 30 0]"
    "unat (CoverDepth (drop_bit 8 (2048 + 0xff))) = 3"
    by code_simp+
  then show ?thesis
    using htrBitlist_spec [of "[0xff, 0x03]" "[0xff, 0x03, 7]" 2048 demo_H demo_zeros] demo_zeros_ok by simp
qed

end
