(* ===== verification/Ssz_Containers.thy ===== *)
theory Ssz_Containers
  imports Merkleization
begin

text \<open>
  \<^verbatim>\<open>src/lib/merkleization.h\<close>, second part: the hash tree roots of the beacon chain containers, the
  domain and the signing root.

  The documents are read through cJSON, which is not part of the repository: \<open>cjson\<close> holds its four
  accessors as functions on nodes of an arbitrary type; a null pointer is \<open>None\<close>. Dereferencing
  one is undefined, and so is arithmetic on a string that is absent or shorter than the offset: the
  model returns \<open>None\<close> there. \<open>stk\<close> gives the contents of local variables before their first
  assignment, by their names: \<open>sscanf\<close> and \<open>hex2bin\<close> leave them alone when the text is malformed, and the code
  does not look at their results.

  The specification of a container is \<open>mtree\<close> over the roots of its fields.
\<close>

unbundle bit_operations_syntax

section \<open>Reading a document\<close>

record 'j cjson =
  GetObjectItem :: "'j option \<Rightarrow> string \<Rightarrow> 'j option"
  GetArraySize :: "'j option \<Rightarrow> int"
  GetArrayItem :: "'j option \<Rightarrow> int \<Rightarrow> 'j option"
  valuestring :: "'j \<Rightarrow> string option"

record locals =
  nums :: "string \<Rightarrow> 64 word"
  arrs :: "string \<Rightarrow> nat \<Rightarrow> byte"

text \<open>\<open>sscanf(s, "%" PRIu64, &v)\<close>: \<open>v\<close> afterwards. A number that does not fit is undefined.\<close>

definition sscanf_u64 :: "string \<Rightarrow> 64 word \<Rightarrow> 64 word option" where
  "sscanf_u64 s v = (
     let s1 = dropWhile is_space s;
         neg = (chr_at s1 0 = CHR ''-'');
         s2 = (if neg \<or> chr_at s1 0 = CHR ''+'' then tl s1 else s1);
         ds = takeWhile is_digit s2;
         n = of_dec ds
     in if ds = [] then Some v
        else if n < 2 ^ 64 then Some (if neg then - word_of_nat n else word_of_nat n)
        else None)"

definition str_item :: "'j cjson \<Rightarrow> 'j option \<Rightarrow> string \<Rightarrow> string option" where
  "str_item cj p name = do { j \<leftarrow> GetObjectItem cj p name; valuestring cj j }"

definition u64_item :: "'j cjson \<Rightarrow> locals \<Rightarrow> 'j option \<Rightarrow> string \<Rightarrow> string \<Rightarrow> 64 word option" where
  "u64_item cj stk p name var = do { s \<leftarrow> str_item cj p name; sscanf_u64 s (nums stk var) }"

text \<open>\<open>hex2bin(...->valuestring + 2, 2 * n, var, n)\<close>.\<close>

definition hex_item :: "'j cjson \<Rightarrow> locals \<Rightarrow> 'j option \<Rightarrow> string \<Rightarrow> string \<Rightarrow> nat \<Rightarrow> bytes option" where
  "hex_item cj stk p name var n = do {
     s \<leftarrow> str_item cj p name;
     if length s < 2 then None
     else map_option snd (hex2bin (drop 2 s) (2 * n) (stack_arr (arrs stk var) n) n)
   }"

definition htr64 :: "64 word \<Rightarrow> bytes option" where
  "htr64 v = htru64 v (replicate 32 0)"

section \<open>Lists of integers\<close>

definition htru64list :: "hashf \<Rightarrow> 'j cjson \<Rightarrow> locals \<Rightarrow> 'j option \<Rightarrow> 64 word \<Rightarrow> zeros \<Rightarrow> (bytes \<times> zeros) option" where
  "htru64list H cj stk l mx zh =
     htr_list H (word_of_int (GetArraySize cj l))
       (\<lambda>i zh. do {
          j \<leftarrow> GetArrayItem cj l (int i);
          s \<leftarrow> valuestring cj j;
          num \<leftarrow> sscanf_u64 s (nums stk ''num'');
          hArr \<leftarrow> htr64 num;
          Some (hArr, zh)
        }) mx mx zh"

section \<open>Attestation data\<close>

definition htrAttDat :: "hashf \<Rightarrow> 'j cjson \<Rightarrow> locals \<Rightarrow> 'j option \<Rightarrow> zeros \<Rightarrow> bytes option" where
  "htrAttDat H cj stk attdat zh = do {
     slot \<leftarrow> u64_item cj stk attdat ''slot'' ''slot'';
     index \<leftarrow> u64_item cj stk attdat ''index'' ''index'';
     let src = GetObjectItem cj attdat ''source'';
     srcepoch \<leftarrow> u64_item cj stk src ''epoch'' ''srcepoch'';
     let tgt = GetObjectItem cj attdat ''target'';
     tgtepoch \<leftarrow> u64_item cj stk tgt ''epoch'' ''tgtepoch'';
     slothtr \<leftarrow> htr64 slot;
     indexhtr \<leftarrow> htr64 index;
     let tmp0 = hashsum H slothtr indexhtr;
     srcepochhtr \<leftarrow> htr64 srcepoch;
     srcrootbin \<leftarrow> hex_item cj stk src ''root'' ''srcrootbin'' 32;
     let tmp1 = hashsum H srcepochhtr srcrootbin;
     bbr \<leftarrow> hex_item cj stk attdat ''beacon_block_root'' ''bbr'' 32;
     let tmp3 = hashsum H bbr tmp1;
     let tmp2 = hashsum H tmp0 tmp3;
     tgtepochhtr \<leftarrow> htr64 tgtepoch;
     tgtrootbin \<leftarrow> hex_item cj stk tgt ''root'' ''tgtrootbin'' 32;
     let tmp0 = hashsum H tgtepochhtr tgtrootbin;
     z0 \<leftarrow> at zh 0;
     let tmp1 = hashsum H tmp0 z0;
     z1 \<leftarrow> at zh 1;
     let tmp3 = hashsum H tmp1 z1;
     Some (hashsum H tmp2 tmp3)
   }"

section \<open>Domain and signing root\<close>

definition domain_beacon_proposer :: bytes where "domain_beacon_proposer = [0, 0, 0, 0]"
definition domain_beacon_attester :: bytes where "domain_beacon_attester = [1, 0, 0, 0]"
definition domain_randao :: bytes where "domain_randao = [2, 0, 0, 0]"
definition domain_deposit :: bytes where "domain_deposit = [3, 0, 0, 0]"
definition domain_voluntary_exit :: bytes where "domain_voluntary_exit = [4, 0, 0, 0]"
definition domain_selection_proof :: bytes where "domain_selection_proof = [5, 0, 0, 0]"
definition domain_aggregate_and_proof :: bytes where "domain_aggregate_and_proof = [6, 0, 0, 0]"

definition getDomain :: "hashf \<Rightarrow> 'j cjson \<Rightarrow> locals \<Rightarrow> 'j option \<Rightarrow> bytes \<Rightarrow> bytes option" where
  "getDomain H cj stk forkinfo domtype = do {
     let fork = GetObjectItem cj forkinfo ''fork'';
     currentVersion \<leftarrow> hex_item cj stk fork ''current_version'' ''currentVersion'' 4;
     version \<leftarrow> htrversion (stack_arr (arrs stk ''version'') 32) currentVersion;
     genesisValidatorsRoot \<leftarrow> hex_item cj stk forkinfo ''genesis_validators_root'' ''genesisValidatorsRoot'' 32;
     let forkDataRoot = hashsum H version genesisValidatorsRoot;
     Some (take 4 domtype @ take 28 forkDataRoot)
   }"

definition computeSigningRoot :: "hashf \<Rightarrow> bytes \<Rightarrow> bytes \<Rightarrow> bytes" where
  "computeSigningRoot H htr domain = hashsum H htr domain"

definition sr :: "hashf \<Rightarrow> 'j cjson \<Rightarrow> locals \<Rightarrow> 'j option \<Rightarrow> bytes \<Rightarrow> bytes \<Rightarrow> bytes option" where
  "sr H cj stk fullblock htr domtype = do {
     let forkinfo = GetObjectItem cj fullblock ''fork_info'';
     domain \<leftarrow> getDomain H cj stk forkinfo domtype;
     Some (computeSigningRoot H htr domain)
   }"

section \<open>Signatures and public keys\<close>

definition htrBLSSignature :: "hashf \<Rightarrow> bytes \<Rightarrow> zeros \<Rightarrow> bytes option" where
  "htrBLSSignature H sign zh =
     (if length sign < 96 then None
      else do {
        let tmp0 = hashsum H sign (drop 32 sign);
        z0 \<leftarrow> at zh 0;
        let tmp1 = hashsum H (drop 64 sign) z0;
        Some (hashsum H tmp0 tmp1)
      })"

text \<open>The \<open>memset\<close> clears \<open>sizeof(uint8_t)\<close> bytes, one of the sixteen.\<close>

definition htrBLSPubkey :: "hashf \<Rightarrow> locals \<Rightarrow> bytes \<Rightarrow> bytes option" where
  "htrBLSPubkey H stk pk =
     (if length pk < 48 then None
      else do {
        tmp \<leftarrow> blit (stack_arr (arrs stk ''tmp'') 32) (take 16 (drop 32 pk));
        tmp \<leftarrow> put tmp 16 0;
        Some (hashsum H pk tmp)
      })"

section \<open>Attestations\<close>

text \<open>\<open>aggbitslen\<close> is a \<open>uint8_t\<close>.\<close>

definition htrAtt :: "hashf \<Rightarrow> 'j cjson \<Rightarrow> locals \<Rightarrow> 'j option \<Rightarrow> zeros \<Rightarrow> (bytes \<times> zeros) option" where
  "htrAtt H cj stk att zh = do {
     s \<leftarrow> str_item cj att ''aggregation_bits'';
     aggbits \<leftarrow> (if length s < 2 then None else Some (drop 2 s));
     let aggbitslen = unat (word_of_nat (length aggbits) :: 8 word);
     (_, aggbitsbin) \<leftarrow> hex2bin aggbits aggbitslen (stack_arr (arrs stk ''aggbitsbin'') 257) (aggbitslen div 2);
     (tmp0, zh) \<leftarrow> htrBitlist H aggbitsbin (word_of_nat (aggbitslen div 2 + aggbitslen mod 2)) 2048 zh;
     tmp1 \<leftarrow> htrAttDat H cj stk (GetObjectItem cj att ''data'') zh;
     let tmp0 = hashsum H tmp0 tmp1;
     blssigbin \<leftarrow> hex_item cj stk att ''signature'' ''blssigbin'' 96;
     tmp1 \<leftarrow> htrBLSSignature H blssigbin zh;
     z0 \<leftarrow> at zh 0;
     let tmp1 = hashsum H tmp1 z0;
     Some (hashsum H tmp0 tmp1, zh)
   }"

definition htrAggSlot :: "'j cjson \<Rightarrow> locals \<Rightarrow> 'j option \<Rightarrow> bytes option" where
  "htrAggSlot cj stk aggslot = do {
     slot \<leftarrow> u64_item cj stk aggslot ''slot'' ''slot'';
     htr64 slot
   }"

definition htrAggAndProof :: "hashf \<Rightarrow> 'j cjson \<Rightarrow> locals \<Rightarrow> 'j option \<Rightarrow> zeros \<Rightarrow> (bytes \<times> zeros) option" where
  "htrAggAndProof H cj stk aggandproof zh = do {
     agind \<leftarrow> u64_item cj stk aggandproof ''aggregator_index'' ''agind'';
     tmp0 \<leftarrow> htr64 agind;
     (tmp1, zh) \<leftarrow> htrAtt H cj stk (GetObjectItem cj aggandproof ''aggregate'') zh;
     let tmp0 = hashsum H tmp0 tmp1;
     selproofbin \<leftarrow> hex_item cj stk aggandproof ''selection_proof'' ''selproofbin'' 96;
     tmp1 \<leftarrow> htrBLSSignature H selproofbin zh;
     z0 \<leftarrow> at zh 0;
     let tmp1 = hashsum H tmp1 z0;
     Some (hashsum H tmp0 tmp1, zh)
   }"

section \<open>Parts of a block\<close>

definition htrEth1Data :: "hashf \<Rightarrow> 'j cjson \<Rightarrow> locals \<Rightarrow> 'j option \<Rightarrow> zeros \<Rightarrow> bytes option" where
  "htrEth1Data H cj stk eth1data zh = do {
     depositrootbin \<leftarrow> hex_item cj stk eth1data ''deposit_root'' ''depositrootbin'' 32;
     depositcount \<leftarrow> u64_item cj stk eth1data ''deposit_count'' ''depositcount'';
     blockhashbin \<leftarrow> hex_item cj stk eth1data ''block_hash'' ''blockhashbin'' 32;
     tmp0 \<leftarrow> htr64 depositcount;
     let tmp0 = hashsum H depositrootbin tmp0;
     z0 \<leftarrow> at zh 0;
     let tmp1 = hashsum H blockhashbin z0;
     Some (hashsum H tmp0 tmp1)
   }"

definition htrBeaconBlockHeader :: "hashf \<Rightarrow> 'j cjson \<Rightarrow> locals \<Rightarrow> 'j option \<Rightarrow> zeros \<Rightarrow> bytes option" where
  "htrBeaconBlockHeader H cj stk bbh zh = do {
     slot \<leftarrow> u64_item cj stk bbh ''slot'' ''slot'';
     proposer_index \<leftarrow> u64_item cj stk bbh ''proposer_index'' ''proposer_index'';
     parent_rootbin \<leftarrow> hex_item cj stk bbh ''parent_root'' ''parent_rootbin'' 32;
     state_rootbin \<leftarrow> hex_item cj stk bbh ''state_root'' ''state_rootbin'' 32;
     body_rootbin \<leftarrow> hex_item cj stk bbh ''body_root'' ''body_rootbin'' 32;
     tmp0 \<leftarrow> htr64 slot;
     tmp1 \<leftarrow> htr64 proposer_index;
     let tmp0 = hashsum H tmp0 tmp1;
     let tmp1 = hashsum H parent_rootbin state_rootbin;
     let tmp0 = hashsum H tmp0 tmp1;
     z0 \<leftarrow> at zh 0;
     let tmp1 = hashsum H body_rootbin z0;
     z1 \<leftarrow> at zh 1;
     let tmp1 = hashsum H tmp1 z1;
     Some (hashsum H tmp0 tmp1)
   }"

definition htrSignedBeaconBlockHeader :: "hashf \<Rightarrow> 'j cjson \<Rightarrow> locals \<Rightarrow> 'j option \<Rightarrow> zeros \<Rightarrow> bytes option" where
  "htrSignedBeaconBlockHeader H cj stk signedbbh zh = do {
     signaturebin \<leftarrow> hex_item cj stk signedbbh ''signature'' ''signaturebin'' 96;
     htr \<leftarrow> htrBeaconBlockHeader H cj stk (GetObjectItem cj signedbbh ''message'') zh;
     tmp \<leftarrow> htrBLSSignature H signaturebin zh;
     Some (hashsum H htr tmp)
   }"

definition htrProposerSlashing :: "hashf \<Rightarrow> 'j cjson \<Rightarrow> locals \<Rightarrow> 'j option \<Rightarrow> zeros \<Rightarrow> bytes option" where
  "htrProposerSlashing H cj stk proposerslashing zh = do {
     htr \<leftarrow> htrSignedBeaconBlockHeader H cj stk (GetObjectItem cj proposerslashing ''signed_header_1'') zh;
     tmp \<leftarrow> htrSignedBeaconBlockHeader H cj stk (GetObjectItem cj proposerslashing ''signed_header_2'') zh;
     Some (hashsum H htr tmp)
   }"

definition htrIndexedAttestation :: "hashf \<Rightarrow> 'j cjson \<Rightarrow> locals \<Rightarrow> 'j option \<Rightarrow> zeros \<Rightarrow> (bytes \<times> zeros) option" where
  "htrIndexedAttestation H cj stk indexatt zh = do {
     signaturebin \<leftarrow> hex_item cj stk indexatt ''signature'' ''signaturebin'' 96;
     (htr, zh) \<leftarrow> htru64list H cj stk (GetObjectItem cj indexatt ''attesting_indices'') 2048 zh;
     tmp \<leftarrow> htrAttDat H cj stk (GetObjectItem cj indexatt ''data'') zh;
     let htr = hashsum H htr tmp;
     tmp \<leftarrow> htrBLSSignature H signaturebin zh;
     z0 \<leftarrow> at zh 0;
     let tmp = hashsum H tmp z0;
     Some (hashsum H htr tmp, zh)
   }"

definition htrAttesterSlashing :: "hashf \<Rightarrow> 'j cjson \<Rightarrow> locals \<Rightarrow> 'j option \<Rightarrow> zeros \<Rightarrow> (bytes \<times> zeros) option" where
  "htrAttesterSlashing H cj stk attesterslashing zh = do {
     (htr, zh) \<leftarrow> htrIndexedAttestation H cj stk (GetObjectItem cj attesterslashing ''attestation_1'') zh;
     (tmp, zh) \<leftarrow> htrIndexedAttestation H cj stk (GetObjectItem cj attesterslashing ''attestation_2'') zh;
     Some (hashsum H htr tmp, zh)
   }"

definition htrDepositData :: "hashf \<Rightarrow> 'j cjson \<Rightarrow> locals \<Rightarrow> 'j option \<Rightarrow> zeros \<Rightarrow> bytes option" where
  "htrDepositData H cj stk depositData zh = do {
     pkbin \<leftarrow> hex_item cj stk depositData ''pubkey'' ''pkbin'' 48;
     withdrawal_credentialsbin \<leftarrow> hex_item cj stk depositData ''withdrawal_credentials'' ''withdrawal_credentialsbin'' 32;
     amount \<leftarrow> u64_item cj stk depositData ''amount'' ''amount'';
     signaturebin \<leftarrow> hex_item cj stk depositData ''signature'' ''signaturebin'' 96;
     htr \<leftarrow> htrBLSPubkey H stk pkbin;
     let htr = hashsum H htr withdrawal_credentialsbin;
     tmp0 \<leftarrow> htr64 amount;
     tmp1 \<leftarrow> htrBLSSignature H signaturebin zh;
     let tmp0 = hashsum H tmp0 tmp1;
     Some (hashsum H htr tmp0)
   }"

definition htrDeposit :: "hashf \<Rightarrow> 'j cjson \<Rightarrow> locals \<Rightarrow> 'j option \<Rightarrow> zeros \<Rightarrow> (bytes \<times> zeros) option" where
  "htrDeposit H cj stk deposit zh = do {
     let proof_list = GetObjectItem cj deposit ''proof'';
     let data = GetObjectItem cj deposit ''data'';
     (htr, zh) \<leftarrow> htru64list H cj stk proof_list 33 zh;
     tmp \<leftarrow> htrDepositData H cj stk data zh;
     Some (hashsum H htr tmp, zh)
   }"

definition htrVoluntaryExit :: "hashf \<Rightarrow> 'j cjson \<Rightarrow> locals \<Rightarrow> 'j option \<Rightarrow> bytes option" where
  "htrVoluntaryExit H cj stk voluntaryexit = do {
     epoch \<leftarrow> u64_item cj stk voluntaryexit ''epoch'' ''epoch'';
     validator_index \<leftarrow> u64_item cj stk voluntaryexit ''voluntary_exit'' ''validator_index'';
     htr \<leftarrow> htr64 epoch;
     tmp \<leftarrow> htr64 validator_index;
     Some (hashsum H htr tmp)
   }"

text \<open>The text of the signature is passed where its bytes are expected.\<close>

definition htrSignedVoluntaryExit :: "hashf \<Rightarrow> 'j cjson \<Rightarrow> locals \<Rightarrow> 'j option \<Rightarrow> zeros \<Rightarrow> bytes option" where
  "htrSignedVoluntaryExit H cj stk signedvoluntaryexit zh = do {
     htr \<leftarrow> htrVoluntaryExit H cj stk (GetObjectItem cj signedvoluntaryexit ''message'');
     s \<leftarrow> str_item cj signedvoluntaryexit ''signature'';
     tmp \<leftarrow> htrBLSSignature H (map ord8 (s @ [nul])) zh;
     Some (hashsum H htr tmp)
   }"

section \<open>Lists of operations\<close>

definition with_zeros :: "zeros \<Rightarrow> bytes option \<Rightarrow> (bytes \<times> zeros) option" where
  "with_zeros zh r = map_option (\<lambda>b. (b, zh)) r"

definition htrProposerSlashings :: "hashf \<Rightarrow> 'j cjson \<Rightarrow> locals \<Rightarrow> 'j option \<Rightarrow> zeros \<Rightarrow> (bytes \<times> zeros) option" where
  "htrProposerSlashings H cj stk proposerslashings zh =
     htr_list H (word_of_int (GetArraySize cj proposerslashings))
       (\<lambda>i zh. with_zeros zh (htrProposerSlashing H cj stk (GetArrayItem cj proposerslashings (int i)) zh)) 16 16 zh"

definition htrAttesterSlashings :: "hashf \<Rightarrow> 'j cjson \<Rightarrow> locals \<Rightarrow> 'j option \<Rightarrow> zeros \<Rightarrow> (bytes \<times> zeros) option" where
  "htrAttesterSlashings H cj stk attesterslashings zh =
     htr_list H (word_of_int (GetArraySize cj attesterslashings))
       (\<lambda>i zh. htrAttesterSlashing H cj stk (GetArrayItem cj attesterslashings (int i)) zh) 2 2 zh"

definition htrAttestations :: "hashf \<Rightarrow> 'j cjson \<Rightarrow> locals \<Rightarrow> 'j option \<Rightarrow> zeros \<Rightarrow> (bytes \<times> zeros) option" where
  "htrAttestations H cj stk attestations zh =
     htr_list H (word_of_int (GetArraySize cj attestations))
       (\<lambda>i zh. htrAtt H cj stk (GetArrayItem cj attestations (int i)) zh) 128 2 zh"

definition htrDeposits :: "hashf \<Rightarrow> 'j cjson \<Rightarrow> locals \<Rightarrow> 'j option \<Rightarrow> zeros \<Rightarrow> (bytes \<times> zeros) option" where
  "htrDeposits H cj stk deposits zh =
     htr_list H (word_of_int (GetArraySize cj deposits))
       (\<lambda>i zh. htrDeposit H cj stk (GetArrayItem cj deposits (int i)) zh) 16 2 zh"

definition htrVoluntaryExits :: "hashf \<Rightarrow> 'j cjson \<Rightarrow> locals \<Rightarrow> 'j option \<Rightarrow> zeros \<Rightarrow> (bytes \<times> zeros) option" where
  "htrVoluntaryExits H cj stk voluntaryexits zh =
     htr_list H (word_of_int (GetArraySize cj voluntaryexits))
       (\<lambda>i zh. with_zeros zh (htrVoluntaryExit H cj stk (GetArrayItem cj voluntaryexits (int i)))) 16 2 zh"

text \<open>\<open>htrBitVector\<close> has an empty body, so that the caller's array keeps its contents \<open>htr\<close>.\<close>

definition htrBitVector :: "bytes \<Rightarrow> bytes" where
  "htrBitVector htr = htr"

definition htrSyncAggregate :: "hashf \<Rightarrow> 'j cjson \<Rightarrow> 'j option \<Rightarrow> bytes \<Rightarrow> zeros \<Rightarrow> bytes option" where
  "htrSyncAggregate H cj syncaggregate htr zh = do {
     let htr = htrBitVector htr;
     s \<leftarrow> str_item cj syncaggregate ''sync_committee_signature'';
     tmp \<leftarrow> htrBLSSignature H (map ord8 (s @ [nul])) zh;
     Some (hashsum H htr tmp)
   }"

section \<open>Blocks\<close>

definition htrBeaconBlockBody :: "hashf \<Rightarrow> 'j cjson \<Rightarrow> locals \<Rightarrow> 'j option \<Rightarrow> zeros \<Rightarrow> (bytes \<times> zeros) option" where
  "htrBeaconBlockBody H cj stk body zh = do {
     randao_revealbin \<leftarrow> hex_item cj stk body ''randao_reveal'' ''randao_revealbin'' 96;
     graffitibin \<leftarrow> hex_item cj stk body ''graffiti'' ''graffitibin'' 32;
     let proposer_slashings = GetObjectItem cj body ''proposer_slashings'';
     let attester_slashings = GetObjectItem cj body ''attester_slashings'';
     let attestations = GetObjectItem cj body ''attestations'';
     let deposits = GetObjectItem cj body ''deposits'';
     let voluntary_exits = GetObjectItem cj body ''voluntary_exits'';
     tmp0 \<leftarrow> htrBLSSignature H randao_revealbin zh;
     tmp1 \<leftarrow> htrEth1Data H cj stk (GetObjectItem cj body ''eth1_data'') zh;
     let tmp0 = hashsum H tmp0 tmp1;
     (tmp2, zh) \<leftarrow> htrProposerSlashings H cj stk proposer_slashings zh;
     let tmp1 = hashsum H graffitibin tmp2;
     let tmp0 = hashsum H tmp0 tmp1;
     (tmp1, zh) \<leftarrow> htrAttesterSlashings H cj stk attester_slashings zh;
     (tmp2, zh) \<leftarrow> htrAttestations H cj stk attestations zh;
     let tmp1 = hashsum H tmp1 tmp2;
     (tmp2, zh) \<leftarrow> htrDeposits H cj stk deposits zh;
     (tmp3, zh) \<leftarrow> htrVoluntaryExits H cj stk voluntary_exits zh;
     let tmp2 = hashsum H tmp2 tmp3;
     let tmp1 = hashsum H tmp1 tmp2;
     Some (hashsum H tmp0 tmp1, zh)
   }"

definition htrBeaconBlock :: "hashf \<Rightarrow> 'j cjson \<Rightarrow> locals \<Rightarrow> 'j option \<Rightarrow> zeros \<Rightarrow> (bytes \<times> zeros) option" where
  "htrBeaconBlock H cj stk block zh = do {
     slot \<leftarrow> u64_item cj stk block ''slot'' ''slot'';
     proposer_index \<leftarrow> u64_item cj stk block ''proposer_index'' ''proposer_index'';
     parent_rootbin \<leftarrow> hex_item cj stk block ''parent_root'' ''parent_rootbin'' 32;
     state_rootbin \<leftarrow> hex_item cj stk block ''state_root'' ''state_rootbin'' 32;
     tmp0 \<leftarrow> htr64 slot;
     tmp1 \<leftarrow> htr64 proposer_index;
     let tmp0 = hashsum H tmp0 tmp1;
     let tmp1 = hashsum H parent_rootbin state_rootbin;
     let tmp0 = hashsum H tmp0 tmp1;
     (tmp1, zh) \<leftarrow> htrBeaconBlockBody H cj stk (GetObjectItem cj block ''body'') zh;
     z0 \<leftarrow> at zh 0;
     let tmp1 = hashsum H tmp1 z0;
     z1 \<leftarrow> at zh 1;
     let tmp1 = hashsum H tmp1 z1;
     Some (hashsum H tmp0 tmp1, zh)
   }"

text \<open>Version 2 looks up \<open>sync_aggregate\<close> and does not use it.\<close>

definition htrBeaconBlockBodyV2 :: "hashf \<Rightarrow> 'j cjson \<Rightarrow> locals \<Rightarrow> 'j option \<Rightarrow> zeros \<Rightarrow> (bytes \<times> zeros) option" where
  "htrBeaconBlockBodyV2 H cj stk body zh = do {
     randao_revealbin \<leftarrow> hex_item cj stk body ''randao_reveal'' ''randao_revealbin'' 96;
     graffitibin \<leftarrow> hex_item cj stk body ''graffiti'' ''graffitibin'' 32;
     let proposer_slashings = GetObjectItem cj body ''proposer_slashings'';
     let attester_slashings = GetObjectItem cj body ''attester_slashings'';
     let attestations = GetObjectItem cj body ''attestations'';
     let deposits = GetObjectItem cj body ''deposits'';
     let voluntary_exits = GetObjectItem cj body ''voluntary_exits'';
     let sync_aggregate = GetObjectItem cj body ''sync_aggregate'';
     tmp0 \<leftarrow> htrBLSSignature H randao_revealbin zh;
     tmp1 \<leftarrow> htrEth1Data H cj stk (GetObjectItem cj body ''eth1_data'') zh;
     let tmp0 = hashsum H tmp0 tmp1;
     (tmp2, zh) \<leftarrow> htrProposerSlashings H cj stk proposer_slashings zh;
     let tmp1 = hashsum H graffitibin tmp2;
     let tmp0 = hashsum H tmp0 tmp1;
     (tmp1, zh) \<leftarrow> htrAttesterSlashings H cj stk attester_slashings zh;
     (tmp2, zh) \<leftarrow> htrAttestations H cj stk attestations zh;
     let tmp1 = hashsum H tmp1 tmp2;
     (tmp2, zh) \<leftarrow> htrDeposits H cj stk deposits zh;
     (tmp3, zh) \<leftarrow> htrVoluntaryExits H cj stk voluntary_exits zh;
     let tmp2 = hashsum H tmp2 tmp3;
     let tmp1 = hashsum H tmp1 tmp2;
     Some (hashsum H tmp0 tmp1, zh)
   }"

section \<open>Well-formed documents\<close>

text \<open>Item \<open>name\<close> of \<open>p\<close> is the decimal text of \<open>v\<close>, or the text 0x followed by the digits of \<open>bs\<close>.\<close>

definition u64_is :: "'j cjson \<Rightarrow> 'j option \<Rightarrow> string \<Rightarrow> 64 word \<Rightarrow> bool" where
  "u64_is cj p name v \<longleftrightarrow> (case str_item cj p name of None \<Rightarrow> False
     | Some s \<Rightarrow> s \<noteq> [] \<and> list_all is_digit s \<and> of_dec s = unat v)"

definition hex_is :: "'j cjson \<Rightarrow> 'j option \<Rightarrow> string \<Rightarrow> nat \<Rightarrow> bytes \<Rightarrow> bool" where
  "hex_is cj p name n bs \<longleftrightarrow> (case str_item cj p name of None \<Rightarrow> False
     | Some s \<Rightarrow> length s = 2 * n + 2 \<and> list_all is_hex (drop 2 s) \<and> unhex (drop 2 s) = bs)"

lemma is_digit_not:
  assumes "is_digit c"
  shows "\<not> is_space c" "c \<noteq> CHR ''-''" "c \<noteq> CHR ''+''"
  using assms by (auto simp: is_digit_def is_space_def between_def ord8_def)

lemma sscanf_u64_digits:
  assumes "s \<noteq> []" and "list_all is_digit s" and "of_dec s = unat v"
  shows "sscanf_u64 s old = Some v"
proof -
  obtain c cs where s: "s = c # cs" using assms(1) by (cases s) auto
  have c: "is_digit c" using assms(2) s by simp
  have ds: "takeWhile is_digit s = s"
    using assms(2) by (simp add: list_all_iff)
  have "unat v < 2 ^ 64" using unsigned_less [of v] by simp
  then show ?thesis
    using is_digit_not [OF c] s ds assms(3) by (simp add: sscanf_u64_def chr_at_def Let_def)
qed

lemma u64_item_ok: "u64_is cj p name v \<Longrightarrow> u64_item cj stk p name var = Some v"
  by (auto simp: u64_is_def u64_item_def sscanf_u64_digits split: option.splits)

lemma hex_item_ok:
  assumes "hex_is cj p name n bs"
  shows "hex_item cj stk p name var n = Some bs"
proof -
  obtain s where s: "str_item cj p name = Some s" "length s = 2 * n + 2" "list_all is_hex (drop 2 s)"
    "unhex (drop 2 s) = bs"
    using assms by (auto simp: hex_is_def split: option.splits)
  have "\<forall>k < 2 * n. is_hex (chr_at (drop 2 s) k)"
    using s(2,3) by (simp add: chr_at_def list_all_length)
  then show ?thesis
    using s hex2bin_good [of n "stack_arr (arrs stk var) n" "2 * n" "drop 2 s"]
    by (simp add: hex_item_def hexbytes_def)
qed

text \<open>The same as rewrite rules for every local variable, for use as destruction rules.\<close>

lemma u64_isD: "u64_is cj p name v \<Longrightarrow> \<forall>stk var. u64_item cj stk p name var = Some v"
  by (simp add: u64_item_ok)

lemma hex_isD: "hex_is cj p name n bs \<Longrightarrow> \<forall>stk var. hex_item cj stk p name var n = Some bs"
  by (simp add: hex_item_ok)

lemma hex_is_length: "hex_is cj p name n bs \<Longrightarrow> length bs = n"
  using length_unhex [of "drop 2 (the (str_item cj p name))"] by (auto simp: hex_is_def split: option.splits)

lemma htr64_ok [simp]: "htr64 v = Some (chunk64 v)"
  by (simp add: htr64_def htru64_chunk)

lemma length_chunk64 [simp]: "length (chunk64 v) = 32"
  by (simp add: chunk64_def)

section \<open>Containers of fixed shape\<close>

record checkpoint =
  cp_epoch :: "64 word"
  cp_root :: bytes

record attestation_data =
  ad_slot :: "64 word"
  ad_index :: "64 word"
  ad_beacon_block_root :: bytes
  ad_source :: checkpoint
  ad_target :: checkpoint

definition checkpoint_is :: "'j cjson \<Rightarrow> 'j option \<Rightarrow> checkpoint \<Rightarrow> bool" where
  "checkpoint_is cj p c \<longleftrightarrow> u64_is cj p ''epoch'' (cp_epoch c) \<and> hex_is cj p ''root'' 32 (cp_root c)"

definition attdata_is :: "'j cjson \<Rightarrow> 'j option \<Rightarrow> attestation_data \<Rightarrow> bool" where
  "attdata_is cj p a \<longleftrightarrow> u64_is cj p ''slot'' (ad_slot a) \<and> u64_is cj p ''index'' (ad_index a) \<and>
     hex_is cj p ''beacon_block_root'' 32 (ad_beacon_block_root a) \<and>
     checkpoint_is cj (GetObjectItem cj p ''source'') (ad_source a) \<and>
     checkpoint_is cj (GetObjectItem cj p ''target'') (ad_target a)"

definition checkpoint_root :: "hashf \<Rightarrow> checkpoint \<Rightarrow> bytes" where
  "checkpoint_root H c = mtree H 1 [chunk64 (cp_epoch c), cp_root c]"

definition attdata_root :: "hashf \<Rightarrow> attestation_data \<Rightarrow> bytes" where
  "attdata_root H a = mtree H 3 [chunk64 (ad_slot a), chunk64 (ad_index a), ad_beacon_block_root a,
     checkpoint_root H (ad_source a), checkpoint_root H (ad_target a)]"

lemma zeros_01:
  assumes "zeros_ok H n zh" and "2 \<le> n"
  shows "at zh 0 = Some (replicate 32 0)" and "at zh (Suc 0) = Some (hashsum H (replicate 32 0) (replicate 32 0))"
proof -
  show "at zh 0 = Some (replicate 32 0)" using zeros_ok_row0 [OF assms(1)] assms(2) by simp
  have "Suc 0 < n" using assms(2) by simp
  then have "Suc 0 < length zh" "zh ! Suc 0 = mtree H (Suc 0) []"
    using assms(1) by (auto simp: zeros_ok_def simp del: mtree.simps)
  then show "at zh (Suc 0) = Some (hashsum H (replicate 32 0) (replicate 32 0))"
    by (simp add: c_simps)
qed

text \<open>Trees of height 1, 2 and 3, written out.\<close>

lemma mtree_numeral:
  "mtree H 2 xs = mtree H (Suc 1) xs" "mtree H 3 xs = mtree H (Suc (Suc 1)) xs" "mtree H 1 xs = mtree H (Suc 0) xs"
  by (simp_all add: numeral_eq_Suc del: mtree.simps)

lemma attdat_ok:
  assumes "attdata_is cj p a" and "zeros_ok H n zh" and "2 \<le> n"
  shows "htrAttDat H cj stk p zh = Some (attdata_root H a)"
  using assms(1) zeros_01 [OF assms(2,3)] unfolding attdata_is_def checkpoint_is_def
  by (auto dest!: u64_isD hex_isD simp: htrAttDat_def attdata_root_def checkpoint_root_def mtree_numeral)

lemma hashsum_take [simp]: "hashsum H (take 32 a) b = hashsum H a b" "hashsum H a (take 32 b) = hashsum H a b"
  by (simp_all add: hashsum_def)

text \<open>Signatures: three chunks.\<close>

definition signature_root :: "hashf \<Rightarrow> bytes \<Rightarrow> bytes" where
  "signature_root H s = mtree H 2 [take 32 s, take 32 (drop 32 s), drop 64 s]"

lemma signature_ok:
  assumes "length s = 96" and "zeros_ok H n zh" and "2 \<le> n"
  shows "htrBLSSignature H s zh = Some (signature_root H s)"
  using assms(1) zeros_01 [OF assms(2,3)] by (simp add: htrBLSSignature_def signature_root_def mtree_numeral)

record eth1_data =
  e1_deposit_root :: bytes
  e1_deposit_count :: "64 word"
  e1_block_hash :: bytes

definition eth1_is :: "'j cjson \<Rightarrow> 'j option \<Rightarrow> eth1_data \<Rightarrow> bool" where
  "eth1_is cj p e \<longleftrightarrow> hex_is cj p ''deposit_root'' 32 (e1_deposit_root e) \<and>
     u64_is cj p ''deposit_count'' (e1_deposit_count e) \<and> hex_is cj p ''block_hash'' 32 (e1_block_hash e)"

definition eth1_root :: "hashf \<Rightarrow> eth1_data \<Rightarrow> bytes" where
  "eth1_root H e = mtree H 2 [e1_deposit_root e, chunk64 (e1_deposit_count e), e1_block_hash e]"

lemma eth1_ok:
  assumes "eth1_is cj p e" and "zeros_ok H n zh" and "2 \<le> n"
  shows "htrEth1Data H cj stk p zh = Some (eth1_root H e)"
  using assms(1) zeros_01 [OF assms(2,3)] unfolding eth1_is_def
  by (auto dest!: u64_isD hex_isD simp: htrEth1Data_def eth1_root_def mtree_numeral)

record block_header =
  bh_slot :: "64 word"
  bh_proposer_index :: "64 word"
  bh_parent_root :: bytes
  bh_state_root :: bytes
  bh_body_root :: bytes

definition header_is :: "'j cjson \<Rightarrow> 'j option \<Rightarrow> block_header \<Rightarrow> bool" where
  "header_is cj p h \<longleftrightarrow> u64_is cj p ''slot'' (bh_slot h) \<and> u64_is cj p ''proposer_index'' (bh_proposer_index h) \<and>
     hex_is cj p ''parent_root'' 32 (bh_parent_root h) \<and> hex_is cj p ''state_root'' 32 (bh_state_root h) \<and>
     hex_is cj p ''body_root'' 32 (bh_body_root h)"

definition header_root :: "hashf \<Rightarrow> block_header \<Rightarrow> bytes" where
  "header_root H h = mtree H 3 [chunk64 (bh_slot h), chunk64 (bh_proposer_index h), bh_parent_root h, bh_state_root h,
     bh_body_root h]"

lemma header_ok:
  assumes "header_is cj p h" and "zeros_ok H n zh" and "2 \<le> n"
  shows "htrBeaconBlockHeader H cj stk p zh = Some (header_root H h)"
  using assms(1) zeros_01 [OF assms(2,3)] unfolding header_is_def
  by (auto dest!: u64_isD hex_isD simp: htrBeaconBlockHeader_def header_root_def mtree_numeral)

definition signed_header_is :: "'j cjson \<Rightarrow> 'j option \<Rightarrow> block_header \<times> bytes \<Rightarrow> bool" where
  "signed_header_is cj p sh \<longleftrightarrow> header_is cj (GetObjectItem cj p ''message'') (fst sh) \<and>
     hex_is cj p ''signature'' 96 (snd sh)"

definition signed_header_root :: "hashf \<Rightarrow> block_header \<times> bytes \<Rightarrow> bytes" where
  "signed_header_root H sh = mtree H 1 [header_root H (fst sh), signature_root H (snd sh)]"

lemma signed_header_ok:
  assumes "signed_header_is cj p sh" and "zeros_ok H n zh" and "2 \<le> n"
  shows "htrSignedBeaconBlockHeader H cj stk p zh = Some (signed_header_root H sh)"
proof -
  have sig: "hex_is cj p ''signature'' 96 (snd sh)" and "header_is cj (GetObjectItem cj p ''message'') (fst sh)"
    using assms(1) by (simp_all add: signed_header_is_def)
  from this(2) have "htrBeaconBlockHeader H cj stk (GetObjectItem cj p ''message'') zh = Some (header_root H (fst sh))"
    by (rule header_ok [OF _ assms(2,3)])
  then show ?thesis
    using hex_item_ok [OF sig] signature_ok [OF hex_is_length [OF sig] assms(2,3)]
    by (simp add: htrSignedBeaconBlockHeader_def signed_header_root_def mtree_numeral)
qed

definition slashing_is :: "'j cjson \<Rightarrow> 'j option \<Rightarrow> (block_header \<times> bytes) \<times> (block_header \<times> bytes) \<Rightarrow> bool" where
  "slashing_is cj p s \<longleftrightarrow> signed_header_is cj (GetObjectItem cj p ''signed_header_1'') (fst s) \<and>
     signed_header_is cj (GetObjectItem cj p ''signed_header_2'') (snd s)"

definition slashing_root :: "hashf \<Rightarrow> (block_header \<times> bytes) \<times> (block_header \<times> bytes) \<Rightarrow> bytes" where
  "slashing_root H s = mtree H 1 [signed_header_root H (fst s), signed_header_root H (snd s)]"

lemma slashing_ok:
  assumes "slashing_is cj p s" and "zeros_ok H n zh" and "2 \<le> n"
  shows "htrProposerSlashing H cj stk p zh = Some (slashing_root H s)"
  using assms(1) signed_header_ok [OF _ assms(2,3), of cj _ "fst s"] signed_header_ok [OF _ assms(2,3), of cj _ "snd s"]
  unfolding slashing_is_def
  by (simp add: htrProposerSlashing_def slashing_root_def mtree_numeral)

section \<open>Domains and signing roots\<close>

definition domain_of :: "hashf \<Rightarrow> bytes \<Rightarrow> bytes \<Rightarrow> bytes \<Rightarrow> bytes" where
  "domain_of H domtype version root = domtype @ take 28 (mtree H 1 [version @ replicate 28 0, root])"

lemma domain_ok:
  assumes "hex_is cj (GetObjectItem cj p ''fork'') ''current_version'' 4 v" and "hex_is cj p ''genesis_validators_root'' 32 g"
    and "length domtype = 4"
  shows "getDomain H cj stk p domtype = Some (domain_of H domtype v g)"
  using hex_item_ok [OF assms(1)] hex_item_ok [OF assms(2)] hex_is_length [OF assms(1)] assms(3)
  by (simp add: getDomain_def htrversion_def domain_of_def mtree_numeral)

lemma sr_ok:
  assumes "hex_is cj (GetObjectItem cj (GetObjectItem cj p ''fork_info'') ''fork'') ''current_version'' 4 v"
    and "hex_is cj (GetObjectItem cj p ''fork_info'') ''genesis_validators_root'' 32 g" and "length domtype = 4"
  shows "sr H cj stk p htr domtype = Some (mtree H 1 [htr, domain_of H domtype v g])"
  using domain_ok [OF assms] by (simp add: sr_def computeSigningRoot_def mtree_numeral)

text \<open>Signing roots. For a request with a well-formed \<open>fork_info\<close>, \<open>sr\<close> computes the root of the pair of the object's root
  and the domain, whose first four bytes are the domain type and whose other bytes are from the root of
  the fork version and the genesis validators root.\<close>

theorem sr_spec:
  assumes "hex_is cj (GetObjectItem cj (GetObjectItem cj p ''fork_info'') ''fork'') ''current_version'' 4 v"
    and "hex_is cj (GetObjectItem cj p ''fork_info'') ''genesis_validators_root'' 32 g" and "length domtype = 4"
  shows "sr H cj stk p htr domtype = Some (mtree H 1 [htr, domain_of H domtype v g])"
  by (rule sr_ok [OF assms])

section \<open>Lists\<close>

text \<open>The roots \<open>xs\<close> of the elements of an array, computed by \<open>f\<close> without a change of the table, and a number of
  elements with which a list keeps the table in order.\<close>

definition elems_are :: "'j cjson \<Rightarrow> ('j option \<Rightarrow> zeros \<Rightarrow> (bytes \<times> zeros) option) \<Rightarrow> 'j option \<Rightarrow> bytes list \<Rightarrow> zeros \<Rightarrow> bool" where
  "elems_are cj f p xs zh \<longleftrightarrow> GetArraySize cj p = int (length xs) \<and>
     list_all (\<lambda>k. f (GetArrayItem cj p (int k)) zh = Some (xs ! k, zh)) [0..<length xs]"

definition whole :: "nat \<Rightarrow> bool" where
  "whole n \<longleftrightarrow> n = 0 \<or> n = 2 ^ unat (CoverDepth (word_of_nat n))"

lemma zeros_after_whole:
  "zeros_ok H 9 zh \<Longrightarrow> whole (length xs) \<Longrightarrow> zeros_after H (unat (CoverDepth (word_of_nat (length xs)))) xs zh = zh"
  using zeros_after_Nil [of H zh] by (auto simp: whole_def zeros_after_def CoverDepth_def)

lemma htr_list_elems:
  assumes el: "elems_are cj f p xs zh" and len: "length xs \<le> 255" "length xs \<le> 2 ^ unat (CoverDepth limit)"
    and z: "zeros_ok H 9 zh"
  shows "htr_list H (word_of_int (GetArraySize cj p)) (\<lambda>i zh. f (GetArrayItem cj p (int i)) zh) limit mix zh =
    Some (list_root H (unat (CoverDepth limit)) (if xs = [] then 0 else mix) xs,
      zeros_after H (unat (CoverDepth (word_of_nat (length xs)))) xs zh)"
proof -
  let ?sz = "word_of_nat (length xs) :: 64 word"
  have sz: "word_of_int (GetArraySize cj p) = ?sz"
    using el by (simp add: elems_are_def)
  have u: "unat ?sz = length xs" using len(1) by (intro unat_word64) simp
  have f: "f (GetArrayItem cj p (int k)) zh = Some (xs ! k, zh)" if "k < length xs" for k
    using el that by (simp add: elems_are_def list_all_iff)
  show ?thesis
  proof (cases "xs = []")
    case True
    then show ?thesis
      using htr_list_empty [OF z] zeros_after_Nil [OF z] unfolding sz by (simp add: CoverDepth_def)
  next
    case False
    then show ?thesis
      using htr_list_ok [of xs "\<lambda>i zh. f (GetArrayItem cj p (int i)) zh" zh ?sz "unat (CoverDepth limit)" limit H mix]
        f u len z unfolding sz by simp
  qed
qed

text \<open>The code has one such list for each kind of operation.\<close>

definition ps_roots_are where
  "ps_roots_are H cj stk p xs zh \<longleftrightarrow> elems_are cj (\<lambda>q zh. with_zeros zh (htrProposerSlashing H cj stk q zh)) p xs zh"

definition as_roots_are where
  "as_roots_are H cj stk p xs zh \<longleftrightarrow> elems_are cj (htrAttesterSlashing H cj stk) p xs zh"

definition at_roots_are where
  "at_roots_are H cj stk p xs zh \<longleftrightarrow> elems_are cj (htrAtt H cj stk) p xs zh"

definition dp_roots_are where
  "dp_roots_are H cj stk p xs zh \<longleftrightarrow> elems_are cj (htrDeposit H cj stk) p xs zh"

definition ve_roots_are where
  "ve_roots_are H cj stk p xs zh \<longleftrightarrow> elems_are cj (\<lambda>q zh. with_zeros zh (htrVoluntaryExit H cj stk q)) p xs zh"

lemmas roots_are_defs = ps_roots_are_def as_roots_are_def at_roots_are_def dp_roots_are_def ve_roots_are_def

lemma CoverDepth_limits:
  "unat (CoverDepth 2) = 1" "unat (CoverDepth 16) = 4" "unat (CoverDepth 33) = 6" "unat (CoverDepth 128) = 7"
  "unat (CoverDepth 2048) = 8"
  by code_simp+

text \<open>For lists within their limits (and at most 255 elements) the five list functions compute the tree root of
  the limit's height over the elements' roots and mix in a constant: 16 for the proposer slashings, and
  2, the limit of the attester slashings, for the four other lists. Only for the empty list is the
  number mixed in the number of elements, as SSZ demands.\<close>

lemma operation_lists_ok:
  assumes "zeros_ok H 9 zh"
  shows "ps_roots_are H cj stk p xs zh \<Longrightarrow> length xs \<le> 16 \<Longrightarrow> htrProposerSlashings H cj stk p zh =
      Some (list_root H 4 (if xs = [] then 0 else 16) xs, zeros_after H (unat (CoverDepth (word_of_nat (length xs)))) xs zh)"
    and "as_roots_are H cj stk p xs zh \<Longrightarrow> length xs \<le> 2 \<Longrightarrow> htrAttesterSlashings H cj stk p zh =
      Some (list_root H 1 (if xs = [] then 0 else 2) xs, zeros_after H (unat (CoverDepth (word_of_nat (length xs)))) xs zh)"
    and "at_roots_are H cj stk p xs zh \<Longrightarrow> length xs \<le> 128 \<Longrightarrow> htrAttestations H cj stk p zh =
      Some (list_root H 7 (if xs = [] then 0 else 2) xs, zeros_after H (unat (CoverDepth (word_of_nat (length xs)))) xs zh)"
    and "dp_roots_are H cj stk p xs zh \<Longrightarrow> length xs \<le> 16 \<Longrightarrow> htrDeposits H cj stk p zh =
      Some (list_root H 4 (if xs = [] then 0 else 2) xs, zeros_after H (unat (CoverDepth (word_of_nat (length xs)))) xs zh)"
    and "ve_roots_are H cj stk p xs zh \<Longrightarrow> length xs \<le> 16 \<Longrightarrow> htrVoluntaryExits H cj stk p zh =
      Some (list_root H 4 (if xs = [] then 0 else 2) xs, zeros_after H (unat (CoverDepth (word_of_nat (length xs)))) xs zh)"
  using htr_list_elems [OF _ _ _ assms, of cj "\<lambda>q zh. with_zeros zh (htrProposerSlashing H cj stk q zh)" p xs 16 16]
    htr_list_elems [OF _ _ _ assms, of cj "htrAttesterSlashing H cj stk" p xs 2 2]
    htr_list_elems [OF _ _ _ assms, of cj "htrAtt H cj stk" p xs 128 2]
    htr_list_elems [OF _ _ _ assms, of cj "htrDeposit H cj stk" p xs 16 2]
    htr_list_elems [OF _ _ _ assms, of cj "\<lambda>q zh. with_zeros zh (htrVoluntaryExit H cj stk q)" p xs 16 2]
  by (simp_all add: roots_are_defs CoverDepth_limits htrProposerSlashings_def htrAttesterSlashings_def
      htrAttestations_def htrDeposits_def htrVoluntaryExits_def)

definition coded_mix :: "64 word \<Rightarrow> nat \<Rightarrow> 64 word" where
  "coded_mix c n = (if n = 0 then 0 else c)"

lemma operation_lists_whole:
  assumes "zeros_ok H 9 zh" and "whole (length xs)"
  shows "ps_roots_are H cj stk p xs zh \<Longrightarrow> length xs \<le> 16 \<Longrightarrow>
      htrProposerSlashings H cj stk p zh = Some (list_root H 4 (coded_mix 16 (length xs)) xs, zh)"
    and "as_roots_are H cj stk p xs zh \<Longrightarrow> length xs \<le> 2 \<Longrightarrow>
      htrAttesterSlashings H cj stk p zh = Some (list_root H 1 (coded_mix 2 (length xs)) xs, zh)"
    and "at_roots_are H cj stk p xs zh \<Longrightarrow> length xs \<le> 128 \<Longrightarrow>
      htrAttestations H cj stk p zh = Some (list_root H 7 (coded_mix 2 (length xs)) xs, zh)"
    and "dp_roots_are H cj stk p xs zh \<Longrightarrow> length xs \<le> 16 \<Longrightarrow>
      htrDeposits H cj stk p zh = Some (list_root H 4 (coded_mix 2 (length xs)) xs, zh)"
    and "ve_roots_are H cj stk p xs zh \<Longrightarrow> length xs \<le> 16 \<Longrightarrow>
      htrVoluntaryExits H cj stk p zh = Some (list_root H 4 (coded_mix 2 (length xs)) xs, zh)"
  using operation_lists_ok [OF assms(1), of cj stk p xs] zeros_after_whole [OF assms] by (simp_all add: coded_mix_def)

section \<open>Blocks\<close>

record block_body =
  bb_randao_reveal :: bytes
  bb_eth1_data :: eth1_data
  bb_graffiti :: bytes
  bb_proposer_slashings :: "bytes list"
  bb_attester_slashings :: "bytes list"
  bb_attestations :: "bytes list"
  bb_deposits :: "bytes list"
  bb_voluntary_exits :: "bytes list"

text \<open>A document of a body whose lists stay within their limits and keep the table in order; the lists are given by the
  roots of their elements.\<close>

definition body_is :: "hashf \<Rightarrow> 'j cjson \<Rightarrow> locals \<Rightarrow> 'j option \<Rightarrow> block_body \<Rightarrow> zeros \<Rightarrow> bool" where
  "body_is H cj stk p b zh \<longleftrightarrow> hex_is cj p ''randao_reveal'' 96 (bb_randao_reveal b) \<and>
     eth1_is cj (GetObjectItem cj p ''eth1_data'') (bb_eth1_data b) \<and> hex_is cj p ''graffiti'' 32 (bb_graffiti b) \<and>
     ps_roots_are H cj stk (GetObjectItem cj p ''proposer_slashings'') (bb_proposer_slashings b) zh \<and>
     as_roots_are H cj stk (GetObjectItem cj p ''attester_slashings'') (bb_attester_slashings b) zh \<and>
     at_roots_are H cj stk (GetObjectItem cj p ''attestations'') (bb_attestations b) zh \<and>
     dp_roots_are H cj stk (GetObjectItem cj p ''deposits'') (bb_deposits b) zh \<and>
     ve_roots_are H cj stk (GetObjectItem cj p ''voluntary_exits'') (bb_voluntary_exits b) zh \<and>
     length (bb_proposer_slashings b) \<le> 16 \<and> length (bb_attester_slashings b) \<le> 2 \<and>
     length (bb_attestations b) \<le> 128 \<and> length (bb_deposits b) \<le> 16 \<and> length (bb_voluntary_exits b) \<le> 16 \<and>
     whole (length (bb_proposer_slashings b)) \<and> whole (length (bb_attester_slashings b)) \<and>
     whole (length (bb_attestations b)) \<and> whole (length (bb_deposits b)) \<and> whole (length (bb_voluntary_exits b))"

text \<open>The root of a body, for the numbers that the lists mix in.\<close>

definition body_root :: "hashf \<Rightarrow> (nat \<Rightarrow> 64 word) \<Rightarrow> (nat \<Rightarrow> 64 word) \<Rightarrow> block_body \<Rightarrow> bytes" where
  "body_root H mix mix2 b = mtree H 3
     [signature_root H (bb_randao_reveal b), eth1_root H (bb_eth1_data b), bb_graffiti b,
      list_root H 4 (mix (length (bb_proposer_slashings b))) (bb_proposer_slashings b),
      list_root H 1 (mix2 (length (bb_attester_slashings b))) (bb_attester_slashings b),
      list_root H 7 (mix2 (length (bb_attestations b))) (bb_attestations b),
      list_root H 4 (mix2 (length (bb_deposits b))) (bb_deposits b),
      list_root H 4 (mix2 (length (bb_voluntary_exits b))) (bb_voluntary_exits b)]"

lemma body_ok:
  assumes b: "body_is H cj stk p b zh" and z: "zeros_ok H 9 zh"
  shows "htrBeaconBlockBody H cj stk p zh = Some (body_root H (coded_mix 16) (coded_mix 2) b, zh)"
proof -
  note b' = b [unfolded body_is_def]
  have sig: "hex_is cj p ''randao_reveal'' 96 (bb_randao_reveal b)" and gr: "hex_is cj p ''graffiti'' 32 (bb_graffiti b)"
    and e1: "eth1_is cj (GetObjectItem cj p ''eth1_data'') (bb_eth1_data b)"
    using b' by blast+
  have lists:
    "htrProposerSlashings H cj stk (GetObjectItem cj p ''proposer_slashings'') zh =
       Some (list_root H 4 (coded_mix 16 (length (bb_proposer_slashings b))) (bb_proposer_slashings b), zh)"
    "htrAttesterSlashings H cj stk (GetObjectItem cj p ''attester_slashings'') zh =
       Some (list_root H 1 (coded_mix 2 (length (bb_attester_slashings b))) (bb_attester_slashings b), zh)"
    "htrAttestations H cj stk (GetObjectItem cj p ''attestations'') zh =
       Some (list_root H 7 (coded_mix 2 (length (bb_attestations b))) (bb_attestations b), zh)"
    "htrDeposits H cj stk (GetObjectItem cj p ''deposits'') zh =
       Some (list_root H 4 (coded_mix 2 (length (bb_deposits b))) (bb_deposits b), zh)"
    "htrVoluntaryExits H cj stk (GetObjectItem cj p ''voluntary_exits'') zh =
       Some (list_root H 4 (coded_mix 2 (length (bb_voluntary_exits b))) (bb_voluntary_exits b), zh)"
    by (rule operation_lists_whole [OF z]; use b' in simp)+
  show ?thesis
    using lists hex_item_ok [OF sig] hex_item_ok [OF gr] signature_ok [OF hex_is_length [OF sig] z]
      eth1_ok [OF e1 z] by (simp add: htrBeaconBlockBody_def body_root_def mtree_numeral)
qed

record block =
  bl_slot :: "64 word"
  bl_proposer_index :: "64 word"
  bl_parent_root :: bytes
  bl_state_root :: bytes
  bl_body :: block_body

definition block_is :: "hashf \<Rightarrow> 'j cjson \<Rightarrow> locals \<Rightarrow> 'j option \<Rightarrow> block \<Rightarrow> zeros \<Rightarrow> bool" where
  "block_is H cj stk p b zh \<longleftrightarrow> u64_is cj p ''slot'' (bl_slot b) \<and> u64_is cj p ''proposer_index'' (bl_proposer_index b) \<and>
     hex_is cj p ''parent_root'' 32 (bl_parent_root b) \<and> hex_is cj p ''state_root'' 32 (bl_state_root b) \<and>
     body_is H cj stk (GetObjectItem cj p ''body'') (bl_body b) zh"

definition block_root :: "hashf \<Rightarrow> (nat \<Rightarrow> 64 word) \<Rightarrow> (nat \<Rightarrow> 64 word) \<Rightarrow> block \<Rightarrow> bytes" where
  "block_root H mix mix2 b = mtree H 3 [chunk64 (bl_slot b), chunk64 (bl_proposer_index b), bl_parent_root b, bl_state_root b,
     body_root H mix mix2 (bl_body b)]"

lemma block_ok:
  assumes b: "block_is H cj stk p b zh" and z: "zeros_ok H 9 zh"
  shows "htrBeaconBlock H cj stk p zh = Some (block_root H (coded_mix 16) (coded_mix 2) b, zh)"
proof -
  have "htrBeaconBlockBody H cj stk (GetObjectItem cj p ''body'') zh =
      Some (body_root H (coded_mix 16) (coded_mix 2) (bl_body b), zh)"
    using b by (intro body_ok [OF _ z]) (simp add: block_is_def)
  then show ?thesis
    using b zeros_01 [OF z] unfolding block_is_def
    by (auto dest!: u64_isD hex_isD simp: htrBeaconBlock_def block_root_def mtree_numeral)
qed

text \<open>SSZ mixes in the number of elements.\<close>

definition ssz_block_root :: "hashf \<Rightarrow> block \<Rightarrow> bytes" where
  "ssz_block_root H b = block_root H word_of_nat word_of_nat b"

definition no_operations :: "block_body \<Rightarrow> bool" where
  "no_operations b \<longleftrightarrow> bb_proposer_slashings b = [] \<and> bb_attester_slashings b = [] \<and> bb_attestations b = [] \<and>
     bb_deposits b = [] \<and> bb_voluntary_exits b = []"

text \<open>C12: Blocks. The root of a well-formed block whose lists keep the table in order is the Merkle root of its fields, with the roots of the lists
  as coded; for a block without operations it is the SSZ root. No access leaves an array and the table is unchanged.\<close>

theorem htrBeaconBlock_spec:
  assumes "block_is H cj stk p b zh" and "zeros_ok H 9 zh"
  shows "htrBeaconBlock H cj stk p zh = Some (block_root H (coded_mix 16) (coded_mix 2) b, zh) \<and>
    (no_operations (bl_body b) \<longrightarrow> htrBeaconBlock H cj stk p zh = Some (ssz_block_root H b, zh))"
proof -
  have "no_operations (bl_body b) \<Longrightarrow> block_root H (coded_mix 16) (coded_mix 2) b = ssz_block_root H b"
    by (simp add: no_operations_def ssz_block_root_def block_root_def body_root_def coded_mix_def)
  then show ?thesis using block_ok [OF assms] by simp
qed

text \<open>Version 2 of the body has the root of version 1 whatever the sync aggregate is.\<close>

lemma bodyV2_same: "htrBeaconBlockBodyV2 H cj stk p zh = htrBeaconBlockBody H cj stk p zh"
  by (simp add: htrBeaconBlockBodyV2_def htrBeaconBlockBody_def)

section \<open>Attestations\<close>

record attestation =
  at_bits :: bytes
  at_data :: attestation_data
  at_signature :: bytes

text \<open>The text of the aggregation bits has at most 254 digits, because the code keeps its length in 8 bits; up to 512 bits the
  bit list has at most two chunks.\<close>

definition att_is :: "'j cjson \<Rightarrow> 'j option \<Rightarrow> attestation \<Rightarrow> bool" where
  "att_is cj p a \<longleftrightarrow> hex_is cj p ''aggregation_bits'' (length (at_bits a)) (at_bits a) \<and>
     at_bits a \<noteq> [] \<and> bits_len (at_bits a) \<le> 512 \<and>
     attdata_is cj (GetObjectItem cj p ''data'') (at_data a) \<and> hex_is cj p ''signature'' 96 (at_signature a)"

definition att_root :: "hashf \<Rightarrow> attestation \<Rightarrow> bytes" where
  "att_root H a = mtree H 2 [list_root H 3 (word_of_nat (bits_len (at_bits a))) (bits_chunks (at_bits a)),
     attdata_root H (at_data a), signature_root H (at_signature a)]"

lemma whole_le_2: "n \<le> 2 \<Longrightarrow> whole n"
proof -
  assume "n \<le> 2"
  then have "n \<in> {0, 1, 2}" by auto
  moreover have "whole 0" "whole 1" "whole 2" by code_simp+
  ultimately show ?thesis by blast
qed

lemma aggregation_bits_ok:
  assumes "hex_is cj p ''aggregation_bits'' m bs" and "m \<le> 127" and that: "m \<le> length buf"
  shows "\<exists>s. str_item cj p ''aggregation_bits'' = Some s \<and> \<not> length s < 2 \<and>
    unat (word_of_nat (length (drop 2 s)) :: 8 word) = 2 * m \<and>
    hex2bin (drop 2 s) (2 * m) buf m = Some (m, bs @ drop m buf)"
proof -
  obtain s where s: "str_item cj p ''aggregation_bits'' = Some s" "length s = 2 * m + 2" "list_all is_hex (drop 2 s)"
    "unhex (drop 2 s) = bs"
    using assms by (auto simp: hex_is_def split: option.splits)
  have "\<forall>k < 2 * m. is_hex (chr_at (drop 2 s) k)"
    using s(2,3) by (simp add: chr_at_def list_all_length)
  then have "hex2bin (drop 2 s) (2 * m) buf m = Some (m, bs @ drop m buf)"
    using s hex2bin_good [of m buf "2 * m" "drop 2 s"] that by (simp add: hexbytes_def)
  moreover have "unat (word_of_nat (length (drop 2 s)) :: 8 word) = 2 * m"
    using s(2) assms(2) unfolding unat_of_nat_byte by simp
  ultimately show ?thesis using s by auto
qed

lemma att_ok:
  assumes a: "att_is cj p a" and z: "zeros_ok H 9 zh"
  shows "htrAtt H cj stk p zh = Some (att_root H a, zh)"
proof -
  let ?bs = "at_bits a"
  let ?m = "length ?bs" and ?buf = "stack_arr (arrs stk ''aggbitsbin'') 257"
  have bits: "hex_is cj p ''aggregation_bits'' ?m ?bs" "?bs \<noteq> []" "bits_len ?bs \<le> 512"
    and data: "attdata_is cj (GetObjectItem cj p ''data'') (at_data a)" and sig: "hex_is cj p ''signature'' 96 (at_signature a)"
    using a by (simp_all add: att_is_def)
  have m: "?m \<le> 127"
    using bits(3) bits_len_div [OF bits(2)] by linarith
  obtain s where s: "str_item cj p ''aggregation_bits'' = Some s" "\<not> length s < 2"
    "unat (word_of_nat (length (drop 2 s)) :: 8 word) = 2 * ?m"
    "hex2bin (drop 2 s) (2 * ?m) ?buf ?m = Some (?m, ?bs @ drop ?m ?buf)"
    using aggregation_bits_ok [OF bits(1) m, of ?buf] m by auto
  have n: "length (bits_chunks ?bs) \<le> 2"
    using bits(3) by simp
  have l: "unat (CoverDepth (drop_bit 8 (2048 + 0xff))) = 3" by code_simp
  have "htrBitlist H (?bs @ drop ?m ?buf) (word_of_nat ?m) 2048 zh =
      Some (list_root H 3 (word_of_nat (bits_len ?bs)) (bits_chunks ?bs), zh)"
    using htrBitlist_ok [of ?bs "?bs @ drop ?m ?buf" 3 2048 H zh] bits(2) m n l z zeros_after_whole [OF z whole_le_2 [OF n]]
    by simp
  then show ?thesis
    using s hex_item_ok [OF sig] signature_ok [OF hex_is_length [OF sig] z] attdat_ok [OF data z] zeros_01 [OF z]
    by (simp add: htrAtt_def att_root_def mtree_numeral Let_def)
qed

text \<open>C22: Attestations. For a well-formed attestation of a committee of at most 512 members \<open>htrAtt\<close> computes the SSZ root, whatever
  the uninitialised locals contain, and leaves the table of zero hashes as it was.\<close>

theorem htrAtt_spec:
  assumes "att_is cj p a" and "zeros_ok H 9 zh"
  shows "htrAtt H cj stk p zh = Some (att_root H a, zh)"
  by (rule att_ok [OF assms])

section \<open>Aggregates\<close>

record aggregate_and_proof =
  ap_aggregator_index :: "64 word"
  ap_aggregate :: attestation
  ap_selection_proof :: bytes

definition agg_is :: "'j cjson \<Rightarrow> 'j option \<Rightarrow> aggregate_and_proof \<Rightarrow> bool" where
  "agg_is cj p a \<longleftrightarrow> u64_is cj p ''aggregator_index'' (ap_aggregator_index a) \<and>
     att_is cj (GetObjectItem cj p ''aggregate'') (ap_aggregate a) \<and> hex_is cj p ''selection_proof'' 96 (ap_selection_proof a)"

definition agg_root :: "hashf \<Rightarrow> aggregate_and_proof \<Rightarrow> bytes" where
  "agg_root H a = mtree H 2 [chunk64 (ap_aggregator_index a), att_root H (ap_aggregate a), signature_root H (ap_selection_proof a)]"

lemma agg_ok:
  assumes a: "agg_is cj p a" and z: "zeros_ok H 9 zh"
  shows "htrAggAndProof H cj stk p zh = Some (agg_root H a, zh)"
proof -
  have i: "u64_is cj p ''aggregator_index'' (ap_aggregator_index a)" and sig: "hex_is cj p ''selection_proof'' 96 (ap_selection_proof a)"
    and t: "att_is cj (GetObjectItem cj p ''aggregate'') (ap_aggregate a)"
    using a by (simp_all add: agg_is_def)
  show ?thesis
    using u64_item_ok [OF i] hex_item_ok [OF sig] signature_ok [OF hex_is_length [OF sig] z] att_ok [OF t z] zeros_01 [OF z]
    by (simp add: htrAggAndProof_def agg_root_def mtree_numeral)
qed

section \<open>Public keys in deposits\<close>

text \<open>The SSZ root of a public key of 48 bytes, and the root as coded: 15 of its 16 padding bytes are what the
  stack holds.\<close>

definition pubkey_root :: "hashf \<Rightarrow> bytes \<Rightarrow> bytes" where
  "pubkey_root H pk = mtree H 1 [take 32 pk, drop 32 pk @ replicate 16 0]"

lemma take_drop_append: "take n xs @ drop n xs @ ys = xs @ ys"
  by (simp flip: append_assoc)

lemma pubkey_coded:
  assumes "length pk = 48"
  shows "htrBLSPubkey H stk pk = Some (H (pk @ 0 # map (arrs stk ''tmp'') [17..<32]))"
proof -
  have "[0 + 16..<32] = 16 # [17..<32::nat]"
    by simp
  then have "drop 16 (stack_arr f 32) = f 16 # map f [17..<32]" for f :: "nat \<Rightarrow> byte"
    by (simp only: stack_arr_def drop_map drop_upt list.map)
  then show ?thesis
    using assms by (simp add: take_drop_append htrBLSPubkey_def c_simps hashsum_def list_update_append del: upt_rec_numeral)
qed

text \<open>Public keys. What \<open>htrBLSPubkey\<close> hashes is the key, one zero byte and 15 bytes of uninitialised stack: the
  \<open>memset\<close> clears one byte. The result is the SSZ root if those bytes happen to be zero.\<close>

theorem htrBLSPubkey_stack:
  assumes "length pk = 48"
  shows "htrBLSPubkey H stk pk = Some (H (pk @ 0 # map (arrs stk ''tmp'') [17..<32])) \<and>
    (map (arrs stk ''tmp'') [17..<32] = replicate 15 0 \<longrightarrow> htrBLSPubkey H stk pk = Some (pubkey_root H pk))"
proof -
  have "pk @ 0 # replicate 15 0 = take 32 pk @ drop 32 pk @ replicate 16 0"
    by (simp flip: append_assoc) (simp add: numeral_eq_Suc)
  then have "pubkey_root H pk = H (pk @ 0 # replicate 15 0)"
    using assms by (simp add: pubkey_root_def mtree_numeral hashsum_def)
  then show ?thesis
    using pubkey_coded [OF assms, of H stk] by (metis (no_types))
qed

section \<open>Lists of integers\<close>

definition u64_node :: "'j cjson \<Rightarrow> 'j option \<Rightarrow> 64 word \<Rightarrow> bool" where
  "u64_node cj q v \<longleftrightarrow> (case q of None \<Rightarrow> False | Some j \<Rightarrow>
     (case valuestring cj j of None \<Rightarrow> False
      | Some s \<Rightarrow> s \<noteq> [] \<and> list_all is_digit s \<and> of_dec s = unat v))"

definition u64s_are :: "'j cjson \<Rightarrow> 'j option \<Rightarrow> 64 word list \<Rightarrow> bool" where
  "u64s_are cj p vs \<longleftrightarrow> GetArraySize cj p = int (length vs) \<and>
     list_all (\<lambda>k. u64_node cj (GetArrayItem cj p (int k)) (vs ! k)) [0..<length vs]"

lemma u64list_ok:
  assumes p: "u64s_are cj p vs" and len: "length vs \<le> 255" "length vs \<le> 2 ^ unat (CoverDepth mx)" and z: "zeros_ok H 9 zh"
  shows "htru64list H cj stk p mx zh =
    Some (list_root H (unat (CoverDepth mx)) (coded_mix mx (length vs)) (map chunk64 vs),
      zeros_after H (unat (CoverDepth (word_of_nat (length vs)))) (map chunk64 vs) zh)"
proof -
  let ?f = "\<lambda>q zh. do { j \<leftarrow> q; s \<leftarrow> valuestring cj j; num \<leftarrow> sscanf_u64 s (nums stk ''num''); hArr \<leftarrow> htr64 num; Some (hArr, zh) }"
  have "?f (GetArrayItem cj p (int k)) zh = Some (map chunk64 vs ! k, zh)" if "k < length vs" for k
  proof -
    have "u64_node cj (GetArrayItem cj p (int k)) (vs ! k)"
      using p that by (simp add: u64s_are_def list_all_iff)
    then obtain j s where "GetArrayItem cj p (int k) = Some j" "valuestring cj j = Some s"
      and s: "s \<noteq> []" "list_all is_digit s" "of_dec s = unat (vs ! k)"
      by (auto simp: u64_node_def split: option.splits)
    then show ?thesis
      using sscanf_u64_digits [OF s] that by simp
  qed
  then have "elems_are cj ?f p (map chunk64 vs) zh"
    using p by (simp add: elems_are_def u64s_are_def list_all_iff)
  from htr_list_elems [OF this _ _ z, of mx mx] show ?thesis
    using len by (simp add: htru64list_def coded_mix_def)
qed

text \<open>Lists of integers. \<open>htru64list\<close> makes one leaf of each number and mixes in the limit. (SSZ packs four numbers into a chunk
  and mixes in their count, so its root is a different one for every list but the empty one.) For the limit 2048 the tree has
  height 8, because the depth is computed from 8 bits.\<close>

theorem htru64list_spec:
  assumes "u64s_are cj p vs" and "length vs \<le> 255" and "zeros_ok H 9 zh"
  shows "map_option fst (htru64list H cj stk p 2048 zh) =
    Some (hashsum H (mtree H 8 (map chunk64 vs)) (chunk64 (if vs = [] then 0 else 2048)))"
  using u64list_ok [OF assms(1,2) _ assms(3), of 2048] assms(2)
  by (simp add: CoverDepth_limits list_root_def coded_mix_def)

lemma indexed_attestation_ok:
  assumes idx: "u64s_are cj (GetObjectItem cj p ''attesting_indices'') vs" "length vs \<le> 255" "whole (length vs)"
    and d: "attdata_is cj (GetObjectItem cj p ''data'') a" and sig: "hex_is cj p ''signature'' 96 s"
    and z: "zeros_ok H 9 zh"
  shows "htrIndexedAttestation H cj stk p zh =
    Some (mtree H 2 [list_root H 8 (coded_mix 2048 (length vs)) (map chunk64 vs), attdata_root H a, signature_root H s], zh)"
  using u64list_ok [OF idx(1,2) _ z, of 2048 stk] idx(2,3) zeros_after_whole [OF z, of "map chunk64 vs"]
    hex_item_ok [OF sig, of stk] signature_ok [OF hex_is_length [OF sig] z] attdat_ok [OF d z, of stk] zeros_01 [OF z]
  by (simp add: htrIndexedAttestation_def mtree_numeral CoverDepth_limits)

text \<open>Attestation data. For well-formed attestation data \<open>htrAttDat\<close>, which unrolls the tree of five
  fields by hand, computes the SSZ root: the Merkle root of slot, index, block root, source and target.\<close>

theorem htrAttDat_spec:
  assumes "attdata_is cj p a" and "zeros_ok H 9 zh"
  shows "htrAttDat H cj stk p zh = Some (attdata_root H a)"
  by (rule attdat_ok [OF assms]) simp

section \<open>A document\<close>

text \<open>A concrete reader of documents, for the witnesses.\<close>

datatype json = JStr string | JArr "json list" | JObj "(string \<times> json) list"

definition json_reader :: "json cjson" where
  "json_reader = \<lparr>
     GetObjectItem = (\<lambda>p name. case p of Some (JObj kvs) \<Rightarrow> map_of kvs name | _ \<Rightarrow> None),
     GetArraySize = (\<lambda>p. case p of Some (JArr xs) \<Rightarrow> int (length xs) | _ \<Rightarrow> 0),
     GetArrayItem = (\<lambda>p i. case p of Some (JArr xs) \<Rightarrow> (if 0 \<le> i \<and> nat i < length xs then Some (xs ! nat i) else None) | _ \<Rightarrow> None),
     valuestring = (\<lambda>j. case j of JStr s \<Rightarrow> Some s | _ \<Rightarrow> None)\<rparr>"

definition demo_hex :: "nat \<Rightarrow> json" where
  "demo_hex n = JStr (''0x'' @ replicate (2 * n) (CHR ''1''))"

definition demo_root :: bytes where
  "demo_root = replicate 32 0x11"

definition demo_attdata :: json where
  "demo_attdata = JObj [(''slot'', JStr ''32''), (''index'', JStr ''1''), (''beacon_block_root'', demo_hex 32),
     (''source'', JObj [(''epoch'', JStr ''0''), (''root'', demo_hex 32)]),
     (''target'', JObj [(''epoch'', JStr ''1''), (''root'', demo_hex 32)])]"

definition demo_ad :: attestation_data where
  "demo_ad = \<lparr>ad_slot = 32, ad_index = 1, ad_beacon_block_root = demo_root,
     ad_source = \<lparr>cp_epoch = 0, cp_root = demo_root\<rparr>, ad_target = \<lparr>cp_epoch = 1, cp_root = demo_root\<rparr>\<rparr>"

definition demo_att :: json where
  "demo_att = JObj [(''aggregation_bits'', JStr ''0xff03''), (''data'', demo_attdata), (''signature'', demo_hex 96)]"

definition demo_attestation :: attestation where
  "demo_attestation = \<lparr>at_bits = [0xff, 0x03], at_data = demo_ad, at_signature = replicate 96 0x11\<rparr>"

definition demo_request :: json where
  "demo_request = JObj [(''fork_info'', JObj [(''fork'', JObj [(''current_version'', demo_hex 4)]),
     (''genesis_validators_root'', demo_hex 32)])]"

definition demo_locals :: locals where
  "demo_locals = \<lparr>nums = (\<lambda>_. 0), arrs = (\<lambda>_ _. 0xAA)\<rparr>"

definition demo_block :: json where
  "demo_block = JObj [(''slot'', JStr ''7''), (''proposer_index'', JStr ''3''), (''parent_root'', demo_hex 32), (''state_root'', demo_hex 32),
     (''body'', JObj [(''randao_reveal'', demo_hex 96), (''graffiti'', demo_hex 32),
        (''eth1_data'', JObj [(''deposit_root'', demo_hex 32), (''deposit_count'', JStr ''5''), (''block_hash'', demo_hex 32)]),
        (''proposer_slashings'', JArr []), (''attester_slashings'', JArr []), (''attestations'', JArr []),
        (''deposits'', JArr []), (''voluntary_exits'', JArr [])])]"

definition demo_blk :: block where
  "demo_blk = \<lparr>bl_slot = 7, bl_proposer_index = 3, bl_parent_root = demo_root, bl_state_root = demo_root,
     bl_body = \<lparr>bb_randao_reveal = replicate 96 0x11,
       bb_eth1_data = \<lparr>e1_deposit_root = demo_root, e1_deposit_count = 5, e1_block_hash = demo_root\<rparr>,
       bb_graffiti = demo_root, bb_proposer_slashings = [], bb_attester_slashings = [], bb_attestations = [],
       bb_deposits = [], bb_voluntary_exits = []\<rparr>\<rparr>"

lemma unhex_ones: "unhex (replicate (2 * n) (CHR ''1'')) = replicate n 0x11"
proof (induction n)
  case (Suc n)
  moreover have "push_bit 4 (nibble (CHR ''1'')) + nibble (CHR ''1'') = (0x11 :: byte)" by code_simp
  ultimately show ?case by simp
qed simp

lemma hex_is_demo:
  assumes "GetObjectItem json_reader p name = Some (demo_hex n)"
  shows "hex_is json_reader p name n (replicate n 0x11)"
proof -
  have "is_hex (CHR ''1'')" by code_simp
  then show ?thesis
    using assms by (simp add: hex_is_def str_item_def demo_hex_def json_reader_def unhex_ones list_all_iff)
qed

lemma u64_is_demo:
  "u64_is json_reader p name v = (case GetObjectItem json_reader p name of
     Some (JStr s) \<Rightarrow> s \<noteq> [] \<and> list_all is_digit s \<and> of_dec s = unat v | _ \<Rightarrow> False)"
  by (simp add: u64_is_def str_item_def json_reader_def split: option.split json.split)

lemma elems_are_empty: "xs = [] \<Longrightarrow> GetArraySize cj p = 0 \<Longrightarrow> elems_are cj f p xs zh"
  by (simp add: elems_are_def)

lemmas demo_defs = demo_attdata_def demo_ad_def demo_att_def demo_attestation_def demo_request_def demo_block_def
  demo_blk_def demo_root_def

lemma json_reader_simps:
  "GetObjectItem json_reader (Some (JObj kvs)) name = map_of kvs name"
  "GetArraySize json_reader (Some (JArr xs)) = int (length xs)"
  by (simp_all add: json_reader_def)

lemma demo_digits:
  "is_digit (CHR ''0'')" "is_digit (CHR ''1'')" "is_digit (CHR ''2'')" "is_digit (CHR ''3'')" "is_digit (CHR ''5'')" "is_digit (CHR ''7'')"
  "of_dec ''0'' = 0" "of_dec ''1'' = 1" "of_dec ''3'' = 3" "of_dec ''5'' = 5" "of_dec ''7'' = 7" "of_dec ''32'' = 32"
  by code_simp+

lemmas demo_eval = hex_is_demo u64_is_demo elems_are_empty json_reader_simps demo_digits

lemma demo_attdata_is: "attdata_is json_reader (Some demo_attdata) demo_ad"
  unfolding attdata_is_def checkpoint_is_def demo_defs by (intro conjI) (simp_all add: demo_eval)

lemma demo_att_is: "att_is json_reader (Some demo_att) demo_attestation"
proof -
  have "hex_is json_reader (Some demo_att) ''aggregation_bits'' 2 [0xff, 0x03]" "bits_len [0xff, 0x03] \<le> 512"
    by code_simp+
  moreover have "GetObjectItem json_reader (Some demo_att) ''data'' = Some demo_attdata"
    "GetObjectItem json_reader (Some demo_att) ''signature'' = Some (demo_hex 96)"
    by (simp_all add: demo_att_def json_reader_simps)
  ultimately show ?thesis
    using demo_attdata_is by (simp add: att_is_def demo_attestation_def hex_is_demo flip: numeral_2_eq_2)
qed

lemma demo_block_is: "block_is demo_H json_reader demo_locals (Some demo_block) demo_blk demo_zeros"
  unfolding block_is_def body_is_def roots_are_defs eth1_is_def demo_defs
  by (intro conjI) (simp_all add: demo_eval whole_def)

theorem htrAttDat_spec_witness:
  "htrAttDat demo_H json_reader demo_locals (Some demo_attdata) demo_zeros = Some (attdata_root demo_H demo_ad)"
  by (rule htrAttDat_spec [OF demo_attdata_is demo_zeros_ok])

theorem htrAtt_spec_witness:
  "htrAtt demo_H json_reader demo_locals (Some demo_att) demo_zeros = Some (att_root demo_H demo_attestation, demo_zeros)"
  by (rule htrAtt_spec [OF demo_att_is demo_zeros_ok])

theorem sr_spec_witness:
  "sr demo_H json_reader demo_locals (Some demo_request) demo_root domain_randao =
     Some (mtree demo_H 1 [demo_root, domain_of demo_H domain_randao [0x11, 0x11, 0x11, 0x11] demo_root])"
proof -
  let ?f = "GetObjectItem json_reader (Some demo_request) ''fork_info''"
  have "hex_is json_reader (GetObjectItem json_reader ?f ''fork'') ''current_version'' 4 [0x11, 0x11, 0x11, 0x11]"
    and "hex_is json_reader ?f ''genesis_validators_root'' 32 demo_root" and "length domain_randao = 4"
    by code_simp+
  from sr_spec [OF this] show ?thesis .
qed

theorem htrBeaconBlock_spec_witness:
  "htrBeaconBlock demo_H json_reader demo_locals (Some demo_block) demo_zeros = Some (ssz_block_root demo_H demo_blk, demo_zeros)"
proof -
  have "no_operations (bl_body demo_blk)" by (simp add: no_operations_def demo_blk_def)
  then show ?thesis using htrBeaconBlock_spec [OF demo_block_is demo_zeros_ok] by blast
qed

theorem htrBLSPubkey_stack_witness:
  "htrBLSPubkey demo_H demo_locals (replicate 48 1) = Some (demo_H (replicate 48 1 @ 0 # replicate 15 0xAA))"
proof -
  have "map (arrs demo_locals ''tmp'') [17..<32] = replicate 15 0xAA" by code_simp
  then show ?thesis using htrBLSPubkey_stack [of "replicate 48 1" demo_H demo_locals] by simp
qed

theorem htru64list_spec_witness:
  "map_option fst (htru64list demo_H json_reader demo_locals (Some (JArr [JStr ''5'', JStr ''9''])) 2048 demo_zeros) =
    Some (hashsum demo_H (mtree demo_H 8 [chunk64 5, chunk64 9]) (chunk64 2048))"
proof -
  have "u64s_are json_reader (Some (JArr [JStr ''5'', JStr ''9''])) [5, 9]" by code_simp
  from htru64list_spec [OF this _ demo_zeros_ok, of demo_locals] show ?thesis by simp
qed

end
