(* ===== verification/Http_Remote.thy ===== *)
theory Http_Remote
  imports Key_Import Ssz_Containers
begin

text \<open>
  The first half of \<^verbatim>\<open>src/lib/httpRemote.h\<close> and its dispatcher: reading a request of the Ethereum remote signing interface from the
  buffer of the connection, and writing the response into the same buffer.

  The buffer is an array of characters with the number of those received. A request keeps pointers into it, which are offsets here;
  a null pointer is \<open>None\<close>. The parser of the request line and the headers, \<open>phr_parse_request\<close>, is not part of the
  repository, and neither is cJSON: they are parameters. Variables that the code does not initialise come with the record
  \<open>uninit\<close>. The outer \<open>None\<close> is an access outside an array, an overflow of a signed integer, or a null pointer that is
  followed.
\<close>

section \<open>Strings of C\<close>

definition strstr :: "string \<Rightarrow> string \<Rightarrow> nat option" where
  "strstr h n = find (\<lambda>i. take (length n) (drop i h) = n) [0..<Suc (length h)]"

definition int32 :: "int \<Rightarrow> int option" where
  "int32 v = (if - (2 ^ 31) \<le> v \<and> v < 2 ^ 31 then Some v else None)"

definition atoi :: "string \<Rightarrow> int option" where
  "atoi s = (
     let s1 = dropWhile is_space s;
         neg = (chr_at s1 0 = CHR ''-'');
         s2 = (if neg \<or> chr_at s1 0 = CHR ''+'' then tl s1 else s1);
         n = int (of_dec (takeWhile is_digit s2))
     in int32 (if neg then - n else n))"

text \<open>\<open>sprintf(s, "%d", n)\<close> for a number that is not negative.\<close>

definition digit :: "nat \<Rightarrow> char" where
  "digit n = char_of (48 + n)"

fun dec :: "nat \<Rightarrow> string" where
  "dec n = (if n < 10 then [digit n] else dec (n div 10) @ [digit (n mod 10)])"

declare dec.simps [simp del]

definition crlf :: string where
  "crlf = [CHR 0x0D, CHR 0x0A]"

definition content_length :: string where
  "content_length = ''Content-Length: ''"

definition quote :: string where
  "quote = [CHR 0x22]"

section \<open>Requests\<close>

abbreviation (input) sign_method :: int where "sign_method \<equiv> 0"
abbreviation (input) upcheck :: int where "upcheck \<equiv> 1"
abbreviation (input) getKeys :: int where "getKeys \<equiv> 2"
abbreviation (input) importKey :: int where "importKey \<equiv> 4"
abbreviation (input) textPlain :: int where "textPlain \<equiv> 0"
abbreviation (input) applicationJson :: int where "applicationJson \<equiv> 1"

record boardRequest =
  req_method :: int
  acceptType :: int
  req_json :: "int option"
  keyToSign :: nat
  publicKeys :: "string list"
  nKeys :: int
  jsonLen :: int

text \<open>The result of \<open>phr_parse_request\<close>: the method, the place of the path in the buffer, and the headers. The name of a
  continuation line is a null pointer.\<close>

record phr_header =
  hname :: "string option"
  hvalue :: string

record phr_result =
  requestLen :: int
  phr_method :: string
  path_off :: nat
  path_len :: nat
  headers :: "phr_header list"

type_synonym phr = "char list \<Rightarrow> nat \<Rightarrow> nat \<Rightarrow> phr_result"

record uninit =
  numHeaders0 :: nat
  body0 :: "int option"
  bodyLen0 :: int
  row0 :: "nat \<Rightarrow> byte"

text \<open>\<open>strncpy\<close> of 96 characters.\<close>

definition strncpy96 :: "string \<Rightarrow> string" where
  "strncpy96 r = (let t = cstr (take 96 r) in t @ replicate (96 - length t) nul)"

primrec copy_rows :: "string list \<Rightarrow> nat \<Rightarrow> string list \<Rightarrow> string list option" where
  "copy_rows [] i dst = Some dst"
| "copy_rows (r # rs) i dst = do { dst \<leftarrow> put dst i (strncpy96 r); copy_rows rs (Suc i) dst }"

definition copyKeys :: "'s svc \<Rightarrow> uninit \<Rightarrow> boardRequest \<Rightarrow> 's \<Rightarrow> (int \<times> boardRequest \<times> 's) option" where
  "copyKeys svc ui request s = do {
     (ksize, s) \<leftarrow> svc_size svc s;
     if ksize = 0 then Some (-1, request\<lparr>nKeys := 0\<rparr>, s)
     else if ksize < 0 then None
     else do {
       (buffer, s) \<leftarrow> svc_get_keys svc (replicate (nat ksize) (chars (stack_arr (row0 ui) 96))) s;
       pks \<leftarrow> copy_rows buffer 0 (publicKeys request);
       Some (0, request\<lparr>publicKeys := pks, nKeys := ksize\<rparr>, s)
     }
   }"

text \<open>The loops over the headers stop at a header with the wanted property or without a name.\<close>

definition scan_headers :: "(string \<Rightarrow> bool) \<Rightarrow> phr_header list \<Rightarrow> phr_header option" where
  "scan_headers P hs = find (\<lambda>h. case hname h of None \<Rightarrow> True | Some n \<Rightarrow> P n) hs"

definition getAcceptOptions :: "phr_header list \<Rightarrow> int" where
  "getAcceptOptions hs = (case scan_headers (\<lambda>n. n = ''Accept'') hs of
     Some h \<Rightarrow> if hvalue h = ''application/json'' \<or> hvalue h = ''*/*'' then applicationJson else textPlain
   | None \<Rightarrow> textPlain)"

text \<open>The comparison of the name is not negated: the header that is taken has a name of 14 characters and is not
  \<open>content-length\<close>.\<close>

definition getBody :: "nat \<Rightarrow> phr_header list \<Rightarrow> uninit \<Rightarrow> (int option \<times> int) option" where
  "getBody bufferSize hs ui = (case scan_headers (\<lambda>n. length n = 14 \<and> n \<noteq> ''content-length'') hs of
     Some h \<Rightarrow> do {
       bodyLen \<leftarrow> atoi (cstr (hvalue h));
       Some (if bodyLen > 0 then Some (int bufferSize - bodyLen) else None, bodyLen)
     }
   | None \<Rightarrow> Some (body0 ui, bodyLen0 ui))"

text \<open>The 96 characters of the key in the request.\<close>

definition key_chars :: "char list \<Rightarrow> boardRequest \<Rightarrow> string option" where
  "key_chars buffer request =
     (if keyToSign request + 96 \<le> length buffer then Some (take 96 (drop (keyToSign request) buffer)) else None)"

definition checkKey :: "'s svc \<Rightarrow> uninit \<Rightarrow> char list \<Rightarrow> boardRequest \<Rightarrow> 's \<Rightarrow> (int \<times> boardRequest \<times> 's) option" where
  "checkKey svc ui buffer request s = do {
     (r, request, s) \<leftarrow> copyKeys svc ui request s;
     if r = -1 then Some (-1, request, s)
     else do {
       k \<leftarrow> key_chars buffer request;
       Some (if \<exists>row\<in>set (take (nat (nKeys request)) (publicKeys request)). cstr row = cstr k then 0 else -1, request, s)
     }
   }"

section \<open>Reading a request\<close>

text \<open>The tests before the headers are parsed: \<open>Some r\<close> is an early return. The expected length is converted to \<open>size_t\<close>.\<close>

definition check_complete :: "char list \<Rightarrow> nat \<Rightarrow> int option option" where
  "check_complete buffer bufferSize =
     (if take 4 buffer \<noteq> ''POST'' \<and> take 3 buffer \<noteq> ''GET'' then Some (Some (-1))
      else do {
        t \<leftarrow> str_from buffer 0;
        if take 4 buffer = ''POST'' then
          (case strstr t content_length of
             Some p \<Rightarrow>
               (case strstr (drop p t) (crlf @ crlf) of
                  Some q \<Rightarrow> do {
                    clen \<leftarrow> atoi (drop (p + 16) t);
                    explen \<leftarrow> int32 (clen + 4 + int (p + q));
                    let e = uint (word_of_int explen :: 32 word);
                    Some (if int bufferSize > e then Some (-1) else if int bufferSize < e then Some (-2) else None)
                  }
                | None \<Rightarrow> Some (Some (if bufferSize < 300 then -2 else -1)))
           | None \<Rightarrow> Some (if bufferSize < 300 then Some (-2) else None))
        else
          (case strstr t (crlf @ crlf) of
             None \<Rightarrow> Some (Some (if bufferSize < 300 then -2 else -1))
           | Some _ \<Rightarrow> Some None)
      })"

definition path_starts :: "char list \<Rightarrow> phr_result \<Rightarrow> string \<Rightarrow> bool" where
  "path_starts buffer rq s \<longleftrightarrow> take (length s) (drop (path_off rq) buffer) = s"

definition path_is :: "char list \<Rightarrow> phr_result \<Rightarrow> string \<Rightarrow> bool" where
  "path_is buffer rq s \<longleftrightarrow> path_len rq = length s \<and> path_starts buffer rq s"

definition signRequestStr :: string where
  "signRequestStr = ''/api/v1/eth2/sign/0x''"

text \<open>The choice of the operation.\<close>

definition route :: "char list \<Rightarrow> nat \<Rightarrow> phr_result \<Rightarrow> uninit \<Rightarrow> boardRequest \<Rightarrow> (int \<times> boardRequest) option" where
  "route buffer bufferSize rq ui reply =
     (if phr_method rq = ''GET'' then
        if path_is buffer rq ''/upcheck'' then Some (0, reply\<lparr>req_method := upcheck\<rparr>)
        else if path_is buffer rq ''/api/v1/eth2/publicKeys'' then Some (0, reply\<lparr>req_method := getKeys\<rparr>)
        else Some (-3, reply)
      else if phr_method rq = ''POST'' then do {
        (body, bodyLen) \<leftarrow> getBody bufferSize (headers rq) ui;
        if path_len rq = length signRequestStr + 96 \<and> path_starts buffer rq signRequestStr then
          Some (0, reply\<lparr>acceptType := getAcceptOptions (headers rq), keyToSign := path_off rq + length signRequestStr,
            req_json := body, jsonLen := bodyLen, req_method := sign_method\<rparr>)
        else if path_is buffer rq ''/eth/v1/keystores'' then
          Some (0, reply\<lparr>req_json := body, jsonLen := bodyLen, req_method := importKey\<rparr>)
        else Some (-3, reply)
      }
      else Some (-3, reply))"

definition parseRequest :: "phr \<Rightarrow> uninit \<Rightarrow> char list \<Rightarrow> nat \<Rightarrow> boardRequest \<Rightarrow> (int \<times> char list \<times> boardRequest) option" where
  "parseRequest phr ui buffer bufferSize reply = do {
     c \<leftarrow> check_complete buffer bufferSize;
     case c of Some r \<Rightarrow> Some (r, buffer, reply)
     | None \<Rightarrow> do {
         buffer \<leftarrow> put buffer bufferSize nul;
         let rq = phr buffer bufferSize (numHeaders0 ui);
         if requestLen rq < 0 then Some (requestLen rq, buffer, reply)
         else if length (headers rq) > 100 then None
         else do { (r, reply) \<leftarrow> route buffer bufferSize rq ui reply; Some (r, buffer, reply) }
       }
   }"

section \<open>Responses\<close>

definition status_ok :: string where
  "status_ok = ''HTTP/1.1 200 OK'' @ crlf"

definition upcheckResponse :: string where
  "upcheckResponse = status_ok @ ''Content-Type: text/plain; charset=utf-8'' @ crlf @ ''Content-Length: 0'' @ crlf @ crlf"

definition getKeysResponse :: string where
  "getKeysResponse = status_ok @ ''Content-Type: application/json'' @ crlf @ ''Content-Length: ''"

definition signResponse :: string where
  "signResponse = status_ok @ ''Content-Type: application/json'' @ crlf @ ''Content-Length: ''"

definition signResponseText :: string where
  "signResponseText = status_ok @ ''Content-Type: text/plain'' @ crlf @ ''Content-Length: ''"

definition keystoreRespJson :: string where
  "keystoreRespJson = ''HTTP/1.1 200 Success response'' @ crlf @ ''Content-Type: application/json'' @ crlf @ ''Content-Length: 48'' @ crlf @ crlf @
     ''{'' @ quote @ ''data'' @ quote @ '': [{'' @ quote @ ''status'' @ quote @ '': '' @ quote @ ''imported'' @ quote @ '','' @
     quote @ ''message'' @ quote @ '': '' @ quote @ quote @ ''}]}''"

definition badRequest :: string where
  "badRequest = ''HTTP/1.1 400 Bad request format'' @ crlf @ ''Content-Type: application/json'' @ crlf @ ''Content-Length: 0'' @ crlf @ crlf"

definition pknf :: string where
  "pknf = ''HTTP/1.1 404 Public key not found'' @ crlf @ ''Content-Type: application/json'' @ crlf @ ''Content-Length: 0'' @ crlf @ crlf"

text \<open>A chain of \<open>strcpy\<close> and \<open>strcat\<close> into the buffer, whose sources are not in it.\<close>

definition write_out :: "char list \<Rightarrow> string \<Rightarrow> (int \<times> char list) option" where
  "write_out buffer s = do { buffer \<leftarrow> blit buffer (s @ [nul]); Some (int (length s), buffer) }"

definition upcheckResponseStr :: "char list \<Rightarrow> (int \<times> char list) option" where
  "upcheckResponseStr buffer = write_out buffer upcheckResponse"

definition pknotfoundResponseStr :: "char list \<Rightarrow> (int \<times> char list) option" where
  "pknotfoundResponseStr buffer = write_out buffer pknf"

definition keystoreResponse :: "char list \<Rightarrow> (int \<times> char list) option" where
  "keystoreResponse buffer = write_out buffer keystoreRespJson"

fun keys_json :: "string list \<Rightarrow> string" where
  "keys_json [] = ''''"
| "keys_json (k # ks) = quote @ ''0x'' @ cstr (take 96 k) @ quote @ (if ks \<noteq> [] then '','' else '''') @ keys_json ks"

definition getKeysResponseStr :: "char list \<Rightarrow> boardRequest \<Rightarrow> (int \<times> char list) option" where
  "getKeysResponseStr buffer request = (
     let n = nKeys request; jsonKeysSize = (if n = 0 then 2 else n - 1 + n * (96 + 4) + 2)
     in if n < 0 \<or> int (length (publicKeys request)) < n then None
        else write_out buffer (getKeysResponse @ dec (nat jsonKeysSize) @ crlf @ crlf @ ''['' @
          keys_json (take (nat n) (publicKeys request)) @ '']''))"

section \<open>Signing\<close>

text \<open>The libraries as the signing request uses them; \<open>nrf\<close> says whether the result of the parser is tested.\<close>

record 'j web =
  cj :: "'j cjson"
  cJSON_Parse :: "string option \<Rightarrow> 'j option"
  GetObjectItemCaseSensitive :: "'j option \<Rightarrow> string \<Rightarrow> 'j option"
  sha :: hashf
  stk :: locals
  nrf :: bool

definition getSR :: "'j web \<Rightarrow> 'j option \<Rightarrow> zeros \<Rightarrow> (int \<times> bytes \<times> zeros) option" where
  "getSR w json zh = do {
     t \<leftarrow> str_item (cj w) json ''type'';
     r \<leftarrow>
       (if t = ''block'' \<or> t = ''BLOCK'' then do {
          (htr, zh) \<leftarrow> htrBeaconBlock (sha w) (cj w) (stk w) (GetObjectItem (cj w) json ''block'') zh;
          Some (Some (htr, domain_beacon_proposer, zh)) }
        else if t = ''attestation'' \<or> t = ''ATTESTATION'' then do {
          htr \<leftarrow> htrAttDat (sha w) (cj w) (stk w) (GetObjectItem (cj w) json ''attestation'') zh;
          Some (Some (htr, domain_beacon_attester, zh)) }
        else if t = ''aggregation_slot'' \<or> t = ''AGGREGATION_SLOT'' then do {
          htr \<leftarrow> htrAggSlot (cj w) (stk w) (GetObjectItem (cj w) json ''aggregation_slot'');
          Some (Some (htr, domain_selection_proof, zh)) }
        else if t = ''aggregate_and_proof'' \<or> t = ''AGGREGATE_AND_PROOF'' then do {
          (htr, zh) \<leftarrow> htrAggAndProof (sha w) (cj w) (stk w) (GetObjectItem (cj w) json ''aggregate_and_proof'') zh;
          Some (Some (htr, domain_aggregate_and_proof, zh)) }
        else Some None);
     case r of None \<Rightarrow> Some (-1, stack_arr (arrs (stk w) ''sr'') 32, zh)
     | Some (htr, domain, zh) \<Rightarrow> do { root \<leftarrow> sr (sha w) (cj w) (stk w) json htr domain; Some (0, root, zh) }
   }"

text \<open>The body of the request as \<open>cJSON_Parse\<close> gets it.\<close>

definition body_text :: "char list \<Rightarrow> int option \<Rightarrow> string option option" where
  "body_text buffer body = (case body of
     None \<Rightarrow> Some None
   | Some off \<Rightarrow> if off < 0 then None else map_option Some (str_from buffer (nat off)))"

definition sign_reply :: "int \<Rightarrow> string \<Rightarrow> (string \<times> string) option" where
  "sign_reply accept signat =
     (if accept = textPlain then Some (signResponseText, ''0x'' @ take 192 signat)
      else if accept = applicationJson then
        Some (signResponse, ''{'' @ quote @ ''signature'' @ quote @ '': '' @ quote @ ''0x'' @ take 192 signat @ quote @ ''}'')
      else None)"

text \<open>Without a \<open>signingRoot\<close> in the document the root is computed, and then the function returns an error.\<close>

definition signResponseStr :: "'j web \<Rightarrow> 's svc \<Rightarrow> char list \<Rightarrow> boardRequest \<Rightarrow> zeros \<Rightarrow> 's \<Rightarrow> (int \<times> char list \<times> zeros \<times> 's) option" where
  "signResponseStr w svc buffer request zh s = do {
     body \<leftarrow> body_text buffer (req_json request);
     let json = cJSON_Parse w body;
     if nrf w \<and> json = None then Some (-1, buffer, zh, s)
     else (case GetObjectItemCaseSensitive w json ''signingRoot'' of
       None \<Rightarrow> do {
         (r, root, zh) \<leftarrow> getSR w json zh;
         Some (-1, buffer, zh, s)
       }
     | Some signingroot \<Rightarrow> do {
         v \<leftarrow> valuestring (cj w) signingroot;
         if length v < 65 then None
         else do {
           let srhex = cstr (take 64 (drop 2 (v @ [nul])));
           key \<leftarrow> key_chars buffer request;
           (r, signat, s) \<leftarrow> signature svc (cstr key) srhex '''' s;
           if r \<noteq> 0 then Some (-1, buffer, zh, s)
           else (case sign_reply (acceptType request) signat of
             None \<Rightarrow> Some (-1, buffer, zh, s)
           | Some (head, reply) \<Rightarrow> do {
               (n, buffer) \<leftarrow> write_out buffer (head @ dec (length reply) @ crlf @ crlf @ reply);
               Some (n, buffer, zh, s)
             })
         }
       })
   }"

section \<open>The dispatcher\<close>

record import_ctx =
  ienv :: import_env
  ibuild :: build
  ikdf :: kdf
  icodes :: cjson_codes

text \<open>The result, the buffer and the request, the zero hashes, and the keystore. The result of the import is returned as it is.\<close>

definition dumpHttpResponse :: "'j web \<Rightarrow> import_ctx \<Rightarrow> 's svc \<Rightarrow> uninit \<Rightarrow> char list \<Rightarrow> boardRequest \<Rightarrow> zeros \<Rightarrow> 's \<Rightarrow>
    (int \<times> char list \<times> boardRequest \<times> zeros \<times> 's) option" where
  "dumpHttpResponse w ic svc ui buffer request zh s =
     (if req_method request = sign_method then do {
        (c, request, s) \<leftarrow> checkKey svc ui buffer request s;
        if c = -1 then do { (n, buffer) \<leftarrow> pknotfoundResponseStr buffer; Some (n, buffer, request, zh, s) }
        else do { (n, buffer, zh, s) \<leftarrow> signResponseStr w svc buffer request zh s; Some (n, buffer, request, zh, s) }
      }
      else if req_method request = upcheck then do {
        (n, buffer) \<leftarrow> upcheckResponseStr buffer;
        Some (n, buffer, request, zh, s)
      }
      else if req_method request = getKeys then do {
        (_, request, s) \<leftarrow> copyKeys svc ui request s;
        (n, buffer) \<leftarrow> getKeysResponseStr buffer request;
        Some (n, buffer, request, zh, s)
      }
      else if req_method request = importKey then (case req_json request of
        None \<Rightarrow> None
      | Some off \<Rightarrow>
          if off < 0 \<or> int (length buffer) \<le> off then None
          else do {
            (error, text, s) \<leftarrow> httpImportFromKeystore (ienv ic) (ibuild ic) (ikdf ic) svc (row0 ui) (icodes ic) (drop (nat off) buffer) s;
            let buffer = take (nat off) buffer @ text;
            if error = 0 then do { (n, buffer) \<leftarrow> keystoreResponse buffer; Some (n, buffer, request, zh, s) }
            else Some (error, buffer, request, zh, s)
          })
      else Some (-1, buffer, request, zh, s))"

section \<open>What the responses contain\<close>

text \<open>The reference for a response with a body, and for the list of keys.\<close>

definition http_ok :: "string \<Rightarrow> string \<Rightarrow> string" where
  "http_ok ctype body = ''HTTP/1.1 200 OK'' @ crlf @ ''Content-Type: '' @ ctype @ crlf @ ''Content-Length: '' @ dec (length body) @ crlf @ crlf @ body"

definition json_keys :: "string list \<Rightarrow> string" where
  "json_keys ks = ''['' @ tl (concat (map (\<lambda>k. '','' @ quote @ ''0x'' @ k @ quote) ks)) @ '']''"

lemma keys_json_concat:
  "\<forall>k\<in>set ks. length k = 96 \<and> nul \<notin> set k \<Longrightarrow>
   keys_json ks = tl (concat (map (\<lambda>k. '','' @ quote @ ''0x'' @ k @ quote) ks))"
proof (induction ks)
  case (Cons k ks)
  then show ?case by (cases ks) (simp_all add: cstr_id)
qed simp

lemma length_json_keys:
  "\<forall>k\<in>set ks. length k = 96 \<Longrightarrow>
   int (length (json_keys ks)) = (if ks = [] then 2 else int (length ks) - 1 + int (length ks) * 100 + 2)"
proof -
  assume k: "\<forall>k\<in>set ks. length k = 96"
  have "length (concat (map (\<lambda>k. '','' @ quote @ ''0x'' @ k @ quote) ks)) = 101 * length ks"
    using k by (induction ks) (simp_all add: quote_def)
  then show ?thesis by (cases ks) (simp_all add: json_keys_def)
qed

lemma getKeysResponseStr_ok:
  assumes "\<forall>k\<in>set ks. length k = 96 \<and> nul \<notin> set k" and "publicKeys rq = ks @ rest \<or> ks = []" and "nKeys rq = int (length ks)"
  shows "getKeysResponseStr buffer rq = write_out buffer (http_ok ''application/json'' (json_keys ks))"
proof -
  have "take (length ks) (publicKeys rq) = ks" "\<not> int (length (publicKeys rq)) < int (length ks)" using assms(2) by auto
  moreover have "nat (if int (length ks) = 0 then 2 else int (length ks) - 1 + int (length ks) * (96 + 4) + 2) = length (json_keys ks)"
    using length_json_keys [of ks] assms(1) by (cases ks) (auto simp del: of_nat_Suc)
  ultimately show ?thesis
    using assms(1,3)
    by (simp add: getKeysResponseStr_def Let_def http_ok_def getKeysResponse_def status_ok_def json_keys_def keys_json_concat del: of_nat_0_eq_iff)
qed

lemma copy_rows_ok:
  "\<forall>r\<in>set rs. length r = 96 \<and> nul \<notin> set r \<Longrightarrow> i + length rs \<le> length dst \<Longrightarrow>
   copy_rows rs i dst = Some (take i dst @ rs @ drop (i + length rs) dst)"
proof (induction rs arbitrary: i dst)
  case (Cons r rs)
  have "strncpy96 r = r" using Cons.prems(1) by (simp add: strncpy96_def cstr_id)
  then show ?case
    using Cons by (simp add: c_simps take_Suc_conv_app_nth)
qed simp

lemma key_chars_keys [simp]: "key_chars buffer (rq\<lparr>publicKeys := pks, nKeys := n\<rparr>) = key_chars buffer rq"
  by (simp add: key_chars_def)

context key_service
begin

lemma copyKeys_outcome:
  assumes inv: "invar s" and room: "length (publicKeys rq) = 10"
  shows "copyKeys svc ui rq s = Some (if keys s = [] then (-1, rq\<lparr>nKeys := 0\<rparr>, s)
    else (0, rq\<lparr>publicKeys := keys s @ drop (length (keys s)) (publicKeys rq), nKeys := int (length (keys s))\<rparr>, s))"
proof (cases "keys s = []")
  case True
  then show ?thesis using size_law [OF inv] by (simp add: copyKeys_def)
next
  case False
  have "\<forall>k\<in>set (keys s). length k = 96 \<and> nul \<notin> set k" "length (keys s) \<le> 10" using nul_key [OF inv] keys_wf [OF inv] by auto
  then have "copy_rows (keys s) 0 (publicKeys rq) = Some (keys s @ drop (length (keys s)) (publicKeys rq))"
    using copy_rows_ok [of "keys s" 0] room by simp
  then show ?thesis
    using False size_law [OF inv] get_keys_law [OF inv, of "replicate (length (keys s)) (chars (stack_arr (row0 ui) 96))"]
    by (simp add: copyKeys_def)
qed

text \<open>The list of the keys.\<close>

lemma getKeys_outcome:
  assumes inv: "invar s" and room: "length (publicKeys rq) = 10" and m: "req_method rq = getKeys"
  shows "\<exists>rq'. dumpHttpResponse w ic svc ui buffer rq zh s =
    (do { (n, buffer) \<leftarrow> write_out buffer (http_ok ''application/json'' (json_keys (keys s))); Some (n, buffer, rq', zh, s) })"
proof -
  have k: "\<forall>k\<in>set (keys s). length k = 96 \<and> nul \<notin> set k" using nul_key [OF inv] by blast
  obtain r rq' where c: "copyKeys svc ui rq s = Some (r, rq', s)" "publicKeys rq' = keys s @ drop (length (keys s)) (publicKeys rq) \<or> keys s = []"
      "nKeys rq' = int (length (keys s))"
    using copyKeys_outcome [OF inv room] by (cases "keys s = []") auto
  from getKeysResponseStr_ok [OF k c(2,3)] show ?thesis
    using c(1) m by (auto simp: dumpHttpResponse_def)
qed

lemma checkKey_outcome:
  assumes inv: "invar s" and room: "length (publicKeys rq) = 10" and k: "key_chars buffer rq = Some k" "length k = 96" "nul \<notin> set k"
  shows "\<exists>rq'. checkKey svc ui buffer rq s = Some (if k \<in> set (keys s) then 0 else -1, rq', s) \<and>
    keyToSign rq' = keyToSign rq \<and> acceptType rq' = acceptType rq \<and> req_json rq' = req_json rq \<and>
    length (publicKeys rq') = 10"
proof (cases "keys s = []")
  case True
  then show ?thesis using copyKeys_outcome [OF inv room] room by (simp add: checkKey_def)
next
  case False
  have "cstr x = x" if "x \<in> set (keys s)" for x using nul_key [OF inv that] by (simp add: cstr_id)
  then have "(\<exists>row\<in>set (keys s). cstr row = cstr k) \<longleftrightarrow> k \<in> set (keys s)" using k(3) by (auto simp: cstr_id)
  then show ?thesis
    using False copyKeys_outcome [OF inv room, of ui] k room keys_wf [OF inv] by (simp add: checkKey_def)
qed

end

definition sign_body :: "int \<Rightarrow> string \<Rightarrow> string" where
  "sign_body accept signat = (if accept = textPlain then ''0x'' @ take 192 signat
     else ''{'' @ quote @ ''signature'' @ quote @ '': '' @ quote @ ''0x'' @ take 192 signat @ quote @ ''}'')"

definition sign_ctype :: "int \<Rightarrow> string" where
  "sign_ctype accept = (if accept = textPlain then ''text/plain'' else ''application/json'')"

text \<open>A document whose signing root is the 64 characters \<open>m\<close>, behind two others.\<close>

definition root_is :: "'j web \<Rightarrow> string option \<Rightarrow> string \<Rightarrow> bool" where
  "root_is w body m \<longleftrightarrow> (\<exists>j r pre post. cJSON_Parse w body = Some j \<and> GetObjectItemCaseSensitive w (Some j) ''signingRoot'' = Some r \<and>
     valuestring (cj w) r = Some (pre @ m @ post) \<and> length pre = 2)"

lemma nul_hex: "list_all is_hex k \<Longrightarrow> nul \<notin> set k"
  using nul_not_hex by (metis list_all_iff)

context key_service
begin

lemma signResponseStr_outcome:
  assumes inv: "invar s" and k: "key_chars buffer rq = Some k" "list_all is_hex k" "find_text k (keys s) = Some i"
    and b: "body_text buffer (req_json rq) = Some body" "root_is w body m" and m: "length m = 64" "list_all is_hex m"
    and a: "acceptType rq \<in> {0, 1}"
  shows "signResponseStr w svc buffer rq zh s = (do {
    (n, buffer) \<leftarrow> write_out buffer (http_ok (sign_ctype (acceptType rq)) (sign_body (acceptType rq) (sig_of s i (hexbytes m))));
    Some (n, buffer, zh, s) })"
proof -
  obtain j r pre post where d: "cJSON_Parse w body = Some j" "GetObjectItemCaseSensitive w (Some j) ''signingRoot'' = Some r"
      "valuestring (cj w) r = Some (pre @ m @ post)" "length pre = 2"
    using b(2) by (auto simp: root_is_def)
  have len: "length k = 96" using k(1) by (auto simp: key_chars_def split: if_splits)
  have "signature svc k m '''' s = Some (0, sig_of s i (hexbytes m), s)"
    using signature_outcome [OF inv m, of k] k len by (simp add: strip0x_hex)
  moreover have "cstr k = k" "cstr m = m" using k(2) m(2) by (simp_all add: cstr_id nul_hex)
  moreover obtain h reply where h: "sign_reply (acceptType rq) (sig_of s i (hexbytes m)) = Some (h, reply)"
      "h @ dec (length reply) @ crlf @ crlf @ reply =
       http_ok (sign_ctype (acceptType rq)) (sign_body (acceptType rq) (sig_of s i (hexbytes m)))"
    using a by (cases "acceptType rq = 0")
      (simp_all add: sign_reply_def http_ok_def sign_ctype_def sign_body_def signResponse_def signResponseText_def status_ok_def)
  ultimately show ?thesis
    using d m b(1) k(1) by (simp add: signResponseStr_def Let_def)
qed

text \<open>The signing request: an unknown key, or the signature by the stored one.\<close>

lemma sign_outcome:
  assumes inv: "invar s" and room: "length (publicKeys rq) = 10" and meth: "req_method rq = sign_method"
    and k: "key_chars buffer rq = Some k" "list_all is_hex k"
    and b: "body_text buffer (req_json rq) = Some body" "root_is w body m" and m: "length m = 64" "list_all is_hex m"
    and a: "acceptType rq \<in> {0, 1}"
  shows "\<exists>rq'. length (publicKeys rq') = 10 \<and> dumpHttpResponse w ic svc ui buffer rq zh s = (do {
    (n, buffer) \<leftarrow> write_out buffer (case find_text k (keys s) of None \<Rightarrow> pknf
      | Some i \<Rightarrow> http_ok (sign_ctype (acceptType rq)) (sign_body (acceptType rq) (sig_of s i (hexbytes m))));
    Some (n, buffer, rq', zh, s) })"
proof -
  have len: "length k = 96" using k(1) by (auto simp: key_chars_def split: if_splits)
  obtain rq' where c: "checkKey svc ui buffer rq s = Some (if k \<in> set (keys s) then 0 else -1, rq', s)"
      "keyToSign rq' = keyToSign rq" "acceptType rq' = acceptType rq" "req_json rq' = req_json rq"
      "length (publicKeys rq') = 10"
    using checkKey_outcome [OF inv room k(1) len nul_hex [OF k(2)]] by blast
  show ?thesis
  proof (cases "find_text k (keys s)")
    case None
    then have "k \<notin> set (keys s)" by (simp add: find_text_None)
    then show ?thesis using c(1,5) meth None by (auto simp: dumpHttpResponse_def pknotfoundResponseStr_def)
  next
    case (Some i)
    then have "k \<in> set (keys s)" using find_text_None [of k "keys s"] by auto
    moreover have "key_chars buffer rq' = Some k" using k(1) c(2) unfolding key_chars_def by metis
    ultimately show ?thesis
      using signResponseStr_outcome [OF inv _ k(2) Some, of buffer rq' body w m] b m a c meth Some
      by (auto simp: dumpHttpResponse_def split_def intro!: exI [of _ rq'])
  qed
qed

end

lemma write_out_ok:
  "length s < length buffer \<Longrightarrow> \<exists>b. write_out buffer s = Some (int (length s), b) \<and> length b = length buffer \<and> take (length s) b = s \<and>
    drop (Suc (length s)) b = drop (Suc (length s)) buffer"
  by (simp add: write_out_def blit_def)

lemma length_dec: "length (dec n) \<le> Suc n"
proof (induction n rule: dec.induct)
  case (1 n)
  show ?case
  proof (cases "n < 10")
    case False
    then have "length (dec (n div 10)) \<le> Suc (n div 10)" using 1 by blast
    moreover have "Suc (n div 10) < Suc n" using False by simp
    ultimately show ?thesis using False by (simp add: dec.simps [of n])
  qed (simp add: dec.simps [of n])
qed

lemma length_http_ok: "length (http_ok ctype body) \<le> length ctype + 2 * length body + 64"
  using length_dec [of "length body"] by (simp add: http_ok_def crlf_def)

lemma length_sign_body: "length (sign_body a sig) \<le> 211"
  by (auto simp: sign_body_def quote_def)

lemma http_sign_ok:
  assumes "tfm_inv ext spm st" and "svc = direct_svc b ext junk \<or> svc = tfm_svc spm junk"
    and "length (publicKeys rq) = 10" and "req_method rq = sign_method" and "length buffer = 32768"
    and "key_chars buffer rq = Some k" and "list_all is_hex k"
    and "body_text buffer (req_json rq) = Some body" and "root_is w body m" and "length m = 64" and "list_all is_hex m"
    and "acceptType rq \<in> {0, 1}"
  shows "\<exists>buffer' rq'. let response = (case find_text k (pk_texts ext st) of None \<Rightarrow> pknf
      | Some i \<Rightarrow> http_ok (sign_ctype (acceptType rq)) (sign_body (acceptType rq) (key_signature ext st i (hexbytes m)))) in
    dumpHttpResponse w ic svc ui buffer rq zh st = Some (int (length response), buffer', rq', zh, st) \<and>
    take (length response) buffer' = response \<and> drop (Suc (length response)) buffer' = drop (Suc (length response)) buffer \<and>
    length buffer' = 32768 \<and> length (publicKeys rq') = 10"
proof -
  let ?r = "case find_text k (pk_texts ext st) of None \<Rightarrow> pknf
      | Some i \<Rightarrow> http_ok (sign_ctype (acceptType rq)) (sign_body (acceptType rq) (key_signature ext st i (hexbytes m)))"
  have "length ?r < 32768"
  proof (cases "find_text k (pk_texts ext st)")
    case (Some i)
    then show ?thesis
      using length_http_ok [of "sign_ctype (acceptType rq)" "sign_body (acceptType rq) (key_signature ext st i (hexbytes m))"]
        length_sign_body [of "acceptType rq" "key_signature ext st i (hexbytes m)"] by (simp add: sign_ctype_def split: if_splits)
  qed (simp add: pknf_def crlf_def)
  then obtain buf where b: "write_out buffer ?r = Some (int (length ?r), buf)" "take (length ?r) buf = ?r" "length buf = 32768"
      "drop (Suc (length ?r)) buf = drop (Suc (length ?r)) buffer"
    using write_out_ok [of ?r buffer] assms(5) by auto
  obtain rq' where "length (publicKeys rq') = 10" "dumpHttpResponse w ic svc ui buffer rq zh st = (do { (n, buffer) \<leftarrow> write_out buffer ?r; Some (n, buffer, rq', zh, st) })"
    using assms(2) tfm.sign_outcome [OF assms(1,3,4,6-12)]
      direct.sign_outcome [OF tfm_inv_direct [OF assms(1)] assms(3,4,6-12)] by blast
  then show ?thesis using b by (auto simp: Let_def)
qed

text \<open>C13: A signing request, in both builds. The buffer holds the request; \<open>k\<close> is the key it names and \<open>m\<close> the signing root of its
  document. Afterwards the buffer starts with the complete response, whose length is returned: an unknown key is answered with
  404, and a stored one with the signature of \<open>m\<close>, as text or as JSON, under the right length. What the buffer held behind the response and its
  terminator, the keystore and the zero hashes are as before.\<close>

theorem http_sign_spec:
  assumes "tfm_inv ext spm st" and "svc = direct_svc b ext junk \<or> svc = tfm_svc spm junk"
    and "length (publicKeys rq) = 10" and "req_method rq = sign_method" and "length buffer = 32768"
    and "key_chars buffer rq = Some k" and "list_all is_hex k"
    and "body_text buffer (req_json rq) = Some body" and "root_is w body m" and "length m = 64" and "list_all is_hex m"
    and "acceptType rq \<in> {0, 1}"
  shows "\<exists>buffer' rq'. let response = (case find_text k (pk_texts ext st) of None \<Rightarrow> pknf
      | Some i \<Rightarrow> http_ok (sign_ctype (acceptType rq)) (sign_body (acceptType rq) (key_signature ext st i (hexbytes m)))) in
    dumpHttpResponse w ic svc ui buffer rq zh st = Some (int (length response), buffer', rq', zh, st) \<and>
    take (length response) buffer' = response \<and> drop (Suc (length response)) buffer' = drop (Suc (length response)) buffer \<and>
    length buffer' = 32768 \<and> length (publicKeys rq') = 10"
  by (rule http_sign_ok [OF assms])

text \<open>C15: The list of the public keys, in both builds: the response is complete, its declared length is that of the JSON array,
  and the array has the stored keys in their order.\<close>

theorem http_getKeys_spec:
  assumes "tfm_inv ext spm st" and "svc = direct_svc b ext junk \<or> svc = tfm_svc spm junk"
    and "length (publicKeys rq) = 10" and "req_method rq = getKeys" and "length buffer = 32768"
  shows "\<exists>buffer' rq'. let response = http_ok ''application/json'' (json_keys (pk_texts ext st)) in
    dumpHttpResponse w ic svc ui buffer rq zh st = Some (int (length response), buffer', rq', zh, st) \<and>
    take (length response) buffer' = response"
proof -
  let ?r = "http_ok ''application/json'' (json_keys (pk_texts ext st))"
  have "length (pk_texts ext st) \<le> 10" "\<forall>k\<in>set (pk_texts ext st). length k = 96"
    using tfm.keys_wf [OF assms(1)] by auto
  then have "length (json_keys (pk_texts ext st)) \<le> 1100"
    using length_json_keys [of "pk_texts ext st"] by (simp split: if_splits)
  then have "length ?r < 32768" using length_http_ok [of "''application/json''" "json_keys (pk_texts ext st)"] by simp
  then obtain buf where b: "write_out buffer ?r = Some (int (length ?r), buf)" "take (length ?r) buf = ?r"
    using write_out_ok [of ?r buffer] assms(5) by auto
  obtain rq' where "dumpHttpResponse w ic svc ui buffer rq zh st = (do { (n, buffer) \<leftarrow> write_out buffer ?r; Some (n, buffer, rq', zh, st) })"
    using assms(2) tfm.getKeys_outcome [OF assms(1,3,4)]
      direct.getKeys_outcome [OF tfm_inv_direct [OF assms(1)] assms(3,4)] by blast
  then show ?thesis using b by (auto simp: Let_def)
qed

section \<open>Signing roots by the type of the request\<close>

text \<open>The objects that can be signed, how a request holds one, and its root and domain type.\<close>

datatype signable = Block_Of block | Attestation_Of attestation_data | Slot_Of "64 word" | Aggregate_Of aggregate_and_proof

definition signable_is :: "'j web \<Rightarrow> 'j option \<Rightarrow> zeros \<Rightarrow> signable \<Rightarrow> bool" where
  "signable_is w json zh x \<longleftrightarrow> (\<exists>t. str_item (cj w) json ''type'' = Some t \<and> (case x of
     Block_Of b \<Rightarrow> t \<in> {''block'', ''BLOCK''} \<and> block_is (sha w) (cj w) (stk w) (GetObjectItem (cj w) json ''block'') b zh
   | Attestation_Of a \<Rightarrow> t \<in> {''attestation'', ''ATTESTATION''} \<and> attdata_is (cj w) (GetObjectItem (cj w) json ''attestation'') a
   | Slot_Of v \<Rightarrow> t \<in> {''aggregation_slot'', ''AGGREGATION_SLOT''} \<and> u64_is (cj w) (GetObjectItem (cj w) json ''aggregation_slot'') ''slot'' v
   | Aggregate_Of a \<Rightarrow> t \<in> {''aggregate_and_proof'', ''AGGREGATE_AND_PROOF''} \<and>
       agg_is (cj w) (GetObjectItem (cj w) json ''aggregate_and_proof'') a))"

definition signable_root :: "hashf \<Rightarrow> signable \<Rightarrow> bytes" where
  "signable_root H x = (case x of
     Block_Of b \<Rightarrow> block_root H (coded_mix 16) (coded_mix 2) b | Attestation_Of a \<Rightarrow> attdata_root H a | Slot_Of v \<Rightarrow> chunk64 v
   | Aggregate_Of a \<Rightarrow> agg_root H a)"

definition signable_domain :: "signable \<Rightarrow> bytes" where
  "signable_domain x = (case x of
     Block_Of _ \<Rightarrow> [0, 0, 0, 0] | Attestation_Of _ \<Rightarrow> [1, 0, 0, 0] | Slot_Of _ \<Rightarrow> [5, 0, 0, 0] | Aggregate_Of _ \<Rightarrow> [6, 0, 0, 0])"

definition fork_is :: "'j web \<Rightarrow> 'j option \<Rightarrow> bytes \<Rightarrow> bytes \<Rightarrow> bool" where
  "fork_is w json v g \<longleftrightarrow> (let f = GetObjectItem (cj w) json ''fork_info'' in
     hex_is (cj w) (GetObjectItem (cj w) f ''fork'') ''current_version'' 4 v \<and> hex_is (cj w) f ''genesis_validators_root'' 32 g)"

lemma getSR_ok:
  assumes x: "signable_is w json zh x" and f: "fork_is w json v g" and z: "zeros_ok (sha w) 9 zh"
  shows "getSR w json zh = Some (0, mtree (sha w) 1 [signable_root (sha w) x, domain_of (sha w) (signable_domain x) v g], zh)"
proof -
  obtain t where t: "str_item (cj w) json ''type'' = Some t" using x by (auto simp: signable_is_def)
  have root: "sr (sha w) (cj w) (stk w) json htr d = Some (mtree (sha w) 1 [htr, domain_of (sha w) d v g])" if "length d = 4" for htr d
    by (rule sr_ok [OF _ _ that]) (use f in \<open>simp_all add: fork_is_def Let_def\<close>)
  note doms = domain_beacon_proposer_def domain_beacon_attester_def domain_selection_proof_def domain_aggregate_and_proof_def
  show ?thesis
  proof (cases x)
    case (Block_Of b)
    then show ?thesis
      using x t z block_ok [of "sha w" "cj w" "stk w" _ b zh]
      by (auto simp: signable_is_def getSR_def root signable_root_def signable_domain_def doms)
  next
    case (Attestation_Of a)
    then show ?thesis
      using x t attdat_ok [of "cj w" _ a "sha w" 9 zh "stk w"] z
      by (auto simp: signable_is_def getSR_def root signable_root_def signable_domain_def doms)
  next
    case (Slot_Of u)
    then have u: "u64_is (cj w) (GetObjectItem (cj w) json ''aggregation_slot'') ''slot'' u"
      and ty: "t = ''aggregation_slot'' \<or> t = ''AGGREGATION_SLOT''" using x t by (auto simp: signable_is_def)
    show ?thesis
      using u64_item_ok [OF u] ty t Slot_Of
      by (auto simp: getSR_def htrAggSlot_def root signable_root_def signable_domain_def doms)
  next
    case (Aggregate_Of a)
    then show ?thesis
      using x t z agg_ok [of "cj w" _ a "sha w" zh "stk w"]
      by (auto simp: signable_is_def getSR_def root signable_root_def signable_domain_def doms)
  qed
qed


text \<open>C39: Signing by content does not work: a request of a supported type without a signing root in the document is refused,
  although the root has been computed; nothing is signed and the buffer is unchanged.\<close>

theorem http_sign_drops_root:
  assumes "body_text buffer (req_json rq) = Some body" and "cJSON_Parse w body = Some j"
    and "GetObjectItemCaseSensitive w (Some j) ''signingRoot'' = None"
    and "signable_is w (Some j) zh x" and "fork_is w (Some j) v g" and "zeros_ok (sha w) 9 zh"
  shows "signResponseStr w svc buffer rq zh s = Some (-1, buffer, zh, s)"
  using assms getSR_ok [OF assms(4-6)] by (simp add: signResponseStr_def Let_def)

section \<open>Waiting for the whole request\<close>

lemma of_dec_append: "of_dec (s @ [c]) = of_dec s * 10 + unat (ord8 c - ord8 (CHR ''0''))"
  by (simp add: of_dec_def)

lemma digit_value: "n < 10 \<Longrightarrow> unat (ord8 (digit n) - ord8 (CHR ''0'')) = n \<and> is_digit (digit n)"
proof -
  assume "n < 10"
  then have "n \<in> {0, 1, 2, 3, 4, 5, 6, 7, 8, 9}" by auto
  then show ?thesis by (elim insertE emptyE) (simp_all, code_simp+)
qed

lemma dec_digits: "list_all is_digit (dec n) \<and> dec n \<noteq> []"
proof (induction n rule: dec.induct)
  case (1 n)
  then show ?case using digit_value [of n] digit_value [of "n mod 10"] by (simp add: dec.simps [of n])
qed

lemma of_dec_dec: "of_dec (dec n) = n"
proof (induction n rule: dec.induct)
  case (1 n)
  show ?case
  proof (cases "n < 10")
    case True
    then show ?thesis using digit_value [of n] by (simp add: dec.simps [of n] of_dec_def)
  next
    case False
    then show ?thesis using 1 digit_value [of "n mod 10"] by (simp add: dec.simps [of n] of_dec_append)
  qed
qed

lemma atoi_dec:
  assumes "int n < 2 ^ 31" and "rest = [] \<or> \<not> is_digit (hd rest)"
  shows "atoi (dec n @ rest) = Some (int n)"
proof -
  obtain c cs where c: "dec n = c # cs" using dec_digits [of n] by (cases "dec n") auto
  have d: "is_digit c" using dec_digits [of n] c by simp
  have "takeWhile is_digit (dec n @ rest) = dec n"
    using dec_digits [of n] assms(2) by (cases rest) (auto simp: takeWhile_append list_all_iff)
  then show ?thesis
    using is_digit_not [OF d] c assms(1) of_dec_dec [of n] by (simp add: atoi_def Let_def c_simps int32_def)
qed

definition first_in :: "string \<Rightarrow> string \<Rightarrow> bool" where
  "first_in pre n \<longleftrightarrow> (\<forall>i<length pre. take (length n) (drop i (pre @ n)) \<noteq> n)"

lemma strstr_first:
  assumes "first_in pre n"
  shows "strstr (pre @ n @ rest) n = Some (length pre)"
proof -
  have "take (length n) (drop i (pre @ n @ rest)) \<noteq> n" if "i < length pre" for i
    using assms that unfolding first_in_def by auto
  then show ?thesis
    unfolding strstr_def by (subst find_Some_iff) (auto intro!: exI [of _ "length pre"] simp: nth_append)
qed

text \<open>A request with a body: \<open>pre\<close> up to the header with the length, \<open>mid\<close> from behind the number to the end of the headers.\<close>

definition post_head :: "string \<Rightarrow> nat \<Rightarrow> string \<Rightarrow> string" where
  "post_head pre n mid = pre @ content_length @ dec n @ mid @ crlf @ crlf"

definition post_ok :: "string \<Rightarrow> nat \<Rightarrow> string \<Rightarrow> bool" where
  "post_ok pre n mid \<longleftrightarrow> take 4 pre = ''POST'' \<and>
     first_in pre content_length \<and> first_in (content_length @ dec n @ mid) (crlf @ crlf) \<and>
     (mid = [] \<or> \<not> is_digit (hd mid)) \<and> nul \<notin> set (pre @ mid) \<and> length (post_head pre n mid) + n < 32768"

lemma nul_dec: "nul \<notin> set (dec n)"
  using dec_digits [of n] is_digit_nul(1) by (metis list_all_iff)

lemma str_from_behind: "nul \<notin> set t \<Longrightarrow> nul \<in> set rest \<Longrightarrow> str_from (t @ rest) 0 = Some (t @ cstr rest)"
  by (auto simp: str_from_def cstr_def takeWhile_append)

lemma uint_of_int32: "0 \<le> x \<Longrightarrow> x < 2 ^ 32 \<Longrightarrow> uint (word_of_int x :: 32 word) = x"
  by (simp add: uint_word_of_int take_bit_int_eq_self)

lemma check_complete_stale:
  assumes ok: "post_ok pre n mid" and t: "t = post_head pre n mid @ part" "nul \<notin> set part" "length t < 32768" and rest: "nul \<in> set rest"
  shows "check_complete (t @ rest) (length t) =
    Some (if length part < n then Some (-2) else if n < length part then Some (-1) else None)"
proof -
  let ?cl = content_length and ?buf = "t @ rest" and ?t = "t @ cstr rest"
  have cl: "length ?cl = 16" "nul \<notin> set ?cl" by (simp_all add: content_length_def)
  have p4: "take 4 pre = ''POST''" and mid: "mid = [] \<or> \<not> is_digit (hd mid)" and len: "length (post_head pre n mid) + n < 32768"
    and nm: "nul \<notin> set pre" "nul \<notin> set mid"
    using ok by (auto simp: post_ok_def)
  have "4 \<le> length pre" using arg_cong [OF p4, of length] by simp
  then have start: "take 4 ?buf = ''POST''" using p4 by (simp add: t(1) post_head_def)
  have "nul \<notin> set t" using nm t(2) nul_dec [of n] cl(2) by (auto simp: t(1) post_head_def crlf_def)
  then have str: "str_from ?buf 0 = Some ?t" using str_from_behind rest by simp
  have s1: "strstr ?t ?cl = Some (length pre)"
    using strstr_first [of pre ?cl "dec n @ mid @ crlf @ crlf @ part @ cstr rest"] ok by (simp add: post_ok_def t(1) post_head_def)
  have d: "drop (length pre) ?t = (?cl @ dec n @ mid) @ (crlf @ crlf) @ part @ cstr rest" by (simp add: t(1) post_head_def)
  have s2: "strstr (drop (length pre) ?t) (crlf @ crlf) = Some (length (?cl @ dec n @ mid))"
    unfolding d by (rule strstr_first) (use ok in \<open>simp add: post_ok_def\<close>)
  have "drop (length pre + 16) ?t = dec n @ mid @ crlf @ crlf @ part @ cstr rest" by (simp add: t(1) post_head_def cl)
  moreover have "\<not> is_digit (CHR 0x0D)" by code_simp
  ultimately have a: "atoi (drop (length pre + 16) ?t) = Some (int n)"
    using atoi_dec [of n "mid @ crlf @ crlf @ part @ cstr rest"] mid len by (cases mid) (auto simp: crlf_def)
  have e: "int n + 4 + int (length pre + length (?cl @ dec n @ mid)) = int (length (post_head pre n mid) + n)"
    by (simp add: post_head_def crlf_def cl)
  have w: "uint (word_of_int (int (length (post_head pre n mid) + n)) :: 32 word) = int (length (post_head pre n mid) + n)"
    by (rule uint_of_int32) (use len in auto)
  have i: "int32 (int (length (post_head pre n mid) + n)) = Some (int (length (post_head pre n mid) + n))"
    using len by (simp add: int32_def)
  have tl: "length t = length (post_head pre n mid) + length part" by (simp add: t(1))
  show ?thesis
    unfolding check_complete_def
    using start str s1 s2 a e w i tl by (simp del: of_nat_add length_append drop_append)
qed

lemma check_complete_post:
  assumes "post_ok pre n mid" and "t = post_head pre n mid @ part" "nul \<notin> set part" "length t < 32768"
  shows "check_complete (t @ replicate (32768 - length t) nul) (length t) =
    Some (if length part < n then Some (-2) else if n < length part then Some (-1) else None)"
  by (rule check_complete_stale [OF assms]) (use assms(4) in simp)

text \<open>Requests that arrive in pieces. While the headers of a POST request are there but not yet the \<open>n\<close> characters of the body that they
  announce, \<open>parseRequest\<close> asks for more; with more than that it rejects the request. Neither changes the buffer or the
  request record.\<close>

theorem parseRequest_waits:
  assumes "post_ok pre n mid" and "t = post_head pre n mid @ part" and "nul \<notin> set part" and "length t < 32768"
    and "buffer = t @ replicate (32768 - length t) nul" and "length part \<noteq> n"
  shows "parseRequest phr ui buffer (length t) reply = Some (if length part < n then -2 else -1, buffer, reply)"
  using check_complete_post [OF assms(1-4)] assms(5,6) by (auto simp: parseRequest_def)

lemma scan_headers_found:
  "P nm \<Longrightarrow> hname h = Some nm \<Longrightarrow> \<forall>x\<in>set hs1. \<exists>m. hname x = Some m \<and> \<not> P m \<Longrightarrow> scan_headers P (hs1 @ h # hs2) = Some h"
  by (induction hs1) (auto simp: scan_headers_def)

lemma getBody_length:
  assumes "hs = hs1 @ h # hs2" and "hname h = Some ''Content-Length''" and "hvalue h = dec n"
    and "\<forall>x\<in>set hs1. \<exists>m. hname x = Some m \<and> length m \<noteq> 14" and "0 < n" and "int n < 2 ^ 31"
  shows "getBody len hs ui = Some (Some (int len - int n), int n)"
proof -
  have "scan_headers (\<lambda>n. length n = 14 \<and> n \<noteq> ''content-length'') hs = Some h"
    unfolding assms(1) by (rule scan_headers_found [OF _ assms(2)]) (use assms(4) in auto)
  moreover have "atoi (dec n) = Some (int n)" using atoi_dec [of n "[]"] assms(6) by simp
  ultimately show ?thesis using assms(3,5) nul_dec [of n] by (simp add: getBody_def cstr_id)
qed

text \<open>What \<open>phr_parse_request\<close> promises for a POST request with a body of \<open>n\<close> characters: the method, and the headers, of which
  \<open>Content-Length\<close> is the first with a name of 14 characters. A signing request has its path and the key.\<close>

definition post_parsed :: "phr \<Rightarrow> uninit \<Rightarrow> char list \<Rightarrow> nat \<Rightarrow> nat \<Rightarrow> phr_result \<Rightarrow> bool" where
  "post_parsed phr ui buffer len n rq \<longleftrightarrow> phr buffer len (numHeaders0 ui) = rq \<and> 0 \<le> requestLen rq \<and> length (headers rq) \<le> 100 \<and>
     phr_method rq = ''POST'' \<and>
     (\<exists>hs1 h hs2. headers rq = hs1 @ h # hs2 \<and> hname h = Some ''Content-Length'' \<and> hvalue h = dec n \<and>
        (\<forall>x\<in>set hs1. \<exists>m. hname x = Some m \<and> length m \<noteq> 14))"

definition sign_parsed :: "phr \<Rightarrow> uninit \<Rightarrow> char list \<Rightarrow> nat \<Rightarrow> nat \<Rightarrow> phr_result \<Rightarrow> bool" where
  "sign_parsed phr ui buffer len n rq \<longleftrightarrow> post_parsed phr ui buffer len n rq \<and> path_len rq = 116 \<and> path_starts buffer rq signRequestStr"

text \<open>A complete request. Behind it, from \<open>c\<close> on, the buffer may hold anything with a terminator in it; \<open>parseRequest\<close> puts a terminator at \<open>c\<close>.\<close>

lemma post_request:
  assumes ok: "post_ok pre n mid" and t: "t = post_head pre n mid @ body" and b: "nul \<notin> set body" "length body = n" "0 < n"
    and rest: "nul \<in> set (c # rest)" and rq: "post_parsed phr ui (t @ nul # rest) (length t) n rq"
  shows "parseRequest phr ui (t @ c # rest) (length t) reply =
      map_option (\<lambda>(r, reply'). (r, t @ nul # rest, reply')) (route (t @ nul # rest) (length t) rq ui reply)"
    and "getBody (length t) (headers rq) ui = Some (Some (int (length (post_head pre n mid))), int n)"
    and "length t < 32768"
proof -
  obtain hs1 h hs2 where hs: "headers rq = hs1 @ h # hs2" "hname h = Some ''Content-Length''" "hvalue h = dec n"
      "\<forall>x\<in>set hs1. \<exists>m. hname x = Some m \<and> length m \<noteq> 14"
    using rq by (auto simp: post_parsed_def)
  show len: "length t < 32768" using ok b(2) by (simp add: post_ok_def t)
  have c: "check_complete (t @ c # rest) (length t) = Some None"
    using check_complete_stale [OF ok t b(1) len rest] b(2) by simp
  have p: "put (t @ c # rest) (length t) nul = Some (t @ nul # rest)" by (simp add: c_simps list_update_append)
  have n: "int n < 2 ^ 31" using ok by (simp add: post_ok_def)
  have "int (length t) - int n = int (length (post_head pre n mid))" using b(2) by (simp add: t)
  then show "getBody (length t) (headers rq) ui = Some (Some (int (length (post_head pre n mid))), int n)"
    using getBody_length [OF hs b(3) n, of "length t" ui] by simp
  show "parseRequest phr ui (t @ c # rest) (length t) reply =
      map_option (\<lambda>(r, reply'). (r, t @ nul # rest, reply')) (route (t @ nul # rest) (length t) rq ui reply)"
    using c p rq by (cases "route (t @ nul # rest) (length t) rq ui reply") (auto simp: post_parsed_def parseRequest_def Let_def)
qed

lemma sign_request_ok:
  assumes ok: "post_ok pre n mid" and t: "t = post_head pre n mid @ body" and b: "nul \<notin> set body" "length body = n" "0 < n"
    and rest: "nul \<in> set (c # rest)" and rq: "sign_parsed phr ui (t @ nul # rest) (length t) n rq"
  shows "\<exists>reply'. parseRequest phr ui (t @ c # rest) (length t) reply = Some (0, t @ nul # rest, reply') \<and> req_method reply' = sign_method \<and>
    keyToSign reply' = path_off rq + 20 \<and> body_text (t @ nul # rest) (req_json reply') = Some (Some body) \<and>
    acceptType reply' = getAcceptOptions (headers rq) \<and> publicKeys reply' = publicKeys reply"
proof -
  have post: "post_parsed phr ui (t @ nul # rest) (length t) n rq" using rq by (simp add: sign_parsed_def)
  note r = post_request [OF ok t b rest post]
  have "body_text (t @ nul # rest) (Some (int (length (post_head pre n mid)))) = Some (Some body)"
    using b(1) by (simp add: t body_text_def str_from_def cstr_terminated)
  moreover have "length signRequestStr = 20" by (simp add: signRequestStr_def)
  ultimately show ?thesis
    using r(1,2) rq post by (simp add: sign_parsed_def post_parsed_def route_def)
qed

lemma import_request_ok:
  assumes ok: "post_ok pre n mid" and t: "t = post_head pre n mid @ body" and b: "nul \<notin> set body" "length body = n" "0 < n"
    and rest: "nul \<in> set (c # rest)" and rq: "post_parsed phr ui (t @ nul # rest) (length t) n rq"
    and path: "path_is (t @ nul # rest) rq ''/eth/v1/keystores''"
  shows "parseRequest phr ui (t @ c # rest) (length t) reply = Some (0, t @ nul # rest,
    reply\<lparr>req_json := Some (int (length (post_head pre n mid))), jsonLen := int n, req_method := importKey\<rparr>)"
proof -
  have "path_len rq \<noteq> length signRequestStr + 96" using path by (simp add: path_is_def signRequestStr_def)
  then show ?thesis using post_request(1,2) [OF ok t b rest rq] rq path by (simp add: post_parsed_def route_def)
qed

text \<open>C24: A complete signing request. Given what the header parser promises, \<open>parseRequest\<close> recognises the operation, and the request refers
  to the key in the path and to exactly the announced body.\<close>

theorem parseRequest_sign:
  assumes ok: "post_ok pre n mid" and t: "t = post_head pre n mid @ body" and b: "nul \<notin> set body" "length body = n" "0 < n"
    and buf: "buffer = t @ replicate (32768 - length t) nul" and rq: "sign_parsed phr ui buffer (length t) n rq"
  shows "\<exists>reply'. parseRequest phr ui buffer (length t) reply = Some (0, buffer, reply') \<and> req_method reply' = sign_method \<and>
    keyToSign reply' = path_off rq + 20 \<and> body_text buffer (req_json reply') = Some (Some body) \<and>
    acceptType reply' = getAcceptOptions (headers rq) \<and> publicKeys reply' = publicKeys reply"
proof -
  obtain k where k: "32768 - length t = Suc k" using ok b(2) by (cases "32768 - length t") (auto simp: post_ok_def t)
  then have "buffer = t @ nul # replicate k nul" using buf by simp
  then show ?thesis using sign_request_ok [OF ok t b, of nul "replicate k nul" phr ui rq reply] rq by simp
qed

text \<open>A request whose length header is spelled \<open>content-length\<close>, in lower case, is not given a body: the position and the length of the
  body are what the stack held.\<close>

theorem getBody_lower_case:
  assumes "\<forall>h\<in>set hs. \<exists>m. hname h = Some m \<and> (length m = 14 \<longrightarrow> m = ''content-length'')"
  shows "getBody len hs ui = Some (body0 ui, bodyLen0 ui)"
proof -
  have "scan_headers (\<lambda>n. length n = 14 \<and> n \<noteq> ''content-length'') hs = None"
    using assms by (fastforce simp: scan_headers_def find_None_iff)
  then show ?thesis by (simp add: getBody_def)
qed

text \<open>The health check is answered with its fixed response, without the keystore.\<close>

theorem http_upcheck_spec:
  assumes "req_method rq = upcheck" and "length buffer = 32768"
  shows "\<exists>buffer'. dumpHttpResponse w ic svc ui buffer rq zh s = Some (int (length upcheckResponse), buffer', rq, zh, s) \<and>
    take (length upcheckResponse) buffer' = upcheckResponse"
proof -
  have "length upcheckResponse < length buffer" using assms(2) by (simp add: upcheckResponse_def status_ok_def crlf_def)
  from write_out_ok [OF this] show ?thesis
    using assms(1) by (auto simp: dumpHttpResponse_def upcheckResponseStr_def)
qed

section \<open>Concrete requests\<close>

definition demo_uninit :: uninit where
  "demo_uninit = \<lparr>numHeaders0 = 100, body0 = None, bodyLen0 = 0, row0 = \<lambda>_. 0\<rparr>"

definition demo_req :: boardRequest where
  "demo_req = \<lparr>req_method = sign_method, acceptType = applicationJson, req_json = None, keyToSign = 0,
     publicKeys = replicate 10 (replicate 96 nul), nKeys = 0, jsonLen = 0\<rparr>"

definition demo_web :: "json \<Rightarrow> json web" where
  "demo_web d = \<lparr>cj = json_reader, cJSON_Parse = (\<lambda>_. Some d), GetObjectItemCaseSensitive = GetObjectItem json_reader, sha = demo_H,
     stk = demo_locals, nrf = True\<rparr>"

definition demo_ctx :: import_ctx where
  "demo_ctx = \<lparr>ienv = demo_env, ibuild = Nrf_Tfm, ikdf = demo_kdf, icodes = \<lparr>cJSON_Number = 8, cJSON_String = 16\<rparr>\<rparr>"

definition demo_sign_doc :: json where
  "demo_sign_doc = JObj [(''signingRoot'', JStr (''0x'' @ hexstr (replicate 32 2)))]"

definition demo_att_doc :: json where
  "demo_att_doc = JObj [(''type'', JStr ''ATTESTATION''), (''attestation'', demo_attdata),
     (''fork_info'', JObj [(''fork'', JObj [(''current_version'', demo_hex 4)]), (''genesis_validators_root'', demo_hex 32)])]"

lemma demo_root_is: "root_is (demo_web demo_sign_doc) body (hexstr (replicate 32 2))"
  unfolding root_is_def
  by (rule exI [of _ demo_sign_doc], rule exI [of _ "JStr (''0x'' @ hexstr (replicate 32 2))"], rule exI [of _ "''0x''"], rule exI [of _ "''''"])
    (simp add: demo_web_def demo_sign_doc_def json_reader_def)

theorem http_sign_spec_witness:
  "\<exists>buffer' rq'. let k = pkhex demo_ext (replicate 32 1); st = demo_hsm1 (replicate 32 1);
      response = http_ok ''application/json'' (sign_body 1 (key_signature demo_ext st 0 (hexbytes (hexstr (replicate 32 2))))) in
    dumpHttpResponse (demo_web demo_sign_doc) demo_ctx (tfm_svc demo_spm (\<lambda>_. 0)) demo_uninit (k @ replicate 32672 nul) demo_req demo_zeros st =
      Some (int (length response), buffer', rq', demo_zeros, st) \<and> take (length response) buffer' = response \<and> length buffer' = 32768 \<and> length (publicKeys rq') = 10"
proof -
  let ?k = "pkhex demo_ext (replicate 32 1)" and ?st = "demo_hsm1 (replicate 32 1)"
  have inv: "tfm_inv demo_ext demo_spm ?st" by (simp add: demo_tfm_inv)
  have texts: "pk_texts demo_ext ?st = [?k]" by (simp add: demo_texts)
  then have k: "length ?k = 96" "list_all is_hex ?k" using tfm.keys_wf [OF inv] by auto
  have "key_chars (?k @ replicate 32672 nul) demo_req = Some ?k" "body_text (?k @ replicate 32672 nul) (req_json demo_req) = Some None"
    using k by (simp_all add: key_chars_def body_text_def demo_req_def)
  moreover have "find_text ?k [?k] = Some 0" by (simp add: find_text_def)
  ultimately show ?thesis
    using http_sign_spec [of demo_ext demo_spm ?st "tfm_svc demo_spm (\<lambda>_. 0)" Native "\<lambda>_. 0" demo_req "?k @ replicate 32672 nul" ?k None
        "demo_web demo_sign_doc" "hexstr (replicate 32 2)" demo_ctx demo_uninit demo_zeros] inv k texts demo_root_is [of None]
    by (simp add: demo_req_def sign_ctype_def list_all_iff is_hex_hexstr Let_def) blast
qed

theorem http_getKeys_spec_witness:
  "\<exists>buffer' rq'. let response = http_ok ''application/json'' (json_keys []) in
    dumpHttpResponse (demo_web demo_sign_doc) demo_ctx (tfm_svc demo_spm (\<lambda>_. 0)) demo_uninit (replicate 32768 nul) (demo_req\<lparr>req_method := getKeys\<rparr>)
      demo_zeros demo_hsm = Some (int (length response), buffer', rq', demo_zeros, demo_hsm) \<and> take (length response) buffer' = response"
  using http_getKeys_spec [of demo_ext demo_spm demo_hsm "tfm_svc demo_spm (\<lambda>_. 0)" Native "\<lambda>_. 0" "demo_req\<lparr>req_method := getKeys\<rparr>"
      "replicate 32768 nul" "demo_web demo_sign_doc" demo_ctx demo_uninit demo_zeros] demo_tfm_inv(2)
  by (simp add: demo_req_def demo_texts)

lemma demo_att_is_signable: "signable_is (demo_web demo_att_doc) (Some demo_att_doc) zh (Attestation_Of demo_ad)"
  using demo_attdata_is by (simp add: signable_is_def demo_web_def demo_att_doc_def str_item_def json_reader_simps json_reader_def)

lemma demo_fork_is: "fork_is (demo_web demo_att_doc) (Some demo_att_doc) [0x11, 0x11, 0x11, 0x11] demo_root"
  by code_simp


theorem http_sign_drops_root_witness:
  "signResponseStr (demo_web demo_att_doc) (tfm_svc demo_spm (\<lambda>_. 0)) [nul] demo_req demo_zeros demo_hsm = Some (-1, [nul], demo_zeros, demo_hsm)"
  by (rule http_sign_drops_root [OF _ _ _ demo_att_is_signable demo_fork_is, of _ _ None])
    (use demo_zeros_ok in \<open>simp_all add: demo_req_def body_text_def demo_web_def json_reader_def demo_att_doc_def\<close>)

definition demo_key :: string where
  "demo_key = hexstr (replicate 32 7 @ replicate 16 0)"

lemma demo_key: "length demo_key = 96" "list_all is_hex demo_key" "pkhex demo_ext (replicate 32 7) = demo_key"
  by (simp_all add: demo_key_def demo_pkhex pad_def list_all_iff is_hex_hexstr)

lemma nul_demo_key: "nul \<notin> set demo_key"
  using demo_key(2) by (rule nul_hex)

definition demo_pre :: string where
  "demo_pre = ''POST '' @ signRequestStr @ demo_key @ '' HTTP/1.1'' @ crlf"

definition demo_mem :: "string \<Rightarrow> char list" where
  "demo_mem t = t @ replicate (32768 - length t) nul"

lemma first_in_hd: "c \<notin> set pre \<Longrightarrow> n = c # cs \<Longrightarrow> first_in pre n"
proof -
  assume c: "c \<notin> set pre" and n: "n = c # cs"
  have "hd (take (length n) (drop i (pre @ n))) = pre ! i" if "i < length pre" for i
    using that n by (simp add: hd_drop_conv_nth nth_append)
  then show "first_in pre n" using c n unfolding first_in_def by (metis list.sel(1) nth_mem)
qed

lemma demo_post_ok: "post_ok demo_pre 2 []"
proof -
  have "dec 2 = ''2''" by code_simp
  moreover have "CHR ''C'' \<notin> set demo_pre" by code_simp
  then have "first_in demo_pre content_length" by (rule first_in_hd) (simp add: content_length_def)
  moreover have "CHR 0x0D \<notin> set (content_length @ ''2'')" by code_simp
  then have "first_in (content_length @ ''2'') (crlf @ crlf)" by (rule first_in_hd) (simp add: crlf_def)
  ultimately show ?thesis
    by (simp add: post_ok_def post_head_def demo_pre_def demo_key(1) nul_demo_key signRequestStr_def content_length_def crlf_def)
qed

theorem parseRequest_waits_witness:
  "parseRequest (\<lambda>_ _ _. undefined) demo_uninit (demo_mem (post_head demo_pre 2 [] @ ''{'')) (length (post_head demo_pre 2 [] @ ''{'')) demo_req =
    Some (-2, demo_mem (post_head demo_pre 2 [] @ ''{''), demo_req)"
proof -
  have "length (post_head demo_pre 2 [] @ ''{'') < 32768" by code_simp
  then show ?thesis using parseRequest_waits [OF demo_post_ok refl _ _ refl, of "''{''"] by (simp add: demo_mem_def)
qed

definition demo_phr :: phr_result where
  "demo_phr = \<lparr>requestLen = 150, phr_method = ''POST'', path_off = 5, path_len = 116,
     headers = [\<lparr>hname = Some ''Content-Length'', hvalue = ''2''\<rparr>]\<rparr>"

lemma demo_parsed: "sign_parsed (\<lambda>_ _ _. demo_phr) demo_uninit (demo_mem (post_head demo_pre 2 [] @ ''{}'')) (length (post_head demo_pre 2 [] @ ''{}'')) 2 demo_phr"
proof -
  have "path_starts (demo_mem (post_head demo_pre 2 [] @ ''{}'')) demo_phr signRequestStr"
    by (simp add: path_starts_def demo_mem_def post_head_def demo_pre_def demo_phr_def signRequestStr_def)
  moreover have "dec 2 = ''2''" by code_simp
  ultimately show ?thesis by (auto simp: sign_parsed_def post_parsed_def demo_phr_def intro!: exI [of _ "[]"])
qed

theorem parseRequest_sign_witness:
  "\<exists>reply'. parseRequest (\<lambda>_ _ _. demo_phr) demo_uninit (demo_mem (post_head demo_pre 2 [] @ ''{}'')) (length (post_head demo_pre 2 [] @ ''{}'')) demo_req =
      Some (0, demo_mem (post_head demo_pre 2 [] @ ''{}''), reply') \<and> req_method reply' = sign_method \<and>
    keyToSign reply' = path_off demo_phr + 20 \<and> body_text (demo_mem (post_head demo_pre 2 [] @ ''{}'')) (req_json reply') = Some (Some ''{}'') \<and>
    acceptType reply' = getAcceptOptions (headers demo_phr) \<and> publicKeys reply' = publicKeys demo_req"
  by (rule parseRequest_sign [OF demo_post_ok refl _ _ _ demo_mem_def demo_parsed]) simp_all

theorem getBody_lower_case_witness:
  "getBody 200 [\<lparr>hname = Some ''host'', hvalue = ''h''\<rparr>, \<lparr>hname = Some ''content-length'', hvalue = ''2''\<rparr>] demo_uninit = Some (None, 0)"
  using getBody_lower_case [of "[\<lparr>hname = Some ''host'', hvalue = ''h''\<rparr>, \<lparr>hname = Some ''content-length'', hvalue = ''2''\<rparr>]" 200 demo_uninit]
  by (simp add: demo_uninit_def)

theorem http_upcheck_spec_witness:
  "\<exists>buffer'. dumpHttpResponse (demo_web demo_sign_doc) demo_ctx (tfm_svc demo_spm (\<lambda>_. 0)) demo_uninit (replicate 32768 nul)
      (demo_req\<lparr>req_method := upcheck\<rparr>) demo_zeros demo_hsm =
      Some (int (length upcheckResponse), buffer', demo_req\<lparr>req_method := upcheck\<rparr>, demo_zeros, demo_hsm) \<and>
    take (length upcheckResponse) buffer' = upcheckResponse"
  by (rule http_upcheck_spec) simp_all

section \<open>The buffer and the request keep their shape\<close>

lemma write_out_length: "write_out buffer s = Some (n, buffer') \<Longrightarrow> length buffer' = length buffer"
  by (auto simp: write_out_def dest!: length_blit split: Option.bind_splits)

lemma copy_rows_length: "copy_rows rs i dst = Some dst' \<Longrightarrow> length dst' = length dst"
  by (induction rs arbitrary: i dst) (auto dest: length_put split: Option.bind_splits)

lemma copyKeys_length: "copyKeys svc ui rq s = Some (r, rq', s') \<Longrightarrow> length (publicKeys rq') = length (publicKeys rq)"
  by (auto simp: copyKeys_def dest!: copy_rows_length split: Option.bind_splits if_splits)

lemma checkKey_length: "checkKey svc ui buffer rq s = Some (r, rq', s') \<Longrightarrow> length (publicKeys rq') = length (publicKeys rq)"
  by (auto simp: checkKey_def dest!: copyKeys_length split: Option.bind_splits if_splits)

lemma signResponseStr_length: "signResponseStr w svc buffer rq zh s = Some (n, buffer', zh', s') \<Longrightarrow> length buffer' = length buffer"
  by (auto simp: signResponseStr_def Let_def dest!: write_out_length split: Option.bind_splits option.splits if_splits)

lemmas response_lengths = upcheckResponseStr_def pknotfoundResponseStr_def keystoreResponse_def getKeysResponseStr_def Let_def

lemma dumpHttpResponse_shape:
  assumes "dumpHttpResponse w ic svc ui buffer rq zh s = Some (n, buffer', rq', zh', s')"
  shows "length buffer' = length buffer \<and> length (publicKeys rq') = length (publicKeys rq)"
  using assms unfolding dumpHttpResponse_def response_lengths
  by (auto dest!: write_out_length copyKeys_length checkKey_length signResponseStr_length httpImportFromKeystore_text
      split: Option.bind_splits option.splits if_splits)

lemma route_publicKeys: "route buffer n rq ui rp = Some (r, rp') \<Longrightarrow> publicKeys rp' = publicKeys rp"
  by (auto simp: route_def split: Option.bind_splits if_splits)

lemma parseRequest_shape:
  "parseRequest phr ui buffer n rp = Some (r, buffer', rp') \<Longrightarrow> length buffer' = length buffer \<and> publicKeys rp' = publicKeys rp"
  by (auto simp: parseRequest_def Let_def dest!: route_publicKeys length_put split: Option.bind_splits option.splits if_splits)

section \<open>Requests do not change the keystore\<close>

context reading_service
begin

lemma copyKeys_keeps:
  assumes ok and "copyKeys svc ui rq s = Some (r, rq', s')"
  shows "s' = s"
  using assms(2) by (auto simp: copyKeys_def dest!: size_keeps [OF assms(1)] get_keys_keeps [OF assms(1)] split: Option.bind_splits if_splits)

lemma checkKey_keeps: "ok \<Longrightarrow> checkKey svc ui buffer rq s = Some (r, rq', s') \<Longrightarrow> s' = s"
  by (auto simp: checkKey_def dest!: copyKeys_keeps split: Option.bind_splits if_splits)

lemma signResponseStr_keeps: "ok \<Longrightarrow> signResponseStr w svc buffer rq zh s = Some (n, buffer', zh', s') \<Longrightarrow> s' = s"
  by (auto simp: signResponseStr_def Let_def dest!: signature_keeps split: Option.bind_splits option.splits if_splits)

lemma import_keeps:
  assumes ok and "hash_sizes kd" and "httpImportFromKeystore env b kd svc junk cc body s = Some (r, tx, s')"
  shows "r \<noteq> 0 \<and> s' = s"
proof (cases "svc_size svc s")
  case (Some x)
  then obtain n where "svc_size svc s = Some (n, s)" using size_keeps [OF assms(1)] by (cases x) auto
  then show ?thesis using http_import_fails [OF assms(2) _ assms(3)] by blast
next
  case None
  then have "import_entries env b kd svc junk cc tx p ks pwd s = None" for tx p ks pwd
    by (simp add: import_entries_def)
  with assms(3) show ?thesis
    unfolding httpImportFromKeystore_def by (fastforce simp: bind_eq_Some_conv dest!: need_SomeD split: if_splits)
qed

lemma dumpHttpResponse_keeps:
  assumes ok and "hash_sizes (ikdf ic)"
    and "dumpHttpResponse w ic svc ui buffer rq zh s = Some (n, buffer', rq', zh', s')"
  shows "s' = s"
  using assms(3) unfolding dumpHttpResponse_def
  by (auto dest!: copyKeys_keeps [OF assms(1)] checkKey_keeps [OF assms(1)] signResponseStr_keeps [OF assms(1)] import_keeps [OF assms(1,2)]
      split: Option.bind_splits option.splits if_splits)

end

end
