(* ===== verification/Remote_Signer.thy ===== *)
theory Remote_Signer
  imports Http_Remote
begin

text \<open>
  The main loops of \<^verbatim>\<open>src/remote-signer/src/main.c\<close> and \<^verbatim>\<open>src/remote-signer-7002/src/main.c\<close>, with the socket functions of
  \<^verbatim>\<open>src/lib/tcp.c\<close>.

  All of them keep one buffer with the number of characters in it, append what arrives, try to read a request, and send
  the response from the same buffer. They differ in the transport: the serial line, one connection to a bridge (macro NET), and a
  server over Wi-Fi (the 7002 board). What the transport returns is an argument of a round: the data received, and the numbers
  of characters the calls that send report. Starting the devices and the network is in \<open>Board\<close> and \<open>Wifi_Link\<close>.
\<close>

section \<open>The state, and handling what is in the buffer\<close>

abbreviation (input) MAXBUF :: nat where "MAXBUF \<equiv> 32768"

record 's signer =
  buf :: "char list"
  len :: int
  reply :: boardRequest
  zero_hashes :: zeros
  hsm :: 's

text \<open>The parts a signer is linked with.\<close>

record ('s, 'j) parts =
  p_phr :: phr
  p_uninit :: uninit
  p_web :: "'j web"
  p_import :: import_ctx
  p_svc :: "'s svc"

text \<open>\<open>memset(buf, 0, MAXBUF); strcpy(buf, badRequest); len = strlen(badRequest)\<close>.\<close>

definition bad_reply :: "'s signer \<Rightarrow> 's signer" where
  "bad_reply st = st\<lparr>buf := badRequest @ replicate (MAXBUF - length badRequest) nul, len := int (length badRequest)\<rparr>"

text \<open>The result of \<open>parseRequest\<close> with the state after its branch, up to the sending. The length is passed as a \<open>size_t\<close>.\<close>

definition handle :: "('s, 'j) parts \<Rightarrow> 's signer \<Rightarrow> (int \<times> 's signer) option" where
  "handle P st = do {
     (pr, b, rp) \<leftarrow> parseRequest (p_phr P) (p_uninit P) (buf st) (nat (len st mod 2 ^ 32)) (reply st);
     let st = st\<lparr>buf := b, reply := rp\<rparr>;
     if pr = 0 then do {
       (n, b, rp, zh, s) \<leftarrow> dumpHttpResponse (p_web P) (p_import P) (p_svc P) (p_uninit P) (buf st) (reply st) (zero_hashes st) (hsm st);
       let st = st\<lparr>buf := b, len := n, reply := rp, zero_hashes := zh, hsm := s\<rparr>;
       Some (pr, if n = -1 then bad_reply st else st)
     }
     else if pr = -1 then Some (pr, st\<lparr>len := 0\<rparr>)
     else if pr = -3 then Some (pr, bad_reply st)
     else Some (pr, st)
   }"

text \<open>Appending received characters to the buffer.\<close>

definition receive :: "'s signer \<Rightarrow> string \<Rightarrow> 's signer option" where
  "receive st d = (if len st < 0 \<or> int (length (buf st)) < len st + int (length d) then None
     else Some (st\<lparr>buf := take (nat (len st)) (buf st) @ d @ drop (nat (len st) + length d) (buf st), len := len st + int (length d)\<rparr>))"

text \<open>Before the loop of \<^verbatim>\<open>src/remote-signer/src/main.c\<close>; the result of \<open>tfm_init\<close> is not looked at.\<close>

definition signer_start :: "hashf \<Rightarrow> 'p spm \<Rightarrow> 'p hsm signer \<Rightarrow> 'p hsm signer option" where
  "signer_start H spm st = do {
     zh \<leftarrow> InitZeroHashes H 64 (zero_hashes st);
     (_, h) \<leftarrow> tfm_init spm (hsm st);
     Some (st\<lparr>zero_hashes := zh, hsm := h\<rparr>)
   }"

section \<open>One connection to the bridge\<close>

text \<open>\<open>recv\<close> fails with a negative number or delivers characters. The terminator is written behind them. The caller adds a
  negative result to the length as well.\<close>

definition recv_tcp :: "int + string \<Rightarrow> 's signer \<Rightarrow> 's signer option" where
  "recv_tcp r st = (case r of
     Inl e \<Rightarrow> Some (st\<lparr>len := len st + e\<rparr>)
   | Inr d \<Rightarrow> do {
       st \<leftarrow> receive st d;
       b \<leftarrow> put_int (buf st) (len st) nul;
       Some (st\<lparr>buf := b\<rparr>)
     })"

text \<open>\<open>send\<close> returns the numbers in the list, one at a time; what has been sent is the second result. When the list is used up the call
  has not returned.\<close>

fun send_tcp :: "int list \<Rightarrow> char list \<Rightarrow> int \<Rightarrow> int \<Rightarrow> (int \<times> string) option" where
  "send_tcp [] b sentlen n = None"
| "send_tcp (r # rs) b sentlen n =
     (if r < 0 then Some (r, '''')
      else if sentlen < 0 \<or> int (length b) < sentlen + r then None
      else let out = take (nat r) (drop (nat sentlen) b); sentlen = sentlen + r in
        if n - sentlen = 0 then Some (0, out)
        else map_option (\<lambda>(x, rest). (x, out @ rest)) (send_tcp rs b sentlen n))"

text \<open>A round of the loop: the state afterwards and the characters sent. The length is not reset after a response.\<close>

definition net_round :: "('s, 'j) parts \<Rightarrow> int + string \<Rightarrow> int list \<Rightarrow> 's signer \<Rightarrow> ('s signer \<times> string) option" where
  "net_round P r sends st = do {
     st \<leftarrow> recv_tcp r st;
     (pr, st) \<leftarrow> handle P st;
     if pr = 0 \<or> pr = -3 then do {
       (e, out) \<leftarrow> send_tcp sends (buf st) 0 (len st);
       Some (if e \<noteq> 0 then st else st\<lparr>buf := replicate MAXBUF nul\<rparr>, out)
     }
     else Some (st, '''')
   }"

section \<open>The serial line\<close>

text \<open>Reading: every call delivers some characters.\<close>

primrec uart_receive :: "string list \<Rightarrow> 's signer \<Rightarrow> 's signer option" where
  "uart_receive [] st = Some st"
| "uart_receive (d # ds) st = do { st \<leftarrow> receive st d; uart_receive ds st }"

text \<open>Writing: every call gets the start of the buffer and the number of characters left, and takes some. The loop ends when none is left
  or the driver has no interrupt pending.\<close>

primrec uart_send :: "nat list \<Rightarrow> 's signer \<Rightarrow> ('s signer \<times> string) option" where
  "uart_send [] st = Some (st, '''')"
| "uart_send (k # ks) st =
     (if length (buf st) < k then None
      else let out = take k (buf st); st = st\<lparr>len := len st - int k\<rparr> in
        if len st = 0 then Some (st\<lparr>buf := replicate MAXBUF nul\<rparr>, out)
        else map_option (\<lambda>(st, rest). (st, out @ rest)) (uart_send ks st))"

definition uart_round :: "('s, 'j) parts \<Rightarrow> string list \<Rightarrow> nat list \<Rightarrow> 's signer \<Rightarrow> ('s signer \<times> string) option" where
  "uart_round P ds fills st = do {
     st \<leftarrow> uart_receive ds st;
     (pr, st) \<leftarrow> handle P st;
     if pr = 0 \<or> pr = -3 then uart_send fills st else Some (st, '''')
   }"

section \<open>The Wi-Fi server\<close>

text \<open>Sending by bursts. A failed \<open>send\<close> returns a negative number, which is subtracted from the length; the loop goes on.\<close>

primrec wifi_send :: "int list \<Rightarrow> int \<Rightarrow> 's signer \<Rightarrow> ('s signer \<times> string) option" where
  "wifi_send [] totalSent st = None"
| "wifi_send (r # rs) totalSent st =
     (if totalSent < 0 \<or> int (length (buf st)) < totalSent + len st then None
      else let out = (if r < 0 then '''' else take (nat r) (drop (nat totalSent) (buf st)));
             totalSent = totalSent + r; st = st\<lparr>len := len st - r\<rparr> in
        if len st = 0 then Some (st, out)
        else map_option (\<lambda>(st, rest). (st, out @ rest)) (wifi_send rs totalSent st))"

text \<open>A round of the receiving loop of a connection; the first result says whether the connection goes on. The buffer is not
  cleared after a response.\<close>

definition wifi_round :: "('s, 'j) parts \<Rightarrow> int + string \<Rightarrow> int list \<Rightarrow> 's signer \<Rightarrow> (bool \<times> 's signer \<times> string) option" where
  "wifi_round P r sends st = (case r of
     Inl e \<Rightarrow> Some (False, st, '''')
   | Inr d \<Rightarrow>
       if d = [] then Some (False, st, '''')
       else do {
         st \<leftarrow> receive st d;
         (pr, st) \<leftarrow> handle P st;
         if pr \<noteq> -1 \<and> pr \<noteq> -2 then do {
           (st, out) \<leftarrow> wifi_send sends 0 st;
           Some (False, st, out)
         }
         else Some (True, st, '''')
       })"

section \<open>Starting\<close>

text \<open>The remote signer starts with a write outside the table of zero hashes: it asks for 64 levels in a table of 64 rows.\<close>

theorem signer_start_overflows:
  assumes "length (zero_hashes st) = 64"
  shows "signer_start H spm st = None"
  using init_zero_loop_over [of "(zero_hashes st)[0 := replicate 32 0]" 0 64 H] assms
  by (simp add: signer_start_def InitZeroHashes_def c_simps del: init_zero_loop.simps)

section \<open>Sending\<close>

lemma send_tcp_all:
  "\<forall>r\<in>set rs. 0 < r \<Longrightarrow> rs \<noteq> [] \<Longrightarrow> 0 \<le> sentlen \<Longrightarrow> sum_list rs = n - sentlen \<Longrightarrow> n \<le> int (length b) \<Longrightarrow>
   send_tcp rs b sentlen n = Some (0, take (nat (n - sentlen)) (drop (nat sentlen) b))"
proof (induction rs arbitrary: sentlen)
  case (Cons r rs)
  have r: "0 < r" "0 \<le> sum_list rs" using Cons.prems(1) by (auto intro!: sum_list_nonneg)
  show ?case
  proof (cases "rs = []")
    case True
    then show ?thesis using Cons.prems r by simp
  next
    case False
    then have "0 < sum_list rs" using Cons.prems(1) by (cases rs) (auto intro!: add_pos_nonneg sum_list_nonneg)
    moreover have "send_tcp rs b (sentlen + r) n = Some (0, take (nat (n - (sentlen + r))) (drop (nat (sentlen + r)) b))"
      by (rule Cons.IH) (use Cons.prems r False in auto)
    moreover have "take (nat r) (drop (nat sentlen) b) @ take (nat (n - (sentlen + r))) (drop (nat (sentlen + r)) b) =
        take (nat (n - sentlen)) (drop (nat sentlen) b)"
    proof -
      have "nat (n - sentlen) = nat r + nat (n - (sentlen + r))" "nat (sentlen + r) = nat r + nat sentlen"
        using Cons.prems r by auto
      then show ?thesis by (simp add: take_add add.commute)
    qed
    ultimately show ?thesis using Cons.prems r by (simp add: Let_def)
  qed
qed simp

lemma wifi_send_all:
  "\<forall>r\<in>set rs. 0 < r \<Longrightarrow> rs \<noteq> [] \<Longrightarrow> 0 \<le> sent \<Longrightarrow> sum_list rs = len st \<Longrightarrow> sent + len st \<le> int (length (buf st)) \<Longrightarrow>
   wifi_send rs sent st = Some (st\<lparr>len := 0\<rparr>, take (nat (len st)) (drop (nat sent) (buf st)))"
proof (induction rs arbitrary: sent st)
  case (Cons r rs)
  have r: "0 < r" "0 \<le> sum_list rs" using Cons.prems(1) by (auto intro!: sum_list_nonneg)
  show ?case
  proof (cases "rs = []")
    case True
    then show ?thesis using Cons.prems r by simp
  next
    case False
    then have p: "0 < sum_list rs" using Cons.prems(1) by (cases rs) (auto intro!: add_pos_nonneg sum_list_nonneg)
    let ?st = "st\<lparr>len := len st - r\<rparr>"
    have "wifi_send rs (sent + r) ?st = Some (?st\<lparr>len := 0\<rparr>, take (nat (len ?st)) (drop (nat (sent + r)) (buf ?st)))"
      by (rule Cons.IH) (use Cons.prems r False in auto)
    moreover have "take (nat r) (drop (nat sent) (buf st)) @ take (nat (len st - r)) (drop (nat (sent + r)) (buf st)) =
        take (nat (len st)) (drop (nat sent) (buf st))"
    proof -
      have "nat (len st) = nat r + nat (len st - r)" "nat (sent + r) = nat r + nat sent"
        using Cons.prems r by auto
      then show ?thesis by (simp add: take_add add.commute)
    qed
    ultimately show ?thesis using Cons.prems r p by (simp add: Let_def)
  qed
qed simp

lemma uart_send_concat:
  "\<forall>k\<in>set ks. 0 < k \<and> k \<le> length (buf st) \<Longrightarrow> ks \<noteq> [] \<Longrightarrow> int (sum_list ks) = len st \<Longrightarrow>
   uart_send ks st = Some (st\<lparr>buf := replicate MAXBUF nul, len := 0\<rparr>, concat (map (\<lambda>k. take k (buf st)) ks))"
proof (induction ks arbitrary: st)
  case (Cons k ks)
  show ?case
  proof (cases "ks = []")
    case False
    then have "0 < sum_list ks" using Cons.prems(1) by (cases ks) auto
    moreover have "uart_send ks (st\<lparr>len := len st - int k\<rparr>) =
        Some (st\<lparr>len := len st - int k, buf := replicate MAXBUF nul, len := 0\<rparr>, concat (map (\<lambda>k. take k (buf st)) ks))"
      using Cons.IH [of "st\<lparr>len := len st - int k\<rparr>"] Cons.prems False by simp
    ultimately show ?thesis using Cons.prems by (simp add: Let_def)
  qed (use Cons.prems in \<open>simp add: Let_def\<close>)
qed simp

text \<open>C38: The serial line repeats itself: when the driver takes a response in several portions, each portion is taken from the start of the buffer
  again, so the host receives the first characters of the response once per portion.\<close>

theorem uart_send_restarts:
  assumes "\<forall>k\<in>set ks. 0 < k \<and> k \<le> length (buf st)" and "ks \<noteq> []" and "int (sum_list ks) = len st"
  shows "uart_send ks st = Some (st\<lparr>buf := replicate 32768 nul, len := 0\<rparr>, concat (map (\<lambda>k. take k (buf st)) ks))"
  by (rule uart_send_concat [OF assms])

section \<open>A signing request from the wire to the wire\<close>

lemma receive_fresh:
  assumes "buf st = replicate MAXBUF nul" and "len st = 0" and "length t \<le> MAXBUF"
  shows "receive st t = Some (st\<lparr>buf := t @ replicate (MAXBUF - length t) nul, len := int (length t)\<rparr>)"
  using assms by (simp add: receive_def)

text \<open>A signing request \<open>t\<close> for the key \<open>k\<close> with the signing root \<open>m\<close>, as the header parser, which gets it in the memory \<open>b\<close>, and cJSON read it;
  and the same in a cleared buffer.\<close>

definition sign_request_on :: "('s, 'j) parts \<Rightarrow> char list \<Rightarrow> string \<Rightarrow> string \<Rightarrow> string \<Rightarrow> int \<Rightarrow> bool" where
  "sign_request_on P b t k m accept \<longleftrightarrow> (\<exists>pre n mid body rq. post_ok pre n mid \<and> t = post_head pre n mid @ body \<and> nul \<notin> set body \<and> length body = n \<and> 0 < n \<and>
     sign_parsed (p_phr P) (p_uninit P) b (length t) n rq \<and>
     path_off rq + 116 \<le> length t \<and> k = take 96 (drop (path_off rq + 20) t) \<and> list_all is_hex k \<and>
     root_is (p_web P) (Some body) m \<and> length m = 64 \<and> list_all is_hex m \<and> accept = getAcceptOptions (headers rq))"

definition sign_request :: "('s, 'j) parts \<Rightarrow> string \<Rightarrow> string \<Rightarrow> string \<Rightarrow> int \<Rightarrow> bool" where
  "sign_request P t k m accept \<longleftrightarrow> sign_request_on P (t @ replicate (MAXBUF - length t) nul) t k m accept"

text \<open>The response.\<close>

definition sign_answer :: "'p ext \<Rightarrow> 'p hsm \<Rightarrow> string \<Rightarrow> string \<Rightarrow> int \<Rightarrow> string" where
  "sign_answer ext st k m accept = (case find_text k (pk_texts ext st) of None \<Rightarrow> pknf
     | Some i \<Rightarrow> http_ok (sign_ctype accept) (sign_body accept (key_signature ext st i (hexbytes m))))"

lemma length_sign_answer: "Suc (length (sign_answer ext st k m a)) < MAXBUF"
proof (cases "find_text k (pk_texts ext st)")
  case (Some i)
  then show ?thesis
    using length_http_ok [of "sign_ctype a" "sign_body a (key_signature ext st i (hexbytes m))"]
      length_sign_body [of a "key_signature ext st i (hexbytes m)"] by (simp add: sign_answer_def sign_ctype_def split: if_splits)
qed (simp add: sign_answer_def pknf_def crlf_def)

lemma sign_answer_not_empty: "sign_answer ext st k m a \<noteq> []"
  by (simp add: sign_answer_def pknf_def http_ok_def split: option.split)

lemma accept_cases: "getAcceptOptions hs \<in> {0, 1}"
  by (simp add: getAcceptOptions_def split: option.split)

lemma handle_sign:
  assumes inv: "tfm_inv ext spm (hsm st)" and svc: "p_svc P = direct_svc b ext junk \<or> p_svc P = tfm_svc spm junk"
    and rq: "sign_request_on P (t @ nul # rest) t k m a" and room: "length (publicKeys (reply st)) = 10"
    and st: "buf st = t @ c # rest" "len st = int (length t)" "length (buf st) = MAXBUF" "nul \<in> set (c # rest)"
  shows "\<exists>st'. handle P st = Some (0, st') \<and> len st' = int (length (sign_answer ext (hsm st) k m a)) \<and>
    take (length (sign_answer ext (hsm st) k m a)) (buf st') = sign_answer ext (hsm st) k m a \<and> length (buf st') = MAXBUF \<and>
    drop (Suc (length (sign_answer ext (hsm st) k m a))) (buf st') = drop (Suc (length (sign_answer ext (hsm st) k m a))) (t @ nul # rest) \<and>
    length (publicKeys (reply st')) = 10 \<and> hsm st' = hsm st \<and> zero_hashes st' = zero_hashes st"
proof -
  let ?b = "t @ nul # rest"
  obtain pre n mid body r where d: "post_ok pre n mid" "t = post_head pre n mid @ body" "nul \<notin> set body" "length body = n" "0 < n"
      "sign_parsed (p_phr P) (p_uninit P) ?b (length t) n r" "path_off r + 116 \<le> length t"
      "k = take 96 (drop (path_off r + 20) t)" "list_all is_hex k" "root_is (p_web P) (Some body) m" "length m = 64" "list_all is_hex m"
      "a = getAcceptOptions (headers r)"
    using rq unfolding sign_request_on_def by metis
  have lt: "length t < MAXBUF" using d(1,4) by (simp add: post_ok_def d(2))
  obtain rp where p: "parseRequest (p_phr P) (p_uninit P) (buf st) (length t) (reply st) = Some (0, ?b, rp)" "req_method rp = sign_method"
      "keyToSign rp = path_off r + 20" "body_text ?b (req_json rp) = Some (Some body)" "acceptType rp = a" "length (publicKeys rp) = 10"
    using sign_request_ok [OF d(1-5) st(4) d(6), of "reply st"] d(13) room st(1) by auto
  have acc: "acceptType rp \<in> {0, 1}" using p(5) accept_cases d(13) by simp
  have lb: "length ?b = MAXBUF" using st(1,3) by simp
  have kc: "key_chars ?b rp = Some k" using p(3) d(7,8) lt by (simp add: key_chars_def)
  obtain b' rp' where "dumpHttpResponse (p_web P) (p_import P) (p_svc P) (p_uninit P) ?b rp (zero_hashes st) (hsm st) =
      Some (int (length (sign_answer ext (hsm st) k m a)), b', rp', zero_hashes st, hsm st)"
      "take (length (sign_answer ext (hsm st) k m a)) b' = sign_answer ext (hsm st) k m a" "length b' = MAXBUF" "length (publicKeys rp') = 10"
      "drop (Suc (length (sign_answer ext (hsm st) k m a))) b' = drop (Suc (length (sign_answer ext (hsm st) k m a))) ?b"
    using http_sign_ok [OF inv svc p(6,2) lb kc d(9) p(4) d(10-12) acc] unfolding Let_def p(5) sign_answer_def by blast
  moreover have "nat (len st mod 2 ^ 32) = length t" using st(2) lt by simp
  ultimately show ?thesis
    using p(1) by (simp add: handle_def Let_def)
qed

text \<open>The start of a round: an empty, cleared buffer.\<close>

definition idle :: "'s signer \<Rightarrow> bool" where
  "idle st \<longleftrightarrow> buf st = replicate MAXBUF nul \<and> len st = 0 \<and> length (publicKeys (reply st)) = 10"

text \<open>The list of the counts a transport reports for a text that it takes completely.\<close>

definition takes_all :: "int list \<Rightarrow> string \<Rightarrow> bool" where
  "takes_all rs s \<longleftrightarrow> rs \<noteq> [] \<and> (\<forall>r\<in>set rs. 0 < r) \<and> sum_list rs = int (length s)"

lemma sign_request_length: "sign_request P t k m a \<Longrightarrow> length t < MAXBUF \<and> t \<noteq> []"
  by (auto simp: sign_request_def sign_request_on_def post_ok_def)

lemma handle_received:
  assumes inv: "tfm_inv ext spm (hsm st)" and svc: "p_svc P = direct_svc b ext junk \<or> p_svc P = tfm_svc spm junk"
    and rq: "sign_request P t k m a" and idle: "idle st"
  shows "\<exists>st1 st2. receive st t = Some st1 \<and> put_int (buf st1) (len st1) nul = Some (buf st1) \<and> handle P st1 = Some (0, st2) \<and>
    len st2 = int (length (sign_answer ext (hsm st) k m a)) \<and>
    take (length (sign_answer ext (hsm st) k m a)) (buf st2) = sign_answer ext (hsm st) k m a \<and> length (buf st2) = MAXBUF \<and>
    length (publicKeys (reply st2)) = 10 \<and> hsm st2 = hsm st \<and> zero_hashes st2 = zero_hashes st"
proof -
  have lt: "length t < MAXBUF" using sign_request_length [OF rq] by blast
  then obtain j where j: "MAXBUF - length t = Suc j" by (cases "MAXBUF - length t") auto
  then have jt: "length t + j = 32767" by simp
  let ?st1 = "st\<lparr>buf := t @ replicate (MAXBUF - length t) nul, len := int (length t)\<rparr>"
  have "receive st t = Some ?st1" by (rule receive_fresh) (use idle lt in \<open>simp_all add: idle_def\<close>)
  moreover have "put_int (buf ?st1) (len ?st1) nul = Some (buf ?st1)"
    using lt by (simp add: c_simps j list_update_append)
  moreover have "\<exists>st2. handle P ?st1 = Some (0, st2) \<and> len st2 = int (length (sign_answer ext (hsm ?st1) k m a)) \<and>
    take (length (sign_answer ext (hsm ?st1) k m a)) (buf st2) = sign_answer ext (hsm ?st1) k m a \<and> length (buf st2) = MAXBUF \<and>
    length (publicKeys (reply st2)) = 10 \<and> hsm st2 = hsm ?st1 \<and> zero_hashes st2 = zero_hashes ?st1"
    using handle_sign [OF _ svc, where st = ?st1 and c = nul and t = t and rest = "replicate j nul" and k = k and m = m and a = a]
      rq inv idle j jt by (simp add: idle_def sign_request_def) blast
  ultimately show ?thesis by auto
qed

lemma net_answers:
  assumes "tfm_inv ext spm (hsm st)" and "p_svc P = direct_svc b ext junk \<or> p_svc P = tfm_svc spm junk"
    and "sign_request P t k m a" and "idle st" and "takes_all rs (sign_answer ext (hsm st) k m a)"
  shows "\<exists>st'. net_round P (Inr t) rs st = Some (st', sign_answer ext (hsm st) k m a) \<and> hsm st' = hsm st \<and> zero_hashes st' = zero_hashes st \<and>
    buf st' = replicate MAXBUF nul \<and> len st' = int (length (sign_answer ext (hsm st) k m a))"
proof -
  let ?r = "sign_answer ext (hsm st) k m a"
  obtain st1 st2 where h: "receive st t = Some st1" "put_int (buf st1) (len st1) nul = Some (buf st1)" "handle P st1 = Some (0, st2)"
      "len st2 = int (length ?r)" "take (length ?r) (buf st2) = ?r" "length (buf st2) = MAXBUF" "hsm st2 = hsm st" "zero_hashes st2 = zero_hashes st"
    using handle_received [OF assms(1-4)] by blast
  have "send_tcp rs (buf st2) 0 (len st2) = Some (0, ?r)"
    using send_tcp_all [of rs 0 "len st2" "buf st2"] assms(5) h length_sign_answer [of ext "hsm st" k m a] by (simp add: takes_all_def)
  then show ?thesis using h by (simp add: net_round_def recv_tcp_def)
qed

lemma wifi_answers:
  assumes "tfm_inv ext spm (hsm st)" and "p_svc P = direct_svc b ext junk \<or> p_svc P = tfm_svc spm junk"
    and "sign_request P t k m a" and "idle st" and "takes_all rs (sign_answer ext (hsm st) k m a)"
  shows "\<exists>st'. wifi_round P (Inr t) rs st = Some (False, st', sign_answer ext (hsm st) k m a) \<and> hsm st' = hsm st \<and> zero_hashes st' = zero_hashes st"
proof -
  let ?r = "sign_answer ext (hsm st) k m a"
  obtain st1 st2 where h: "receive st t = Some st1" "handle P st1 = Some (0, st2)"
      "len st2 = int (length ?r)" "take (length ?r) (buf st2) = ?r" "length (buf st2) = MAXBUF" "hsm st2 = hsm st" "zero_hashes st2 = zero_hashes st"
    using handle_received [OF assms(1-4)] by blast
  have "wifi_send rs 0 st2 = Some (st2\<lparr>len := 0\<rparr>, ?r)"
    using wifi_send_all [of rs 0 st2] assms(5) h length_sign_answer [of ext "hsm st" k m a] by (simp add: takes_all_def)
  then show ?thesis using h sign_request_length [OF assms(3)] by (simp add: wifi_round_def)
qed

lemma uart_answers:
  assumes "tfm_inv ext spm (hsm st)" and "p_svc P = direct_svc b ext junk \<or> p_svc P = tfm_svc spm junk"
    and "sign_request P t k m a" and "idle st"
  shows "\<exists>st'. uart_round P [t] [length (sign_answer ext (hsm st) k m a)] st = Some (st', sign_answer ext (hsm st) k m a) \<and>
    hsm st' = hsm st \<and> zero_hashes st' = zero_hashes st \<and> idle st'"
proof -
  let ?r = "sign_answer ext (hsm st) k m a"
  obtain st1 st2 where h: "receive st t = Some st1" "handle P st1 = Some (0, st2)" "len st2 = int (length ?r)"
      "take (length ?r) (buf st2) = ?r" "length (buf st2) = MAXBUF" "length (publicKeys (reply st2)) = 10" "hsm st2 = hsm st" "zero_hashes st2 = zero_hashes st"
    using handle_received [OF assms] by blast
  have "uart_send [length ?r] st2 = Some (st2\<lparr>buf := replicate MAXBUF nul, len := 0\<rparr>, ?r)"
    using uart_send_concat [of "[length ?r]" st2] h length_sign_answer [of ext "hsm st" k m a] sign_answer_not_empty [of ext "hsm st" k m a] by simp
  then show ?thesis using h by (simp add: uart_round_def idle_def)
qed

text \<open>C2: The remote signer, from the wire to the wire. A signing request arrives at an idle signer that is linked with the keystore or uses it
  through the partition. Over each of the three transports the signer sends exactly the response, in whatever portions the socket takes it and in
  one portion over the serial line: 404 for an unknown key, and otherwise the signature of the signing root by the stored key. The keys and the zero
  hashes are unchanged.\<close>

theorem remote_signer_signs:
  assumes "tfm_inv ext spm (hsm st)" and "p_svc P = direct_svc b ext junk \<or> p_svc P = tfm_svc spm junk"
    and "sign_request P t k m a" and "idle st" and "takes_all rs (sign_answer ext (hsm st) k m a)"
  shows "(\<exists>st'. net_round P (Inr t) rs st = Some (st', sign_answer ext (hsm st) k m a) \<and> hsm st' = hsm st \<and> zero_hashes st' = zero_hashes st) \<and>
    (\<exists>st'. wifi_round P (Inr t) rs st = Some (False, st', sign_answer ext (hsm st) k m a) \<and> hsm st' = hsm st \<and> zero_hashes st' = zero_hashes st) \<and>
    (\<exists>st'. uart_round P [t] [length (sign_answer ext (hsm st) k m a)] st = Some (st', sign_answer ext (hsm st) k m a) \<and>
      hsm st' = hsm st \<and> zero_hashes st' = zero_hashes st)"
  using net_answers [OF assms] wifi_answers [OF assms] uart_answers [OF assms(1-4)] by metis

section \<open>Sequences of requests\<close>

text \<open>Rounds of the serial line, each with what arrives and what the driver takes.\<close>

primrec uart_session :: "('s, 'j) parts \<Rightarrow> (string list \<times> nat list) list \<Rightarrow> 's signer \<Rightarrow> ('s signer \<times> string list) option" where
  "uart_session P [] st = Some (st, [])"
| "uart_session P (x # xs) st = do {
     (st, out) \<leftarrow> uart_round P (fst x) (snd x) st;
     (st, outs) \<leftarrow> uart_session P xs st;
     Some (st, out # outs)
   }"

text \<open>C16: The serial signer answers every request: a sequence of signing requests, whose responses the driver takes in one portion each, is answered
  request by request, and at its end the signer is idle again with the same keys.\<close>

theorem uart_answers_all:
  assumes "tfm_inv ext spm (hsm st)" and "p_svc P = direct_svc b ext junk \<or> p_svc P = tfm_svc spm junk" and "idle st"
    and "\<forall>(t, k, m, a)\<in>set rqs. sign_request P t k m a"
  shows "\<exists>st'. uart_session P (map (\<lambda>(t, k, m, a). ([t], [length (sign_answer ext (hsm st) k m a)])) rqs) st =
      Some (st', map (\<lambda>(t, k, m, a). sign_answer ext (hsm st) k m a) rqs) \<and> idle st' \<and> hsm st' = hsm st"
  using assms(1,3,4)
proof (induction rqs arbitrary: st)
  case (Cons x rqs)
  obtain t k m a where x: "x = (t, k, m, a)" by (cases x) auto
  then have "sign_request P t k m a" using Cons.prems(3) by simp
  from uart_answers [OF Cons.prems(1) assms(2) this Cons.prems(2)] obtain st1 where
    st1: "uart_round P [t] [length (sign_answer ext (hsm st) k m a)] st = Some (st1, sign_answer ext (hsm st) k m a)" "hsm st1 = hsm st" "idle st1"
    by blast
  from Cons.IH [of st1] Cons.prems st1 obtain st' where
    "uart_session P (map (\<lambda>(t, k, m, a). ([t], [length (sign_answer ext (hsm st) k m a)])) rqs) st1 =
      Some (st', map (\<lambda>(t, k, m, a). sign_answer ext (hsm st) k m a) rqs)" "idle st'" "hsm st' = hsm st"
    by auto
  then show ?case using x st1 by simp
qed simp

lemma net_drops:
  assumes "buf st = replicate MAXBUF nul" and "0 < len st" and "len st + int (length d) < int MAXBUF"
  shows "\<exists>st'. net_round P (Inr d) sends st = Some (st', '''') \<and> len st' = 0 \<and> hsm st' = hsm st"
proof -
  let ?b = "take (nat (len st)) (buf st) @ d @ drop (nat (len st) + length d) (buf st)"
  let ?st = "st\<lparr>buf := ?b[nat (len st + int (length d)) := nul], len := len st + int (length d)\<rparr>"
  have l: "length ?b = MAXBUF" using assms by simp
  have r: "recv_tcp (Inr d) st = Some ?st"
    using assms l by (simp add: recv_tcp_def receive_def c_simps)
  have "hd ?b = nul" "?b \<noteq> []" using assms by (auto simp: hd_append)
  then have "hd (buf ?st) = nul" "buf ?st \<noteq> []"
    using assms(2) by (auto simp: hd_conv_nth nth_list_update)
  then have "take 4 (buf ?st) \<noteq> ''POST''" "take 3 (buf ?st) \<noteq> ''GET''"
    by (cases "buf ?st"; simp)+
  then have "handle P ?st = Some (-1, ?st\<lparr>len := 0\<rparr>)"
    by (simp add: handle_def parseRequest_def check_complete_def)
  then show ?thesis using r by (simp add: net_round_def)
qed

text \<open>C37: The signer on a connection to the bridge loses every second request: after it has answered a signing request, whatever arrives next is
  discarded without an answer, because the length of the response stays in the variable that counts the received characters.\<close>

theorem net_loses_next:
  assumes "tfm_inv ext spm (hsm st)" and "p_svc P = direct_svc b ext junk \<or> p_svc P = tfm_svc spm junk"
    and "sign_request P t k m a" and "idle st" and "takes_all rs (sign_answer ext (hsm st) k m a)"
    and "length (sign_answer ext (hsm st) k m a) + length d < 32768"
  shows "\<exists>st1 st2. net_round P (Inr t) rs st = Some (st1, sign_answer ext (hsm st) k m a) \<and>
    net_round P (Inr d) rs' st1 = Some (st2, '''') \<and> hsm st2 = hsm st"
proof -
  obtain st1 where st1: "net_round P (Inr t) rs st = Some (st1, sign_answer ext (hsm st) k m a)" "hsm st1 = hsm st"
      "buf st1 = replicate MAXBUF nul" "len st1 = int (length (sign_answer ext (hsm st) k m a))"
    using net_answers [OF assms(1-5)] by blast
  have "0 < len st1" using st1(4) sign_answer_not_empty [of ext "hsm st" k m a] by simp
  moreover have "len st1 + int (length d) < int MAXBUF" using st1(4) assms(6) by simp
  ultimately show ?thesis using net_drops [OF st1(3), of d P rs'] st1 by metis
qed

text \<open>A full buffer stops the Wi-Fi server for good: when the buffer is full, \<open>recv\<close> is called with size 0, delivers nothing, and the
  connection is closed with the state unchanged, on every later connection as well.\<close>

theorem wifi_full_stuck:
  assumes "len st = 32768" and "\<forall>d. r = Inr d \<longrightarrow> int (length d) \<le> 32768 - len st"
  shows "wifi_round P r sends st = Some (False, st, '''')"
  using assms by (cases r) (simp_all add: wifi_round_def)

text \<open>A request to import keys, as the header parser reads it.\<close>

definition import_request :: "('s, 'j) parts \<Rightarrow> string \<Rightarrow> string \<Rightarrow> bool" where
  "import_request P t body \<longleftrightarrow> (\<exists>pre n mid rq. post_ok pre n mid \<and> t = post_head pre n mid @ body \<and> nul \<notin> set body \<and> length body = n \<and> 0 < n \<and>
     post_parsed (p_phr P) (p_uninit P) (t @ replicate (MAXBUF - length t) nul) (length t) n rq \<and>
     path_is (t @ replicate (MAXBUF - length t) nul) rq ''/eth/v1/keystores'')"

lemma handle_bad_import:
  assumes rq: "import_request P t (x # body)" and x: "\<not> isOneOfThem x blank" "x \<noteq> CHR ''{''" "x \<noteq> CHR ''[''"
    and st: "buf st = t @ replicate (MAXBUF - length t) nul" "len st = int (length t)"
  shows "\<exists>st'. handle P st = Some (0, st') \<and> len st' = 1 \<and> buf st' = buf st \<and> hsm st' = hsm st"
proof -
  obtain pre n mid r where d: "post_ok pre n mid" "t = post_head pre n mid @ x # body" "nul \<notin> set (x # body)" "length (x # body) = n" "0 < n"
      "post_parsed (p_phr P) (p_uninit P) (buf st) (length t) n r" "path_is (buf st) r ''/eth/v1/keystores''"
    using rq unfolding import_request_def st(1) by blast
  let ?h = "length (post_head pre n mid)"
  let ?rq = "reply st\<lparr>req_json := Some (int ?h), jsonLen := int n, req_method := importKey\<rparr>"
  have len: "length t < 32768" using d(1,4) by (simp add: post_ok_def d(2))
  then obtain j where "32768 - length t = Suc j" by (cases "32768 - length t") auto
  then have b0: "buf st = t @ nul # replicate j nul" using st(1) by simp
  have p: "parseRequest (p_phr P) (p_uninit P) (buf st) (length t) (reply st) = Some (0, buf st, ?rq)"
    using import_request_ok [OF d(1-5), of nul "replicate j nul" "p_phr P" "p_uninit P" r "reply st"] d(6,7) by (simp add: b0)
  have b: "drop ?h (buf st) = x # body @ replicate (MAXBUF - length t) nul" by (simp add: st(1) d(2))
  have "httpImportFromKeystore (ienv (p_import P)) (ibuild (p_import P)) (ikdf (p_import P)) (p_svc P) (row0 (p_uninit P)) (icodes (p_import P))
      (drop ?h (buf st)) (hsm st) = Some (1, drop ?h (buf st), hsm st)"
    by (rule import_no_document [OF b x])
  moreover have "\<not> int (length (buf st)) \<le> int ?h" by (simp add: st(1) d(2))
  ultimately have "dumpHttpResponse (p_web P) (p_import P) (p_svc P) (p_uninit P) (buf st) ?rq (zero_hashes st) (hsm st) =
      Some (1, buf st, ?rq, zero_hashes st, hsm st)"
    by (simp add: dumpHttpResponse_def)
  moreover have "nat (len st mod 2 ^ 32) = length t" using st(2) len by simp
  ultimately show ?thesis using p by (simp add: handle_def Let_def)
qed

text \<open>A request to import keys whose body is no JSON document is answered with the single character P, the first of the request itself: the error
  code 1 of the import is taken for the length of a response in the buffer, which still holds the request.\<close>

theorem import_answers_one_character:
  assumes "import_request P t (x # body)" and "\<not> isOneOfThem x blank" and "x \<noteq> CHR ''{''" and "x \<noteq> CHR ''[''" and "idle st"
  shows "\<exists>st'. net_round P (Inr t) [1] st = Some (st', ''P'') \<and> hsm st' = hsm st"
proof -
  obtain pre n mid where pre: "post_ok pre n mid" "t = post_head pre n mid @ x # body" "length (x # body) = n"
    using assms(1) unfolding import_request_def by blast
  then have len: "length t < MAXBUF" by (simp add: post_ok_def)
  have "take 4 pre = ''POST''" using pre(1) by (simp add: post_ok_def)
  then obtain t' where t': "t = CHR ''P'' # t'" using pre(2) by (cases pre) (auto simp: post_head_def)
  let ?st = "st\<lparr>buf := t @ replicate (MAXBUF - length t) nul, len := int (length t)\<rparr>"
  obtain j where j: "MAXBUF - length t = Suc j" using len by (cases "MAXBUF - length t") auto
  have "receive st t = Some ?st" by (rule receive_fresh) (use assms(5) len in \<open>simp_all add: idle_def\<close>)
  moreover have "put_int (buf ?st) (len ?st) nul = Some (buf ?st)"
    using len by (simp add: c_simps j list_update_append)
  ultimately have r: "recv_tcp (Inr t) st = Some ?st" by (simp add: recv_tcp_def)
  obtain st2 where h: "handle P ?st = Some (0, st2)" "len st2 = 1" "buf st2 = buf ?st" "hsm st2 = hsm st"
    using handle_bad_import [OF assms(1-4), of ?st] by auto
  then have "send_tcp [1] (buf st2) 0 (len st2) = Some (0, ''P'')" by (simp add: t')
  then show ?thesis unfolding net_round_def r using h by (simp del: send_tcp.simps)
qed

section \<open>Everything that can arrive\<close>

text \<open>One round of some transport, with whatever arrives and whatever the transport takes of the response.\<close>

inductive signer_step :: "('s, 'j) parts \<Rightarrow> 's signer \<Rightarrow> 's signer \<Rightarrow> bool" for P where
  net: "net_round P r sends st = Some (st', out) \<Longrightarrow> signer_step P st st'"
| uart: "uart_round P ds fills st = Some (st', out) \<Longrightarrow> signer_step P st st'"
| wifi: "wifi_round P r sends st = Some (goes_on, st', out) \<Longrightarrow> signer_step P st st'"

inductive signer_reaches :: "('s, 'j) parts \<Rightarrow> 's signer \<Rightarrow> 's signer \<Rightarrow> bool" for P where
  start: "signer_reaches P st st"
| step: "signer_reaches P st st' \<Longrightarrow> signer_step P st' st'' \<Longrightarrow> signer_reaches P st st''"

inductive_cases signer_stepE: "signer_step P st st'"

text \<open>What the parts of a round keep is kept on every path.\<close>

locale signer_inv =
  fixes P :: "('s, 'j) parts" and inv :: "'s signer \<Rightarrow> bool"
  assumes len_inv: "inv st \<Longrightarrow> inv (st\<lparr>len := n\<rparr>)"
    and buf_inv: "inv st \<Longrightarrow> length b = length (buf st) \<or> length b = 32768 \<Longrightarrow> inv (st\<lparr>buf := b\<rparr>)"
    and handle_inv: "inv st \<Longrightarrow> handle P st = Some (pr, st') \<Longrightarrow> inv st'"
begin

lemma receive_inv: "inv st \<Longrightarrow> receive st d = Some st' \<Longrightarrow> inv st'"
proof -
  assume i: "inv st" and r: "receive st d = Some st'"
  let ?b = "take (nat (len st)) (buf st) @ d @ drop (nat (len st) + length d) (buf st)"
  have "length ?b = length (buf st)" "st' = st\<lparr>buf := ?b\<rparr>\<lparr>len := len st + int (length d)\<rparr>"
    using r by (auto simp: receive_def split: if_splits)
  then show "inv st'" using len_inv [OF buf_inv [OF i, of ?b]] by simp
qed

lemma recv_tcp_inv: "inv st \<Longrightarrow> recv_tcp r st = Some st' \<Longrightarrow> inv st'"
proof (cases r)
  case (Inr d)
  assume i: "inv st" and r: "recv_tcp r st = Some st'"
  then obtain st1 b where st: "receive st d = Some st1" "length b = length (buf st1)" "st' = st1\<lparr>buf := b\<rparr>"
    by (auto simp: recv_tcp_def put_int_def Inr dest!: length_put split: Option.bind_splits if_splits)
  then show "inv st'" using buf_inv [OF receive_inv [OF i st(1)]] by blast
qed (auto simp: recv_tcp_def intro: len_inv)

lemma uart_receive_inv: "inv st \<Longrightarrow> uart_receive ds st = Some st' \<Longrightarrow> inv st'"
  by (induction ds arbitrary: st) (auto dest: receive_inv split: Option.bind_splits)

lemma uart_send_inv: "inv st \<Longrightarrow> uart_send ks st = Some (st', out) \<Longrightarrow> inv st'"
proof (induction ks arbitrary: st out)
  case (Cons k ks)
  let ?st = "st\<lparr>len := len st - int k\<rparr>"
  have "inv ?st" "inv (?st\<lparr>buf := replicate MAXBUF nul\<rparr>)" using Cons.prems(1) by (blast intro: len_inv buf_inv length_replicate)+
  then show ?case using Cons.prems(2) Cons.IH [of ?st] by (auto simp: Let_def split: if_splits)
qed simp

lemma wifi_send_inv: "inv st \<Longrightarrow> wifi_send rs n st = Some (st', out) \<Longrightarrow> inv st'"
  by (induction rs arbitrary: st n out) (auto simp: Let_def intro: len_inv split: if_splits)

lemma net_round_inv:
  assumes "inv st" and "net_round P r sends st = Some (st', out)"
  shows "inv st'"
proof -
  obtain st1 pr st2 where st: "recv_tcp r st = Some st1" "handle P st1 = Some (pr, st2)"
      "st' = st2 \<or> st' = st2\<lparr>buf := replicate 32768 nul\<rparr>"
    using assms(2) by (auto simp: net_round_def split: Option.bind_splits if_splits)
  have "inv st2" by (rule handle_inv [OF recv_tcp_inv [OF assms(1) st(1)] st(2)])
  then show ?thesis using st(3) buf_inv [of st2 "replicate 32768 nul"] by auto
qed

lemma uart_round_inv:
  assumes "inv st" and "uart_round P ds fills st = Some (st', out)"
  shows "inv st'"
proof -
  obtain st1 pr st2 where st: "uart_receive ds st = Some st1" "handle P st1 = Some (pr, st2)"
      "st' = st2 \<or> uart_send fills st2 = Some (st', out)"
    using assms(2) by (auto simp: uart_round_def split: Option.bind_splits if_splits)
  have "inv st2" by (rule handle_inv [OF uart_receive_inv [OF assms(1) st(1)] st(2)])
  then show ?thesis using st(3) uart_send_inv by blast
qed

lemma wifi_round_inv:
  assumes "inv st" and "wifi_round P r sends st = Some (g, st', out)"
  shows "inv st'"
proof -
  consider "st' = st" | d st1 pr st2 where "receive st d = Some st1" "handle P st1 = Some (pr, st2)"
      "st' = st2 \<or> wifi_send sends 0 st2 = Some (st', out)"
    using assms(2) by (auto simp: wifi_round_def split: sum.splits Option.bind_splits if_splits)
  then show ?thesis
  proof cases
    case 2
    have "inv st2" by (rule handle_inv [OF receive_inv [OF assms(1) 2(1)] 2(2)])
    then show ?thesis using 2(3) wifi_send_inv by blast
  qed (use assms(1) in simp)
qed

lemma reaches_inv: "signer_reaches P st st' \<Longrightarrow> inv st \<Longrightarrow> inv st'"
  by (induction rule: signer_reaches.induct) (auto elim!: signer_stepE dest: net_round_inv uart_round_inv wifi_round_inv)

end

text \<open>The sizes of the arrays of a signer.\<close>

definition signer_shape :: "'s signer \<Rightarrow> bool" where
  "signer_shape st \<longleftrightarrow> length (buf st) = 32768 \<and> length (publicKeys (reply st)) = 10"

lemma bad_reply_simps [simp]:
  "length (buf (bad_reply st)) = 32768" "reply (bad_reply st) = reply st" "hsm (bad_reply st) = hsm st"
  by (simp_all add: bad_reply_def badRequest_def crlf_def)

lemma handle_shape: "signer_shape st \<Longrightarrow> handle P st = Some (pr, st') \<Longrightarrow> signer_shape st'"
  by (auto simp: handle_def signer_shape_def Let_def dest!: parseRequest_shape dumpHttpResponse_shape split: Option.bind_splits if_splits)

interpretation shape: signer_inv P signer_shape for P :: "('s, 'j) parts"
proof unfold_locales
  show "signer_shape st'" if "signer_shape st" "handle P st = Some (pr, st')" for st pr st' using handle_shape [OF that] .
qed (auto simp: signer_shape_def)



section \<open>The keys behind the network\<close>

text \<open>A signer that is linked with the keystore or uses it through the partition, with a hash of 32 bytes.\<close>

definition linked :: "'p ext \<Rightarrow> ('p hsm, 'j) parts \<Rightarrow> bool" where
  "linked ext P \<longleftrightarrow> hash_sizes (ikdf (p_import P)) \<and>
     ((\<exists>b junk. p_svc P = direct_svc b ext junk) \<or> (\<exists>spm junk. p_svc P = tfm_svc spm junk \<and> spm_delivers ext spm))"

lemma dump_keeps_keys:
  assumes "linked ext P" and "dumpHttpResponse w (p_import P) (p_svc P) ui buffer rq zh s = Some (n, buffer', rq', zh', s')"
  shows "s' = s"
  using assms direct_reading.dumpHttpResponse_keeps [OF TrueI] tfm_reading.dumpHttpResponse_keeps
  unfolding linked_def by metis

definition keys_are :: "'p ext \<Rightarrow> ('p hsm, 'j) parts \<Rightarrow> 'p hsm \<Rightarrow> 'p hsm signer \<Rightarrow> bool" where
  "keys_are ext P k st \<longleftrightarrow> linked ext P \<longrightarrow> hsm st = k"

lemma handle_keeps_keys:
  assumes "linked ext P" and "handle P st = Some (pr, st')"
  shows "hsm st' = hsm st"
  using assms(2) by (auto simp: handle_def Let_def dest!: dump_keeps_keys [OF assms(1)] split: Option.bind_splits if_splits)

interpretation keys: signer_inv P "keys_are ext P k" for ext k and P :: "('p hsm, 'j) parts"
proof unfold_locales
  show "keys_are ext P k st'" if "keys_are ext P k st" "handle P st = Some (pr, st')" for st pr st'
    using handle_keeps_keys [OF _ that(2)] that(1) unfolding keys_are_def by metis
qed (auto simp: keys_are_def)


section \<open>A signer with one key\<close>

definition demo_parts :: "((nat \<Rightarrow> bytes option) hsm, json) parts" where
  "demo_parts = \<lparr>p_phr = \<lambda>_ _ _. demo_phr, p_uninit = demo_uninit, p_web = demo_web demo_sign_doc, p_import = demo_ctx,
     p_svc = tfm_svc demo_spm (\<lambda>_. 0)\<rparr>"

definition demo_signer :: "(nat \<Rightarrow> bytes option) hsm signer" where
  "demo_signer = \<lparr>buf = replicate 32768 nul, len = 0, reply = demo_req, zero_hashes = demo_zeros, hsm = demo_hsm1 (replicate 32 7)\<rparr>"

definition demo_post :: string where
  "demo_post = post_head demo_pre 2 [] @ ''{}''"

definition demo_answer :: string where
  "demo_answer = http_ok ''text/plain'' (sign_body 0 (key_signature demo_ext (demo_hsm1 (replicate 32 7)) 0 (replicate 32 2)))"

lemma demo_sign_request: "sign_request demo_parts demo_post demo_key (hexstr (replicate 32 2)) 0"
proof -
  have pre: "post_head demo_pre 2 [] = ''POST '' @ signRequestStr @ demo_key @ '' HTTP/1.1'' @ crlf @ content_length @ dec 2 @ crlf @ crlf"
    by (simp add: post_head_def demo_pre_def)
  have d: "drop (path_off demo_phr + 20) demo_post = demo_key @ '' HTTP/1.1'' @ crlf @ content_length @ dec 2 @ crlf @ crlf @ ''{}''"
    unfolding demo_post_def pre by (simp add: demo_phr_def signRequestStr_def)
  then have key: "demo_key = take 96 (drop (path_off demo_phr + 20) demo_post)" by (simp add: demo_key(1))
  have "path_off demo_phr + 116 \<le> length demo_post"
    unfolding demo_post_def pre by (simp add: demo_phr_def signRequestStr_def demo_key(1) crlf_def)
  moreover have "getAcceptOptions (headers demo_phr) = 0" by (simp add: getAcceptOptions_def scan_headers_def demo_phr_def)
  moreover have "list_all is_hex (hexstr (replicate 32 2))" by (simp add: list_all_iff is_hex_hexstr)
  ultimately show ?thesis
    using demo_post_ok demo_parsed key demo_key(2) demo_root_is [of "Some ''{}''"]
    unfolding sign_request_def sign_request_on_def demo_parts_def demo_post_def demo_mem_def
    by (intro exI [of _ demo_pre] exI [of _ 2] exI [of _ "[]"] exI [of _ "''{}''"] exI [of _ demo_phr]) simp
qed

lemma demo_sign_answer: "sign_answer demo_ext (hsm demo_signer) demo_key (hexstr (replicate 32 2)) 0 = demo_answer"
  by (simp add: sign_answer_def demo_signer_def demo_answer_def demo_texts demo_key(3) sign_ctype_def hexbytes_hexstr find_text_def)

lemma demo_idle: "idle demo_signer" "tfm_inv demo_ext demo_spm (hsm demo_signer)"
  by (simp_all add: idle_def demo_signer_def demo_req_def demo_tfm_inv)

lemma demo_svc: "p_svc demo_parts = direct_svc Native demo_ext (\<lambda>_. 0) \<or> p_svc demo_parts = tfm_svc demo_spm (\<lambda>_. 0)"
  by (simp add: demo_parts_def)

definition demo_import_pre :: string where
  "demo_import_pre = ''POST /eth/v1/keystores HTTP/1.1'' @ crlf"

definition demo_import_phr :: phr_result where
  "demo_import_phr = \<lparr>requestLen = 53, phr_method = ''POST'', path_off = 5, path_len = 17,
     headers = [\<lparr>hname = Some ''Content-Length'', hvalue = ''2''\<rparr>]\<rparr>"

lemma demo_import_ok: "post_ok demo_import_pre 2 []"
proof -
  have "dec 2 = ''2''" by code_simp
  moreover have "CHR ''C'' \<notin> set demo_import_pre" by code_simp
  then have "first_in demo_import_pre content_length" by (rule first_in_hd) (simp add: content_length_def)
  moreover have "CHR 0x0D \<notin> set (content_length @ ''2'')" by code_simp
  then have "first_in (content_length @ ''2'') (crlf @ crlf)" by (rule first_in_hd) (simp add: crlf_def)
  ultimately show ?thesis by (simp add: post_ok_def post_head_def demo_import_pre_def content_length_def crlf_def)
qed

lemma demo_import_request:
  "import_request (demo_parts\<lparr>p_phr := \<lambda>_ _ _. demo_import_phr\<rparr>) (post_head demo_import_pre 2 [] @ ''no'') ''no''"
proof -
  have "dec 2 = ''2''" by code_simp
  then show ?thesis
    using demo_import_ok
    unfolding import_request_def
    by (intro exI [of _ demo_import_pre] exI [of _ 2] exI [of _ "[]"] exI [of _ demo_import_phr])
      (auto simp: post_parsed_def path_is_def path_starts_def demo_import_phr_def demo_parts_def post_head_def demo_import_pre_def intro!: exI [of _ "[]"])
qed

theorem signer_start_overflows_witness:
  "signer_start demo_H demo_spm (demo_signer\<lparr>zero_hashes := replicate 64 []\<rparr>) = None"
  by (rule signer_start_overflows) simp

theorem uart_send_restarts_witness:
  "uart_send [2, 1] (demo_signer\<lparr>buf := ''abc'' @ replicate 32765 nul, len := 3\<rparr>) =
    Some (demo_signer\<lparr>buf := replicate 32768 nul, len := 0\<rparr>, ''aba'')"
  using uart_send_restarts [of "[2, 1]" "demo_signer\<lparr>buf := ''abc'' @ replicate 32765 nul, len := 3\<rparr>"]
  by (simp add: numeral_2_eq_2 demo_signer_def)

lemma demo_takes: "takes_all [int (length demo_answer)] (sign_answer demo_ext (hsm demo_signer) demo_key (hexstr (replicate 32 2)) 0)"
  by (simp add: demo_sign_answer takes_all_def demo_answer_def http_ok_def)

theorem remote_signer_signs_witness:
  "(\<exists>st'. net_round demo_parts (Inr demo_post) [int (length demo_answer)] demo_signer = Some (st', demo_answer) \<and> hsm st' = hsm demo_signer) \<and>
   (\<exists>st'. wifi_round demo_parts (Inr demo_post) [int (length demo_answer)] demo_signer = Some (False, st', demo_answer) \<and> hsm st' = hsm demo_signer) \<and>
   (\<exists>st'. uart_round demo_parts [demo_post] [length demo_answer] demo_signer = Some (st', demo_answer) \<and> hsm st' = hsm demo_signer)"
  using remote_signer_signs [OF demo_idle(2) demo_svc demo_sign_request demo_idle(1) demo_takes] unfolding demo_sign_answer by blast

theorem uart_answers_all_witness:
  "\<exists>st'. uart_session demo_parts [([demo_post], [length demo_answer]), ([demo_post], [length demo_answer])] demo_signer =
    Some (st', [demo_answer, demo_answer]) \<and> idle st' \<and> hsm st' = hsm demo_signer"
proof -
  let ?rq = "(demo_post, demo_key, hexstr (replicate 32 2), 0 :: int)"
  have "\<forall>(t, k, m, a)\<in>set [?rq, ?rq]. sign_request demo_parts t k m a" using demo_sign_request by simp
  from uart_answers_all [OF demo_idle(2) demo_svc demo_idle(1) this] show ?thesis by (simp add: demo_sign_answer)
qed

lemma demo_lengths: "length demo_post < 1000" "length demo_answer < 1000"
  by code_simp+

theorem net_loses_next_witness:
  "\<exists>st1 st2. net_round demo_parts (Inr demo_post) [int (length demo_answer)] demo_signer = Some (st1, demo_answer) \<and>
    net_round demo_parts (Inr demo_post) [] st1 = Some (st2, '''') \<and> hsm st2 = hsm demo_signer"
  using net_loses_next [OF demo_idle(2) demo_svc demo_sign_request demo_idle(1) demo_takes, of demo_post "[]"] demo_lengths
  unfolding demo_sign_answer by simp

theorem wifi_full_stuck_witness:
  "wifi_round demo_parts (Inr []) [] (demo_signer\<lparr>len := 32768\<rparr>) = Some (False, demo_signer\<lparr>len := 32768\<rparr>, '''')"
  by (rule wifi_full_stuck) simp_all

theorem import_answers_one_character_witness:
  "\<exists>st'. net_round (demo_parts\<lparr>p_phr := \<lambda>_ _ _. demo_import_phr\<rparr>) (Inr (post_head demo_import_pre 2 [] @ ''no'')) [1] demo_signer = Some (st', ''P'') \<and>
    hsm st' = hsm demo_signer"
  by (rule import_answers_one_character [OF demo_import_request]) (simp_all add: isOneOfThem_def blank_def demo_idle)

lemma demo_reaches: "\<exists>st'. signer_reaches demo_parts demo_signer st' \<and> 0 < len st'"
proof -
  have "takes_all [int (length demo_answer)] (sign_answer demo_ext (hsm demo_signer) demo_key (hexstr (replicate 32 2)) 0)" by (rule demo_takes)
  from net_answers [OF demo_idle(2) demo_svc demo_sign_request demo_idle(1) this] obtain st' where
    "net_round demo_parts (Inr demo_post) [int (length demo_answer)] demo_signer = Some (st', demo_answer)" "len st' = int (length demo_answer)"
    unfolding demo_sign_answer by blast
  moreover have "0 < length demo_answer" by (simp add: demo_answer_def http_ok_def)
  ultimately show ?thesis using signer_reaches.step [OF signer_reaches.start signer_step.net] by fastforce
qed



end
