(* ===== verification/Wifi_Server.thy ===== *)
theory Wifi_Server
  imports Remote_Signer
begin

text \<open>
  The server of \<^verbatim>\<open>src/remote-signer-7002/src/main.c\<close>: connections, one after the other, each a sequence of rounds of the receiving loop
  (\<open>wifi_round\<close> of \<open>Remote_Signer\<close>). The buffer and the number of characters in it are globals: nothing clears them between two connections. So the theorems
  are about buffers that hold, behind the received characters, whatever earlier requests and responses left there.
\<close>

section \<open>Connections and the server\<close>

text \<open>A connection: what every \<open>recv\<close> delivers, with the counts of the \<open>send\<close> calls of its round, until a round ends the connection. When the list is used
  up, \<open>recv\<close> has not returned.\<close>

primrec wifi_connection :: "('s, 'j) parts \<Rightarrow> ((int + string) \<times> int list) list \<Rightarrow> 's signer \<Rightarrow> ('s signer \<times> string) option" where
  "wifi_connection P [] st = None"
| "wifi_connection P (x # xs) st = do {
     (goes_on, st, out) \<leftarrow> wifi_round P (fst x) (snd x) st;
     if goes_on then do { (st, outs) \<leftarrow> wifi_connection P xs st; Some (st, out @ outs) }
     else Some (st, out)
   }"

text \<open>The endless loop, over the results of \<open>accept\<close>: an error, or a client. The results are the state in which the server waits for the next client, and
  what each of them was sent.\<close>

primrec wifi_server :: "('s, 'j) parts \<Rightarrow> (int + ((int + string) \<times> int list) list) list \<Rightarrow> 's signer \<Rightarrow> ('s signer \<times> string list) option" where
  "wifi_server P [] st = Some (st, [])"
| "wifi_server P (c # cs) st = (case c of
     Inl err \<Rightarrow> wifi_server P cs st
   | Inr rounds \<Rightarrow> do {
       (st, out) \<leftarrow> wifi_connection P rounds st;
       (st, outs) \<leftarrow> wifi_server P cs st;
       Some (st, out # outs)
     })"

section \<open>What the server keeps\<close>

text \<open>A connection is a path of the step relation, so that what \<open>signer_inv\<close> shows of all paths holds of the server.\<close>

lemma signer_reaches_trans: "signer_reaches P st1 st2 \<Longrightarrow> signer_reaches P st st1 \<Longrightarrow> signer_reaches P st st2"
  by (induction rule: signer_reaches.induct) (auto intro: signer_reaches.step)

lemma wifi_round_reaches: "wifi_round P r sends st = Some (g, st', out) \<Longrightarrow> signer_reaches P st st'"
  by (rule signer_reaches.step [OF signer_reaches.start signer_step.wifi])

lemma wifi_connection_reaches: "wifi_connection P xs st = Some (st', out) \<Longrightarrow> signer_reaches P st st'"
proof (induction xs arbitrary: st out)
  case (Cons x xs)
  then obtain g st1 o1 where r: "wifi_round P (fst x) (snd x) st = Some (g, st1, o1)" by (auto split: Option.bind_splits)
  show ?case
  proof (cases g)
    case True
    then obtain o2 where "wifi_connection P xs st1 = Some (st', o2)" using Cons.prems r by (auto split: Option.bind_splits)
    from signer_reaches_trans [OF Cons.IH [OF this] wifi_round_reaches [OF r]] show ?thesis .
  qed (use Cons.prems r wifi_round_reaches [OF r] in simp)
qed simp

lemma wifi_server_reaches: "wifi_server P cs st = Some (st', outs) \<Longrightarrow> signer_reaches P st st'"
proof (induction cs arbitrary: st outs)
  case (Cons c cs)
  show ?case
  proof (cases c)
    case (Inr rounds)
    then obtain st1 o1 o2 where "wifi_connection P rounds st = Some (st1, o1)" "wifi_server P cs st1 = Some (st', o2)"
      using Cons.prems by (auto split: Option.bind_splits)
    with Cons.IH show ?thesis by (blast intro: signer_reaches_trans wifi_connection_reaches)
  qed (use Cons in simp)
qed (simp add: signer_reaches.start)

text \<open>No sequence of clients changes the keystore or the sizes of the arrays.\<close>

theorem wifi_server_keeps:
  assumes "wifi_server P cs st = Some (st', outs)"
  shows "(linked ext P \<longrightarrow> hsm st' = hsm st) \<and> (signer_shape st \<longrightarrow> signer_shape st')"
  using keys.reaches_inv [OF wifi_server_reaches [OF assms], of ext "hsm st"] shape.reaches_inv [OF wifi_server_reaches [OF assms]]
  by (simp add: keys_are_def)

section \<open>A buffer that is not cleared\<close>

text \<open>The first characters of the buffer are \<open>s\<close>, received and not yet answered. Behind them is anything; the last character is a terminator.\<close>

definition holding :: "string \<Rightarrow> 's signer \<Rightarrow> bool" where
  "holding s st \<longleftrightarrow> (\<exists>rest. buf st = s @ rest \<and> rest \<noteq> [] \<and> last rest = nul) \<and> length (buf st) = 32768 \<and> len st = int (length s) \<and>
     length (publicKeys (reply st)) = 10"

lemma idle_holding: "idle st \<Longrightarrow> holding [] st"
  by (simp add: idle_def holding_def)

text \<open>What picohttpparser promises: the result depends only on the characters it is given.\<close>

definition phr_local :: "phr \<Rightarrow> bool" where
  "phr_local phr \<longleftrightarrow> (\<forall>b b' n h. take n b = take n b' \<longrightarrow> phr b n h = phr b' n h)"

lemma sign_request_anywhere:
  assumes "phr_local (p_phr P)" and "sign_request P t k m a"
  shows "sign_request_on P (t @ nul # rest) t k m a"
proof -
  let ?b = "t @ replicate (MAXBUF - length t) nul" and ?b' = "t @ nul # rest"
  obtain pre n mid body r where d: "post_ok pre n mid" "t = post_head pre n mid @ body" "nul \<notin> set body" "length body = n" "0 < n"
      "sign_parsed (p_phr P) (p_uninit P) ?b (length t) n r" "path_off r + 116 \<le> length t"
      "k = take 96 (drop (path_off r + 20) t)" "list_all is_hex k" "root_is (p_web P) (Some body) m" "length m = 64" "list_all is_hex m"
      "a = getAcceptOptions (headers r)"
    using assms(2) unfolding sign_request_def sign_request_on_def by metis
  have "take (length t) ?b = take (length t) ?b'" by simp
  then have "p_phr P ?b (length t) (numHeaders0 (p_uninit P)) = p_phr P ?b' (length t) (numHeaders0 (p_uninit P))"
    using assms(1) unfolding phr_local_def by blast
  moreover have "path_starts ?b r signRequestStr \<longleftrightarrow> path_starts ?b' r signRequestStr"
    using d(7) by (simp add: path_starts_def signRequestStr_def)
  ultimately have "sign_parsed (p_phr P) (p_uninit P) ?b' (length t) n r" using d(6) by (simp add: sign_parsed_def post_parsed_def)
  with d show ?thesis unfolding sign_request_on_def by blast
qed

lemma receive_holding:
  assumes "holding s st" and "length s + length d < 32768"
  shows "\<exists>st'. receive st d = Some st' \<and> holding (s @ d) st' \<and> hsm st' = hsm st \<and> zero_hashes st' = zero_hashes st"
proof -
  obtain rest where b: "buf st = s @ rest" "rest \<noteq> []" "last rest = nul" "len st = int (length s)" "length (buf st) = 32768"
      "length (publicKeys (reply st)) = 10"
    using assms(1) by (auto simp: holding_def)
  have "length d < length rest" using assms(2) b(1,5) by simp
  then have "drop (length d) rest \<noteq> []" "last (drop (length d) rest) = nul" using b(3) by simp_all
  then show ?thesis using b \<open>length d < length rest\<close> by (auto simp: receive_def holding_def)
qed

text \<open>The first characters of a request have its headers: the rest is a part of the body.\<close>

definition has_head :: "string \<Rightarrow> string \<Rightarrow> bool" where
  "has_head s t \<longleftrightarrow> (\<exists>pre n mid body. post_ok pre n mid \<and> t = post_head pre n mid @ body \<and> nul \<notin> set body \<and> length body = n \<and>
     length (post_head pre n mid) \<le> length s)"

lemma has_head_length: "has_head s t \<Longrightarrow> length t < 32768"
  by (auto simp: has_head_def post_ok_def)

lemma has_head_longer: "has_head s t \<Longrightarrow> length s \<le> length s' \<Longrightarrow> has_head s' t"
  unfolding has_head_def using le_trans by blast

lemma handle_waits:
  assumes "holding s st" and "has_head s (s @ d)" and "d \<noteq> []"
  shows "handle P st = Some (-2, st)"
proof -
  obtain pre n mid body where h: "post_ok pre n mid" "s @ d = post_head pre n mid @ body" "nul \<notin> set body" "length body = n"
      "length (post_head pre n mid) \<le> length s"
    using assms(2) by (auto simp: has_head_def)
  let ?h = "post_head pre n mid"
  have "take (length ?h) (s @ d) = ?h" unfolding h(2) by simp
  then obtain part where s: "s = ?h @ part" using h(5) by (metis append_take_drop_id take_append take_0 diff_is_0_eq append_Nil2)
  then have part: "body = part @ d" using h(2) by simp
  have "length (?h @ body) < 32768" using h(1,4) by (simp add: post_ok_def)
  then have l: "length s < 32768" "length part < n" using assms(3) h(4) part by (auto simp: s)
  obtain rest where b: "buf st = s @ rest" "rest \<noteq> []" "last rest = nul" "len st = int (length s)" using assms(1) by (auto simp: holding_def)
  have "nul \<in> set rest" using b(2,3) last_in_set by fastforce
  then have "check_complete (buf st) (length s) = Some (Some (-2))"
    using check_complete_stale [OF h(1) s _ l(1)] h(3) l(2) by (simp add: b(1) part)
  moreover have "nat (len st mod 2 ^ 32) = length s" using b(4) l(1) by simp
  ultimately show ?thesis by (simp add: handle_def parseRequest_def)
qed

lemma wifi_waits:
  assumes "holding s st" and "has_head (s @ d) (s @ d @ d')" and "d \<noteq> []" and "d' \<noteq> []"
  shows "\<exists>st'. wifi_round P (Inr d) rs st = Some (True, st', '''') \<and> holding (s @ d) st' \<and> hsm st' = hsm st"
proof -
  have "length (s @ d @ d') < 32768" by (rule has_head_length [OF assms(2)])
  then obtain st1 where st1: "receive st d = Some st1" "holding (s @ d) st1" "hsm st1 = hsm st"
    using receive_holding [OF assms(1), of d] by auto
  then have "handle P st1 = Some (-2, st1)" using handle_waits [of "s @ d" st1 d' P] assms by simp
  then show ?thesis using st1 assms(3) by (simp add: wifi_round_def)
qed

lemma wifi_completes:
  assumes inv: "tfm_inv ext spm (hsm st)" and svc: "p_svc P = direct_svc b ext junk \<or> p_svc P = tfm_svc spm junk"
    and phr: "phr_local (p_phr P)" and rq: "sign_request P (s @ d) k m a" and st: "holding s st" and d: "d \<noteq> []"
    and rs: "takes_all rs (sign_answer ext (hsm st) k m a)"
  shows "\<exists>st'. wifi_round P (Inr d) rs st = Some (False, st', sign_answer ext (hsm st) k m a) \<and> holding [] st' \<and> hsm st' = hsm st"
proof -
  let ?r = "sign_answer ext (hsm st) k m a" and ?t = "s @ d"
  have lt: "length ?t < 32768" using sign_request_length [OF rq] by blast
  then obtain st1 where st1: "receive st d = Some st1" "holding ?t st1" "hsm st1 = hsm st" using receive_holding [OF st, of d] by auto
  obtain c rest where b: "buf st1 = ?t @ c # rest" "last (c # rest) = nul" "length (buf st1) = 32768" "len st1 = int (length ?t)"
      "length (publicKeys (reply st1)) = 10"
    using st1(2) unfolding holding_def by (metis list.exhaust)
  have n: "nul \<in> set (c # rest)" using b(2) last_in_set [of "c # rest"] by simp
  obtain st2 where h: "handle P st1 = Some (0, st2)" "len st2 = int (length ?r)" "take (length ?r) (buf st2) = ?r" "length (buf st2) = 32768"
      "drop (Suc (length ?r)) (buf st2) = drop (Suc (length ?r)) (?t @ nul # rest)" "length (publicKeys (reply st2)) = 10" "hsm st2 = hsm st"
    using handle_sign [OF _ svc sign_request_anywhere [OF phr rq, of rest] b(5,1,4,3) n] inv st1(3) by auto
  have lr: "Suc (length ?r) < 32768" by (rule length_sign_answer)
  have "last (buf st2) = last (drop (Suc (length ?r)) (buf st2))" using h(4) lr by (simp add: last_drop)
  also have "\<dots> = last (?t @ nul # rest)" unfolding h(5) using b(1,3) lr by (intro last_drop) simp
  also have "\<dots> = nul" using b(2) by (cases rest) simp_all
  finally have "holding [] (st2\<lparr>len := 0\<rparr>)" using h(4,6) by (auto simp: holding_def)
  moreover have "wifi_send rs 0 st2 = Some (st2\<lparr>len := 0\<rparr>, ?r)"
    using wifi_send_all [of rs 0 st2] rs h lr by (simp add: takes_all_def)
  ultimately show ?thesis using st1(1) h d by (simp add: wifi_round_def)
qed

section \<open>The server answers\<close>

text \<open>A request in pieces: the first of them has the headers.\<close>

definition pieces :: "string list \<Rightarrow> string \<Rightarrow> bool" where
  "pieces ds t \<longleftrightarrow> ds \<noteq> [] \<and> [] \<notin> set ds \<and> concat ds = t \<and> has_head (hd ds) t"

lemma wifi_connection_answers:
  assumes svc: "p_svc P = direct_svc b ext junk \<or> p_svc P = tfm_svc spm junk" and phr: "phr_local (p_phr P)" and rq: "sign_request P t k m a"
  shows "tfm_inv ext spm (hsm st) \<Longrightarrow> holding s st \<Longrightarrow> ds \<noteq> [] \<Longrightarrow> [] \<notin> set ds \<Longrightarrow> s @ concat ds = t \<Longrightarrow> has_head (s @ hd ds) t \<Longrightarrow>
    takes_all rs (sign_answer ext (hsm st) k m a) \<Longrightarrow>
    \<exists>st'. wifi_connection P (map (\<lambda>d. (Inr d, rs)) ds) st = Some (st', sign_answer ext (hsm st) k m a) \<and> holding [] st' \<and> hsm st' = hsm st"
proof (induction ds arbitrary: s st)
  case (Cons d ds)
  show ?case
  proof (cases "ds = []")
    case True
    then show ?thesis using wifi_completes [OF Cons.prems(1) svc phr, of s d k m a rs] rq Cons.prems by fastforce
  next
    case False
    have ne: "d \<noteq> []" "concat ds \<noteq> []" using Cons.prems(4) False by (cases ds; auto)+
    obtain st1 where st1: "wifi_round P (Inr d) rs st = Some (True, st1, '''')" "holding (s @ d) st1" "hsm st1 = hsm st"
      using wifi_waits [OF Cons.prems(2) _ ne, of P rs] Cons.prems(5,6) by fastforce
    have "has_head ((s @ d) @ hd ds) t" by (rule has_head_longer [OF Cons.prems(6)]) simp
    with Cons.IH [of st1 "s @ d"] st1 Cons.prems False obtain st' where
      "wifi_connection P (map (\<lambda>d. (Inr d, rs)) ds) st1 = Some (st', sign_answer ext (hsm st) k m a)" "holding [] st'" "hsm st' = hsm st"
      by auto
    then show ?thesis using st1(1) by simp
  qed
qed simp

text \<open>A client that can be served, or a failure of \<open>accept\<close>: the request with the key, the signing root and the accepted type, how it arrives, and how the client
  takes the response. What the server sees of it, and the response it expects.\<close>

type_synonym client = "int + string \<times> string \<times> string \<times> int \<times> string list \<times> int list"

fun client_ok :: "('p hsm, 'j) parts \<Rightarrow> 'p ext \<Rightarrow> 'p hsm \<Rightarrow> client \<Rightarrow> bool" where
  "client_ok P ext h (Inl e) = True"
| "client_ok P ext h (Inr (t, k, m, a, ds, rs)) \<longleftrightarrow> sign_request P t k m a \<and> pieces ds t \<and> takes_all rs (sign_answer ext h k m a)"

fun client_rounds :: "client \<Rightarrow> int + ((int + string) \<times> int list) list" where
  "client_rounds (Inl e) = Inl e"
| "client_rounds (Inr (t, k, m, a, ds, rs)) = Inr (map (\<lambda>d. (Inr d, rs)) ds)"

fun client_answer :: "'p ext \<Rightarrow> 'p hsm \<Rightarrow> client \<Rightarrow> string list" where
  "client_answer ext h (Inl e) = []"
| "client_answer ext h (Inr (t, k, m, a, ds, rs)) = [sign_answer ext h k m a]"

text \<open>C5: The Wi-Fi server answers all of its clients. Every client sends one signing request, in pieces of which the first has the headers, and takes the
  response in portions; between the clients \<open>accept\<close> may fail any number of times. Although nothing clears the buffer, each client is sent exactly the response to its own
  request, and at the end the server is ready for the next one with the same keys.\<close>

theorem wifi_server_answers:
  assumes "tfm_inv ext spm (hsm st)" and "p_svc P = direct_svc b ext junk \<or> p_svc P = tfm_svc spm junk" and "phr_local (p_phr P)" and "holding [] st"
    and "\<forall>c\<in>set cs. client_ok P ext (hsm st) c"
  shows "\<exists>st'. wifi_server P (map client_rounds cs) st = Some (st', concat (map (client_answer ext (hsm st)) cs)) \<and> holding [] st' \<and> hsm st' = hsm st"
  using assms(1,4,5)
proof (induction cs arbitrary: st)
  case (Cons c cs)
  show ?case
  proof (cases c)
    case (Inl e)
    then show ?thesis using Cons by simp
  next
    case (Inr x)
    obtain t k m a ds rs where x: "x = (t, k, m, a, ds, rs)" by (cases x) auto
    have rq: "sign_request P t k m a" "pieces ds t" "takes_all rs (sign_answer ext (hsm st) k m a)" using Cons.prems(3) Inr x by auto
    then obtain st1 where st1: "wifi_connection P (map (\<lambda>d. (Inr d, rs)) ds) st = Some (st1, sign_answer ext (hsm st) k m a)" "holding [] st1" "hsm st1 = hsm st"
      using wifi_connection_answers [OF assms(2,3) rq(1) Cons.prems(1,2), of ds rs] by (auto simp: pieces_def)
    have "\<exists>st'. wifi_server P (map client_rounds cs) st1 = Some (st', concat (map (client_answer ext (hsm st)) cs)) \<and> holding [] st' \<and> hsm st' = hsm st"
      using Cons.IH [of st1] Cons.prems st1 by simp
    then show ?thesis using Inr x st1(1) by auto
  qed
qed simp

section \<open>Clients that share a buffer\<close>

text \<open>C35: What a client leaves behind is taken for the start of the next client's request. The first client sends the start \<open>d\<close> of a request with its headers
  and goes away; the second one sends \<open>d'\<close>. It is sent the response to the request \<open>d @ d'\<close>, which neither of them made, and the first client nothing.\<close>

theorem wifi_joins_clients:
  assumes "tfm_inv ext spm (hsm st)" and "p_svc P = direct_svc b ext junk \<or> p_svc P = tfm_svc spm junk" and "phr_local (p_phr P)" and "holding [] st"
    and "sign_request P (d @ d') k m a" and "has_head d (d @ d')" and "d \<noteq> []" and "d' \<noteq> []"
    and "takes_all rs (sign_answer ext (hsm st) k m a)" and "gone = Inr [] \<or> (\<exists>e. gone = Inl e)"
  shows "\<exists>st'. wifi_server P [Inr [(Inr d, rs1), (gone, rs2)], Inr [(Inr d', rs)]] st = Some (st', ['''', sign_answer ext (hsm st) k m a]) \<and>
    holding [] st' \<and> hsm st' = hsm st"
proof -
  obtain st1 where st1: "wifi_round P (Inr d) rs1 st = Some (True, st1, '''')" "holding d st1" "hsm st1 = hsm st"
    using wifi_waits [OF assms(4), of d d' P rs1] assms(6-8) by auto
  have "wifi_round P gone rs2 st1 = Some (False, st1, '''')" using assms(10) by (auto simp: wifi_round_def)
  moreover obtain st2 where "wifi_round P (Inr d') rs st1 = Some (False, st2, sign_answer ext (hsm st) k m a)" "holding [] st2" "hsm st2 = hsm st"
    using wifi_completes [OF _ assms(2,3,5) st1(2) assms(8), of rs] st1(3) assms(1,9) by auto
  ultimately show ?thesis using st1(1) by simp
qed

text \<open>A full buffer stops the server: \<open>recv\<close> is called with no room, delivers nothing, and every later connection is closed without an answer.\<close>

theorem wifi_server_stuck:
  assumes "len st = 32768" and "\<forall>rounds. Inr rounds \<in> set cs \<longrightarrow> (\<exists>r rs more. rounds = (r, rs) # more \<and> (\<forall>d. r = Inr d \<longrightarrow> int (length d) \<le> 32768 - len st))"
  shows "\<exists>outs. wifi_server P cs st = Some (st, outs) \<and> set outs \<subseteq> {''''}"
  using assms(2)
proof (induction cs)
  case (Cons c cs)
  then obtain outs where outs: "wifi_server P cs st = Some (st, outs)" "set outs \<subseteq> {''''}" by auto
  show ?case
  proof (cases c)
    case (Inr rounds)
    then obtain r rs more where r: "rounds = (r, rs) # more" "\<forall>d. r = Inr d \<longrightarrow> int (length d) \<le> 32768 - len st" using Cons.prems by auto
    show ?thesis using outs wifi_full_stuck [OF assms(1) r(2), of P rs] Inr r(1) by simp
  qed (use outs in simp)
qed simp

section \<open>The server from power-on\<close>

text \<open>The globals of the 7002 application when it starts. Its build has no secure partition, and \<open>main\<close> calls neither \<open>tfm_init\<close> nor \<open>InitZeroHashes\<close>; \<open>reply\<close> is
  not initialised.\<close>

definition wifi_boot :: "boardRequest \<Rightarrow> 'p \<Rightarrow> 'p hsm signer" where
  "wifi_boot rp p = \<lparr>buf = replicate 32768 nul, len = 0, reply = rp, zero_hashes = replicate 64 (replicate 32 0), hsm = hsm_boot p\<rparr>"

lemma boot_keys: "hsm_keys (hsm_boot p) = []"
  by (simp add: hsm_keys_def hsm_boot_def)


section \<open>Two clients of a signer with one key\<close>

lemma demo_local: "phr_local (p_phr demo_parts)"
  by (simp add: phr_local_def demo_parts_def)

lemma demo_head: "has_head (post_head demo_pre 2 [] @ s) demo_post"
  unfolding has_head_def demo_post_def using demo_post_ok by (intro exI [of _ demo_pre] exI [of _ 2] exI [of _ "[]"] exI [of _ "''{}''"]) simp

lemma demo_holding: "holding [] demo_signer"
  by (rule idle_holding) (rule demo_idle)

theorem wifi_server_answers_witness:
  "\<exists>st'. wifi_server demo_parts [Inr [(Inr demo_post, [int (length demo_answer)])], Inl (-1),
      Inr [(Inr (post_head demo_pre 2 [] @ ''{''), [int (length demo_answer)]), (Inr ''}'', [int (length demo_answer)])]] demo_signer =
    Some (st', [demo_answer, demo_answer]) \<and> holding [] st' \<and> hsm st' = hsm demo_signer"
proof -
  let ?m = "hexstr (replicate 32 2)" and ?rs = "[int (length demo_answer)]" and ?h = "post_head demo_pre 2 []"
  let ?c1 = "(demo_post, demo_key, ?m, 0 :: int, [demo_post], ?rs)" and ?c2 = "(demo_post, demo_key, ?m, 0 :: int, [?h @ ''{'', ''}''], ?rs)"
  have "pieces [demo_post] demo_post" "pieces [?h @ ''{'', ''}''] demo_post"
    using demo_head [of "''{}''"] demo_head [of "''{''"] by (simp_all add: pieces_def demo_post_def)
  then have "\<forall>c\<in>set [Inr ?c1, Inl (-1), Inr ?c2]. client_ok demo_parts demo_ext (hsm demo_signer) c"
    using demo_sign_request demo_takes by simp
  from wifi_server_answers [OF demo_idle(2) demo_svc demo_local demo_holding this] show ?thesis
    by (simp add: demo_sign_answer)
qed

theorem wifi_joins_clients_witness:
  "\<exists>st'. wifi_server demo_parts [Inr [(Inr (post_head demo_pre 2 []), []), (Inr '''', [])], Inr [(Inr ''{}'', [int (length demo_answer)])]] demo_signer =
    Some (st', ['''', demo_answer]) \<and> holding [] st' \<and> hsm st' = hsm demo_signer"
proof -
  have "sign_request demo_parts (post_head demo_pre 2 [] @ ''{}'') demo_key (hexstr (replicate 32 2)) 0"
    using demo_sign_request by (simp add: demo_post_def)
  from wifi_joins_clients [OF demo_idle(2) demo_svc demo_local demo_holding this _ _ _ demo_takes, of "Inr ''''" "[]" "[]"] show ?thesis
    using demo_head [of "[]"] by (simp add: demo_sign_answer demo_post_def post_head_def content_length_def)
qed


theorem wifi_server_stuck_witness:
  "\<exists>outs. wifi_server demo_parts [Inr [(Inr [], [])], Inl (-1), Inr [(Inl (-1), [])]] (demo_signer\<lparr>len := 32768\<rparr>) = Some (demo_signer\<lparr>len := 32768\<rparr>, outs) \<and>
    set outs \<subseteq> {''''}"
  by (rule wifi_server_stuck) auto

theorem wifi_server_keeps_witness:
  "\<exists>st'. wifi_server demo_parts [Inr [(Inr [], [])]] demo_signer = Some (st', ['''']) \<and> hsm st' = hsm demo_signer"
proof -
  have "wifi_server demo_parts [Inr [(Inr [], [])]] demo_signer = Some (demo_signer, [''''])" by (simp add: wifi_round_def)
  moreover have "linked demo_ext demo_parts" using demo_delivers by (auto simp: linked_def demo_parts_def demo_ctx_def)
  ultimately show ?thesis using wifi_server_keeps by blast
qed

end
