(* ===== verification/Touchscreen.thy ===== *)
theory Touchscreen
  imports Common
begin

text \<open>
  The touch screen of \<^verbatim>\<open>src/lib/touchscreen.c\<close>: a label, and a keyboard on which the user types a password.

  LVGL is the display library. What the program sees of it is which labels are on the screen, whether the keyboard is attached to the
  text area and hidden, and the events of the text area, which \<open>lv_task_handler\<close> delivers. Every call of it is given the list of the
  events it delivers, each with the text in the text area. The semaphore counts to 1.
\<close>

section \<open>The screen\<close>

datatype lv_event = LV_EVENT_VALUE_CHANGED | LV_EVENT_READY | LV_EVENT_FOCUSED | LV_EVENT_DEFOCUSED | LV_EVENT_OTHER

record screen =
  pwd :: "char list"
  sem :: nat
  kb_attached :: bool
  kb_hidden :: bool
  labels :: "string list"

definition k_sem_give :: "screen \<Rightarrow> screen" where
  "k_sem_give s = s\<lparr>sem := min 1 (sem s + 1)\<rparr>"

definition ts_clean :: "screen \<Rightarrow> screen" where
  "ts_clean s = s\<lparr>kb_attached := False, labels := []\<rparr>"

definition ts_createLabel :: "string \<Rightarrow> screen \<Rightarrow> screen" where
  "ts_createLabel t s = (ts_clean s)\<lparr>labels := [t]\<rparr>"

definition ts_display_text :: "string \<Rightarrow> screen \<Rightarrow> screen" where
  "ts_display_text buffer s = ts_createLabel buffer s"

definition banner :: string where
  "banner = ''ETH 2.0 Hardware Remote Signer''"

text \<open>\<open>ready\<close> says whether the display is.\<close>

definition ts_init :: "bool \<Rightarrow> screen \<Rightarrow> screen" where
  "ts_init ready s = (let s = s\<lparr>sem := 0\<rparr> in if \<not> ready then s else ts_createLabel banner s)"

definition ts_display_manager :: "bool \<Rightarrow> screen \<Rightarrow> screen" where
  "ts_display_manager ready s = ts_init ready s"

section \<open>The keyboard\<close>

definition ta_event_cb :: "lv_event \<times> string \<Rightarrow> screen \<Rightarrow> screen option" where
  "ta_event_cb e s = (case fst e of
     LV_EVENT_READY \<Rightarrow> do { p \<leftarrow> blit (pwd s) (snd e @ [nul]); Some (k_sem_give (s\<lparr>pwd := p\<rparr>)) }
   | LV_EVENT_FOCUSED \<Rightarrow> Some (s\<lparr>kb_attached := True, kb_hidden := False\<rparr>)
   | LV_EVENT_DEFOCUSED \<Rightarrow> Some (s\<lparr>kb_attached := False, kb_hidden := True\<rparr>)
   | _ \<Rightarrow> Some s)"

primrec lv_task_handler :: "(lv_event \<times> string) list \<Rightarrow> screen \<Rightarrow> screen option" where
  "lv_task_handler [] s = Some s"
| "lv_task_handler (e # es) s = do { s \<leftarrow> ta_event_cb e s; lv_task_handler es s }"

text \<open>\<open>while (k_sem_take(&sem, K_MSEC(10))) lv_task_handler();\<close> with what the calls deliver. \<open>None\<close> also stands for a call that has not returned
  when the list is used up.\<close>

primrec wait_ready :: "(lv_event \<times> string) list list \<Rightarrow> screen \<Rightarrow> screen option" where
  "wait_ready [] s = (if 0 < sem s then Some (s\<lparr>sem := sem s - 1\<rparr>) else None)"
| "wait_ready (b # bs) s =
     (if 0 < sem s then Some (s\<lparr>sem := sem s - 1\<rparr>) else do { s \<leftarrow> lv_task_handler b s; wait_ready bs s })"

definition ts_request_text_kb :: "string \<Rightarrow> (lv_event \<times> string) list \<Rightarrow> (lv_event \<times> string) list list \<Rightarrow> screen \<Rightarrow> screen option" where
  "ts_request_text_kb displayed_text b bs s = do {
     s \<leftarrow> lv_task_handler b ((ts_clean s)\<lparr>labels := [displayed_text], kb_attached := True, kb_hidden := False\<rparr>);
     wait_ready bs s
   }"

definition ts_get_text_kb :: "char list \<Rightarrow> string \<Rightarrow> (lv_event \<times> string) list \<Rightarrow> (lv_event \<times> string) list list \<Rightarrow> screen \<Rightarrow>
    (char list \<times> screen) option" where
  "ts_get_text_kb buffer displayed_text b bs s = do {
     s \<leftarrow> ts_request_text_kb displayed_text b bs s;
     if nul \<notin> set (pwd s) then None
     else do {
       buffer \<leftarrow> blit buffer (cstr (pwd s) @ [nul]);
       Some (buffer, ts_createLabel banner s)
     }
   }"

section \<open>What the user gets\<close>

text \<open>Between two requests the semaphore is taken and the array has its size.\<close>

definition screen_inv :: "screen \<Rightarrow> bool" where
  "screen_inv s \<longleftrightarrow> length (pwd s) = 100 \<and> sem s = 0"

definition quiet :: "(lv_event \<times> string) list \<Rightarrow> bool" where
  "quiet es \<longleftrightarrow> (\<forall>e\<in>set es. fst e \<noteq> LV_EVENT_READY)"

definition same_input :: "screen \<Rightarrow> screen \<Rightarrow> bool" where
  "same_input s s' \<longleftrightarrow> pwd s' = pwd s \<and> sem s' = sem s"

lemma quiet_handler: "quiet es \<Longrightarrow> \<exists>s'. lv_task_handler es s = Some s' \<and> same_input s s'"
proof (induction es arbitrary: s)
  case (Cons e es)
  have "\<exists>s1. ta_event_cb e s = Some s1 \<and> same_input s s1"
    using Cons.prems by (cases "fst e") (auto simp: ta_event_cb_def quiet_def same_input_def)
  then obtain s1 where s1: "ta_event_cb e s = Some s1" "same_input s s1" by blast
  have "quiet es" using Cons.prems by (simp add: quiet_def)
  from Cons.IH [OF this, of s1] s1 show ?case by (auto simp: same_input_def)
qed (simp add: same_input_def)

lemma lv_task_handler_append: "lv_task_handler (xs @ ys) s = do { s \<leftarrow> lv_task_handler xs s; lv_task_handler ys s }"
  by (induction xs arbitrary: s) (simp_all split: Option.bind_splits)

lemma ready_handler:
  assumes "quiet es" and "length (pwd s) = 100" and "length m < 100"
  shows "\<exists>s'. lv_task_handler (es @ [(LV_EVENT_READY, m)]) s = Some s' \<and> pwd s' = m @ nul # drop (Suc (length m)) (pwd s) \<and> sem s' = 1"
proof -
  obtain s1 where "lv_task_handler es s = Some s1" "same_input s s1" using quiet_handler [OF assms(1)] by blast
  then show ?thesis
    using assms(2,3) by (simp add: lv_task_handler_append ta_event_cb_def c_simps k_sem_give_def same_input_def)
qed

lemma wait_ready_typed:
  assumes "list_all quiet pre" and "quiet es" and "screen_inv s" and "length m < 100"
  shows "\<exists>s'. wait_ready (pre @ (es @ [(LV_EVENT_READY, m)]) # post) s = Some s' \<and> sem s' = 0 \<and> length (pwd s') = 100 \<and>
    (\<exists>r. pwd s' = m @ nul # r)"
  using assms(1,3)
proof (induction pre arbitrary: s)
  case Nil
  then have "length (pwd s) = 100" "sem s = 0" by (simp_all add: screen_inv_def)
  from ready_handler [OF assms(2) this(1) assms(4)] obtain s1 where
    "lv_task_handler (es @ [(LV_EVENT_READY, m)]) s = Some s1" "pwd s1 = m @ nul # drop (Suc (length m)) (pwd s)" "sem s1 = 1" by blast
  then show ?case using Nil assms(4) by (cases post) (auto simp: screen_inv_def)
next
  case (Cons b pre)
  obtain s1 where s1: "lv_task_handler b s = Some s1" "same_input s s1" using quiet_handler [of b s] Cons.prems(1) by auto
  then have "screen_inv s1" using Cons.prems(2) by (simp add: screen_inv_def same_input_def)
  from Cons.IH [OF _ this] show ?case using Cons.prems s1 by (simp add: screen_inv_def)
qed

text \<open>C27: A password typed on the screen. Whatever other events come first, when the user confirms a text of fewer than 100 characters, in any later call of the
  display library, \<open>ts_get_text_kb\<close> returns with this text in the buffer, the banner is back, and the semaphore is taken again.\<close>

theorem ts_get_text_kb_spec:
  assumes "screen_inv s" and "quiet b" and "list_all quiet pre" and "quiet es" and "length m < 100" and "nul \<notin> set m" and "length buffer = 100"
  shows "\<exists>r s'. ts_get_text_kb buffer displayed_text b (pre @ (es @ [(LV_EVENT_READY, m)]) # post) s = Some (m @ nul # r, s') \<and>
    length (m @ nul # r) = 100 \<and> screen_inv s' \<and> labels s' = [banner]"
proof -
  let ?s = "(ts_clean s)\<lparr>labels := [displayed_text], kb_attached := True, kb_hidden := False\<rparr>"
  obtain s1 where s1: "lv_task_handler b ?s = Some s1" "same_input ?s s1" using quiet_handler [OF assms(2)] by blast
  then have "screen_inv s1" using assms(1) by (simp add: screen_inv_def same_input_def ts_clean_def)
  from wait_ready_typed [OF assms(3,4) this assms(5)] obtain s2 r where
    s2: "wait_ready (pre @ (es @ [(LV_EVENT_READY, m)]) # post) s1 = Some s2" "sem s2 = 0" "length (pwd s2) = 100" "pwd s2 = m @ nul # r" by blast
  have "cstr (pwd s2) = m" using s2(4) assms(6) by (simp add: cstr_terminated)
  moreover have "blit buffer (m @ [nul]) = Some (m @ nul # drop (Suc (length m)) buffer)" using assms(5,7) by (simp add: c_simps)
  ultimately show ?thesis
    using s1 s2 assms(5,7)
    by (simp add: ts_get_text_kb_def ts_request_text_kb_def ts_createLabel_def ts_clean_def screen_inv_def)
qed

text \<open>A longer text is copied past the end of \<open>pwd\<close>.\<close>

theorem ts_long_password_overflows:
  assumes "screen_inv s" and "quiet b" and "list_all quiet pre" and "quiet es" and "100 \<le> length m"
  shows "ts_get_text_kb buffer displayed_text b (pre @ (es @ [(LV_EVENT_READY, m)]) # post) s = None"
proof -
  have over: "lv_task_handler (es @ [(LV_EVENT_READY, m)]) s = None" if "screen_inv s" for s
  proof -
    obtain s1 where "lv_task_handler es s = Some s1" "same_input s s1" using quiet_handler [OF assms(4)] by blast
    then show ?thesis using that assms(5) by (simp add: lv_task_handler_append ta_event_cb_def c_simps same_input_def screen_inv_def)
  qed
  have "wait_ready (pre @ (es @ [(LV_EVENT_READY, m)]) # post) s = None" if "screen_inv s" for s
    using assms(3) that
  proof (induction pre arbitrary: s)
    case (Cons c pre)
    obtain s1 where s1: "lv_task_handler c s = Some s1" "same_input s s1" using quiet_handler [of c s] Cons.prems(1) by auto
    then have "screen_inv s1" using Cons.prems(2) by (simp add: screen_inv_def same_input_def)
    with Cons s1 show ?case by (simp add: screen_inv_def)
  qed (simp add: over screen_inv_def)
  moreover obtain s1 where "lv_task_handler b ((ts_clean s)\<lparr>labels := [displayed_text], kb_attached := True, kb_hidden := False\<rparr>) = Some s1"
      "same_input ((ts_clean s)\<lparr>labels := [displayed_text], kb_attached := True, kb_hidden := False\<rparr>) s1" using quiet_handler [OF assms(2)] by blast
  ultimately show ?thesis
    using assms(1) by (simp add: ts_get_text_kb_def ts_request_text_kb_def screen_inv_def same_input_def ts_clean_def)
qed

definition demo_screen :: screen where
  "demo_screen = ts_init True \<lparr>pwd = replicate 100 nul, sem = 0, kb_attached = False, kb_hidden = False, labels = []\<rparr>"

lemma demo_screen_inv: "screen_inv demo_screen"
  by (simp add: demo_screen_def ts_init_def ts_createLabel_def ts_clean_def screen_inv_def)

theorem ts_get_text_kb_spec_witness:
  "\<exists>r s'. ts_get_text_kb (replicate 100 nul) ''key'' [(LV_EVENT_FOCUSED, [])] [[(LV_EVENT_VALUE_CHANGED, ''a'')], [(LV_EVENT_READY, ''ab'')]] demo_screen =
      Some (''ab'' @ nul # r, s') \<and> length (''ab'' @ nul # r) = 100 \<and> screen_inv s' \<and> labels s' = [banner]"
  using ts_get_text_kb_spec [of demo_screen "[(LV_EVENT_FOCUSED, [])]" "[[(LV_EVENT_VALUE_CHANGED, ''a'')]]" "[]" "''ab''" "replicate 100 nul" "''key''" "[]"]
    demo_screen_inv by (simp add: quiet_def)

theorem ts_long_password_overflows_witness:
  "ts_get_text_kb (replicate 100 nul) ''key'' [] [[(LV_EVENT_READY, replicate 100 (CHR ''x''))]] demo_screen = None"
  using ts_long_password_overflows [of demo_screen "[]" "[]" "[]" "replicate 100 (CHR ''x'')" "replicate 100 nul" "''key''" "[]"]
    demo_screen_inv by (simp add: quiet_def)

end
