(* ===== verification/Wifi_Link.thy ===== *)
theory Wifi_Link
  imports Common
begin

text \<open>
  The Wi-Fi link of \<^verbatim>\<open>src/remote-signer-7002/src/main.c\<close>: the flags that the callbacks of the network manager set, and the loops of
  \<open>main\<close> that wait for them before the server is opened.

  The callbacks run in the thread of the network manager, between any two steps of \<open>main\<close>; this is the step relation \<open>link_step\<close>. The
  network manager, the sockets and the clock are not part of the sources: their results are arguments of a step.
\<close>

section \<open>Flags and callbacks\<close>

record wifi_context =
  connected :: bool
  connect_result :: bool
  disconnect_requested :: bool
  ipSet :: bool

datatype mgmt_event = NET_EVENT_WIFI_CONNECT_RESULT int | NET_EVENT_WIFI_DISCONNECT_RESULT int | NET_EVENT_IPV4_DHCP_BOUND | Other_Event

definition handle_wifi_connect_result :: "int \<Rightarrow> wifi_context \<Rightarrow> wifi_context" where
  "handle_wifi_connect_result status c =
     (if connected c then c
      else (if status \<noteq> 0 then c else c\<lparr>connected := True\<rparr>)\<lparr>connect_result := True\<rparr>)"

definition handle_wifi_disconnect_result :: "int \<Rightarrow> wifi_context \<Rightarrow> wifi_context" where
  "handle_wifi_disconnect_result status c =
     (if \<not> connected c then c
      else if disconnect_requested c then c\<lparr>disconnect_requested := False\<rparr>
      else c\<lparr>connected := False\<rparr>)"

definition wifi_mgmt_event_handler :: "mgmt_event \<Rightarrow> wifi_context \<Rightarrow> wifi_context" where
  "wifi_mgmt_event_handler ev c = (case ev of
     NET_EVENT_WIFI_CONNECT_RESULT status \<Rightarrow> handle_wifi_connect_result status c
   | NET_EVENT_WIFI_DISCONNECT_RESULT status \<Rightarrow> handle_wifi_disconnect_result status c
   | _ \<Rightarrow> c)"

definition print_dhcp_ip :: "wifi_context \<Rightarrow> wifi_context" where
  "print_dhcp_ip c = c\<lparr>ipSet := True\<rparr>"

definition net_mgmt_event_handler :: "mgmt_event \<Rightarrow> wifi_context \<Rightarrow> wifi_context" where
  "net_mgmt_event_handler ev c = (case ev of NET_EVENT_IPV4_DHCP_BOUND \<Rightarrow> print_dhcp_ip c | _ \<Rightarrow> c)"

text \<open>An event reaches both handlers; each ignores what it is not registered for.\<close>

definition deliver :: "mgmt_event \<Rightarrow> wifi_context \<Rightarrow> wifi_context" where
  "deliver ev c = net_mgmt_event_handler ev (wifi_mgmt_event_handler ev c)"

section \<open>The connection request\<close>

datatype key_mgmt = WPA2 | WPA2_256 | WPA3 | Key_None

record wifi_connect_req_params =
  timeout :: int
  ssid :: string
  ssid_length :: nat
  security :: nat
  psk :: "string option"
  psk_length :: nat

definition wifi_args_to_params :: "key_mgmt \<Rightarrow> string \<Rightarrow> string \<Rightarrow> wifi_connect_req_params" where
  "wifi_args_to_params k name password = (
     let t = 70 * 1000 in
     \<lparr>timeout = (if t = 0 then -1 else t), ssid = name, ssid_length = length name,
      security = (case k of WPA2 \<Rightarrow> 1 | WPA2_256 \<Rightarrow> 2 | WPA3 \<Rightarrow> 3 | Key_None \<Rightarrow> 0),
      psk = (if k = Key_None then None else Some password), psk_length = (if k = Key_None then 0 else length password)\<rparr>)"

text \<open>\<open>net_mgmt\<close> is given the parameters and says whether the request was accepted. \<open>ENOEXEC\<close> is 8.\<close>

definition wifi_connect :: "(wifi_connect_req_params \<Rightarrow> bool) \<Rightarrow> wifi_connect_req_params \<Rightarrow> wifi_context \<Rightarrow> int \<times> wifi_context" where
  "wifi_connect accepts params c =
     (if accepts params then 0 else -8, c\<lparr>connected := False, connect_result := False\<rparr>)"

section \<open>The loop of main\<close>

text \<open>Where \<open>main\<close> is: asking for a connection, waiting for its result, waiting for an address, serving, or asleep after an error of the sockets.\<close>

datatype phase = Asking | Waiting_Result | Waiting_Ip | Checking | Serving | Asleep

definition initial :: wifi_context where
  "initial = \<lparr>connected = False, connect_result = False, disconnect_requested = False, ipSet = False\<rparr>"

text \<open>What the libraries answer in a step of \<open>main\<close>: whether the connection request is accepted, and whether socket, bind and listen succeed.\<close>

record answers =
  accepts :: "wifi_connect_req_params \<Rightarrow> bool"
  opened :: bool

text \<open>The result of \<open>wifi_connect\<close> is not looked at. Serving never ends; after an error of the sockets the thread sleeps for ever; without a link the
  outer loop starts again.\<close>

definition main_step :: "wifi_connect_req_params \<Rightarrow> answers \<Rightarrow> phase \<times> wifi_context \<Rightarrow> phase \<times> wifi_context" where
  "main_step params a s = (case s of
     (Asking, c) \<Rightarrow> (Waiting_Result, snd (wifi_connect (accepts a) params c))
   | (Waiting_Result, c) \<Rightarrow> (if connect_result c then Waiting_Ip else Waiting_Result, c)
   | (Waiting_Ip, c) \<Rightarrow> (if ipSet c then Checking else Waiting_Ip, c)
   | (Checking, c) \<Rightarrow> (if \<not> connected c then Asking else if opened a then Serving else Asleep, c)
   | (p, c) \<Rightarrow> (p, c))"

text \<open>Steps of \<open>main\<close> and events, in any order.\<close>

datatype action = Main answers | Event mgmt_event

definition act :: "wifi_connect_req_params \<Rightarrow> action \<Rightarrow> phase \<times> wifi_context \<Rightarrow> phase \<times> wifi_context" where
  "act params x s = (case x of Main a \<Rightarrow> main_step params a s | Event ev \<Rightarrow> (fst s, deliver ev (snd s)))"

definition run :: "wifi_connect_req_params \<Rightarrow> action list \<Rightarrow> phase \<times> wifi_context \<Rightarrow> phase \<times> wifi_context" where
  "run params xs s = fold (act params) xs s"

inductive link_reach :: "wifi_connect_req_params \<Rightarrow> phase \<times> wifi_context \<Rightarrow> bool" for params where
  start: "link_reach params (Asking, initial)"
| main: "link_reach params s \<Longrightarrow> link_reach params (main_step params a s)"
| event: "link_reach params (p, c) \<Longrightarrow> link_reach params (p, deliver ev c)"

lemmas callback_defs = deliver_def net_mgmt_event_handler_def wifi_mgmt_event_handler_def print_dhcp_ip_def
  handle_wifi_connect_result_def handle_wifi_disconnect_result_def

section \<open>What the link guarantees\<close>

definition link_ok :: "phase \<times> wifi_context \<Rightarrow> bool" where
  "link_ok s \<longleftrightarrow> (case s of (p, c) \<Rightarrow> (connected c \<longrightarrow> connect_result c) \<and> \<not> disconnect_requested c \<and>
     (p \<in> {Waiting_Ip, Checking, Serving, Asleep} \<longrightarrow> connect_result c) \<and> (p \<in> {Checking, Serving, Asleep} \<longrightarrow> ipSet c))"

lemma deliver_ok: "link_ok (p, c) \<Longrightarrow> link_ok (p, deliver ev c)"
  by (cases ev) (auto simp: link_ok_def callback_defs)

lemma main_step_ok: "link_ok s \<Longrightarrow> link_ok (main_step params a s)"
  by (cases s; cases "fst s") (auto simp: link_ok_def main_step_def wifi_connect_def)


text \<open>The server opens: from the start of the outer loop, with whatever flags earlier rounds left, one connection and one address bring \<open>main\<close> to
  serving if the sockets can be opened.\<close>

theorem link_comes_up:
  assumes "opened a"
  shows "\<exists>c'. run params [Main a, Event (NET_EVENT_WIFI_CONNECT_RESULT 0), Main a, Event NET_EVENT_IPV4_DHCP_BOUND, Main a, Main a] (Asking, c) = (Serving, c') \<and>
    connected c' \<and> ipSet c'"
  using assms by (simp add: run_def act_def main_step_def wifi_connect_def callback_defs)

lemma waiting_ip_stays:
  assumes "\<not> ipSet c" and "Event NET_EVENT_IPV4_DHCP_BOUND \<notin> set xs"
  shows "\<exists>c'. run params xs (Waiting_Ip, c) = (Waiting_Ip, c') \<and> \<not> ipSet c'"
  using assms
proof (induction xs arbitrary: c)
  case (Cons x xs)
  have "\<exists>c1. act params x (Waiting_Ip, c) = (Waiting_Ip, c1) \<and> \<not> ipSet c1"
    using Cons.prems by (cases x) (auto simp: act_def main_step_def callback_defs split: mgmt_event.split)
  then show ?case using Cons.IH Cons.prems(2) by (auto simp: run_def)
qed (simp add: run_def)

text \<open>A failed connection is never tried again. When the network manager reports a failure before an address was ever assigned, \<open>main\<close> goes on to wait for
  an address, and stays there through any sequence of events and steps without one: the outer loop that would ask again is not reached.\<close>

theorem failed_connection_hangs:
  assumes "\<not> connected c" and "\<not> ipSet c" and "status \<noteq> 0" and "Event NET_EVENT_IPV4_DHCP_BOUND \<notin> set xs"
  shows "\<exists>c'. run params ([Event (NET_EVENT_WIFI_CONNECT_RESULT status), Main a] @ xs) (Waiting_Result, c) = (Waiting_Ip, c') \<and> \<not> ipSet c'"
proof -
  have "run params [Event (NET_EVENT_WIFI_CONNECT_RESULT status), Main a] (Waiting_Result, c) = (Waiting_Ip, c\<lparr>connect_result := True\<rparr>)"
    using assms by (simp add: run_def act_def main_step_def callback_defs)
  then show ?thesis using waiting_ip_stays [of "c\<lparr>connect_result := True\<rparr>" xs params] assms(2,4) by (simp add: run_def)
qed

section \<open>Bytes from a text\<close>

text \<open>\<open>strtol\<close> with base 16: blanks, a sign, a prefix that is followed by a digit, and digits up to the first other character.\<close>

definition hex_value :: "string \<Rightarrow> int" where
  "hex_value t = foldl (\<lambda>v c. v * 16 + uint (nibble c)) 0 (takeWhile is_hex t)"

definition hex_prefix :: "string \<Rightarrow> bool" where
  "hex_prefix t \<longleftrightarrow> (take 2 t = ''0x'' \<or> take 2 t = ''0X'') \<and> length t > 2 \<and> is_hex (t ! 2)"

definition strtol16 :: "string \<Rightarrow> int" where
  "strtol16 s = (
     let t = dropWhile is_space s;
         neg = (t \<noteq> [] \<and> hd t = CHR ''-'');
         t = (if t \<noteq> [] \<and> hd t \<in> {CHR ''-'', CHR ''+''} then tl t else t);
         t = (if hex_prefix t then drop 2 t else t)
     in if neg then - hex_value t else hex_value t)"

primrec bytes_loop :: "nat \<Rightarrow> nat \<Rightarrow> string \<Rightarrow> bytes \<Rightarrow> bytes option" where
  "bytes_loop 0 i str bs = Some bs"
| "bytes_loop (Suc n) i str bs = do {
     bs \<leftarrow> put bs i (word_of_int (strtol16 (take 2 (drop (i * 2) str))));
     bytes_loop n (Suc i) str bs
   }"

text \<open>\<open>EINVAL\<close> is 22.\<close>

definition bytes_from_str :: "string \<Rightarrow> bytes \<Rightarrow> nat \<Rightarrow> (int \<times> bytes) option" where
  "bytes_from_str str bs bytes_len =
     (if length str \<noteq> bytes_len * 2 then Some (-22, bs)
      else map_option (\<lambda>bs. (0, bs)) (bytes_loop bytes_len 0 str bs))"

lemma strtol16_hex:
  assumes "is_hex a" and "is_hex b"
  shows "word_of_int (strtol16 [a, b]) = push_bit 4 (nibble a) + nibble b"
proof -
  have "\<not> is_space a" "a \<noteq> CHR ''-''" "a \<noteq> CHR ''+''"
    using assms(1) by (auto simp: is_hex_def is_space_def between_def ord8_def)
  then have "strtol16 [a, b] = uint (nibble a) * 16 + uint (nibble b)"
    using assms by (simp add: strtol16_def hex_prefix_def hex_value_def Let_def)
  then show ?thesis by (simp add: push_bit_eq_mult mult.commute)
qed

lemma bytes_loop_hex:
  "i + n \<le> length bs \<Longrightarrow> length str = 2 * (i + n) \<Longrightarrow> list_all is_hex str \<Longrightarrow>
   bytes_loop n i str bs = Some (take i bs @ unhex (drop (2 * i) str) @ drop (i + n) bs)"
proof (induction n arbitrary: i bs)
  case (Suc n)
  have l: "2 * i + 1 < length str" using Suc.prems by simp
  then have d: "drop (2 * i) str = str ! (2 * i) # str ! (2 * i + 1) # drop (2 * Suc i) str"
    by (simp add: Cons_nth_drop_Suc)
  have h: "is_hex (str ! (2 * i))" "is_hex (str ! (2 * i + 1))" using Suc.prems(3) l by (simp_all add: list_all_length)
  let ?v = "push_bit 4 (nibble (str ! (2 * i))) + nibble (str ! (2 * i + 1))"
  have "bytes_loop n (Suc i) str (bs[i := ?v]) = Some (take (Suc i) (bs[i := ?v]) @ unhex (drop (2 * Suc i) str) @ drop (Suc i + n) (bs[i := ?v]))"
    by (rule Suc.IH) (use Suc.prems in simp_all)
  moreover have "take 2 (drop (i * 2) str) = [str ! (2 * i), str ! (2 * i + 1)]" by (simp add: mult.commute [of i] d)
  ultimately show ?case
    using Suc.prems(1) h d by (simp add: c_simps strtol16_hex take_Suc_conv_app_nth)
qed simp

text \<open>Complete behaviour of \<open>bytes_from_str\<close> on hexadecimal digits: it decodes a text of the exact length and refuses every other with \<open>-EINVAL\<close>, without a write
  outside the array.\<close>

theorem bytes_from_str_spec:
  assumes "list_all is_hex str" and "n \<le> length bs"
  shows "bytes_from_str str bs n = Some (if length str = 2 * n then (0, unhex str @ drop n bs) else (-22, bs))"
  using bytes_loop_hex [of 0 n bs str] assms by (simp add: bytes_from_str_def mult.commute)

theorem bytes_from_str_spec_witness: "bytes_from_str ''0aF1'' [0, 0, 7] 2 = Some (0, [10, 241, 7])"
proof -
  have "list_all is_hex ''0aF1''" "unhex ''0aF1'' = [10, 241]" by code_simp+
  then show ?thesis using bytes_from_str_spec [of "''0aF1''" 2 "[0, 0, 7]"] by simp
qed

definition demo_params :: wifi_connect_req_params where
  "demo_params = wifi_args_to_params WPA2 ''home'' ''secret''"


theorem link_comes_up_witness:
  "\<exists>c'. run demo_params [Main \<lparr>accepts = \<lambda>_. True, opened = True\<rparr>, Event (NET_EVENT_WIFI_CONNECT_RESULT 0),
      Main \<lparr>accepts = \<lambda>_. True, opened = True\<rparr>, Event NET_EVENT_IPV4_DHCP_BOUND, Main \<lparr>accepts = \<lambda>_. True, opened = True\<rparr>,
      Main \<lparr>accepts = \<lambda>_. True, opened = True\<rparr>] (Asking, initial) = (Serving, c') \<and> connected c' \<and> ipSet c'"
  by (rule link_comes_up) simp

theorem failed_connection_hangs_witness:
  "\<exists>c'. run demo_params ([Event (NET_EVENT_WIFI_CONNECT_RESULT 1), Main \<lparr>accepts = \<lambda>_. True, opened = True\<rparr>] @
      [Event (NET_EVENT_WIFI_CONNECT_RESULT 0), Main \<lparr>accepts = \<lambda>_. True, opened = True\<rparr>]) (Waiting_Result, initial) = (Waiting_Ip, c') \<and> \<not> ipSet c'"
  by (rule failed_connection_hangs) (simp_all add: initial_def)

end
