(* ===== verification/Spec2Isabelle.thy ===== *)
theory Spec2Isabelle
  imports Power_Cycles Wifi_Server Touchscreen Wifi_Link
begin

text \<open>
  A model of bls-hsm, a signing device for Ethereum validators.

  \<^bold>\<open>The program.\<close> The device keeps up to ten BLS secret keys and signs with them. On boards with TF-M the keys live in a
  secure partition: the application calls a client function, the client packs the arguments into vectors, the secure
  partition manager delivers them as a message, and a handler of the partition unpacks them, calls the keystore and
  writes the result back. On other builds the application calls the keystore directly. Two applications use it: a command line
  on a serial console, and a remote signer that answers HTTP requests of the Ethereum remote signing interface over a
  serial line, over one connection to a bridge, or as a server over Wi-Fi. A signing request carries a signing root or an object in
  JSON, whose root is computed by hashing its fields in SSZ order. A key manager request carries encrypted key files in JSON
  inside JSON, read by a second parser that works in place.

  \<^bold>\<open>The theories\<close>, in the order in which they use each other, and the sources they model:

  \<^item> \<open>Prelude\<close>: memory operations with bounds (\<open>at\<close>, \<open>put\<close>, \<open>blit\<close>, \<open>cstr\<close>), stack contents, bytes and characters, and the
    collection \<open>c_simps\<close>. An access outside an array is the result \<^const>\<open>None\<close>, here and everywhere; a function that returns an
    error code returns it inside \<^const>\<open>Some\<close>.
  \<^item> \<open>Common\<close> (\<^verbatim>\<open>src/lib/common.c\<close>): the hexadecimal codec and the checks of arguments. Every function is characterised on all inputs; encoding and
    decoding are inverse.
  \<^item> \<open>Bls_Hsm\<close> (\<^verbatim>\<open>src/lib/bls_hsm.h\<close>): the keystore. The record \<open>hsm\<close> has the globals of the file; one definition per function, for the three
    builds (datatype \<open>build\<close>); blst, the entropy source and protected storage are the fields of the record \<open>ext\<close>. The cipher of the key files, \<open>aes128ctr\<close>, is here too,
    over the record \<open>cipher_ext\<close> of the PSA cipher calls.
  \<^item> \<open>Keystore\<close>: the invariant \<open>hsm_inv\<close> (sizes, at most ten keys, the text of the public key beside each secret key), its preservation by
    every operation and on every reachable state, the behaviour of every operation on every branch, the round trip of signing and
    verifying, and of storing and rebooting.
  \<^item> \<open>Secure_Partition\<close> (\<^verbatim>\<open>src/secure_partition/secure_partition.c\<close>): the handlers, the dispatcher and the service loop; the loop is safe
    on requests of the documented sizes and overflows on longer ones.
  \<^item> \<open>Sp_Interface\<close> (\<^verbatim>\<open>src/lib/secure_partition_interface.c\<close>): the client. The hypothesis \<open>spm_delivers\<close> states what the secure partition
    manager promises; under it a client call has the result of the keystore operation.
  \<^item> \<open>Bls_Hsm_Ns\<close> (\<^verbatim>\<open>src/lib/bls_hsm_ns.c\<close>): the operations of the application, written over a record \<open>svc\<close> of the calls that the preprocessor
    switches between the two builds. The locale \<open>key_service\<close> states the contract of these calls; it is interpreted for the
    direct calls and for the calls through the partition, and the operations are characterised once, in the locale. The
    locale \<open>reading_service\<close> states that the reading calls leave the keystore alone.
  \<^item> \<open>Cli_Main\<close> (\<^verbatim>\<open>src/cli/src/main.c\<close>): the commands of the console and sessions of them, proved once in the locale \<open>console_service\<close>, which extends
    \<open>key_service\<close>.
  \<^item> \<open>Power_Cycles\<close> (\<open>main\<close> of \<^verbatim>\<open>src/cli/src/main.c\<close>): starting the console, and the device over any number of power cycles. A second interpretation of
    \<open>console_service\<close>, with the invariant that memory and storage agree, shows that the keys outlive them.
  \<^item> \<open>Merkleization\<close> and \<open>Ssz_Containers\<close> (\<^verbatim>\<open>src/lib/merkleization.h\<close>): integers, bit lists, zero hashes, the leaf-by-leaf computation of list
    roots, and every container, against the reference \<open>mtree\<close>, the root of a padded tree. Where the program mixes in a constant
    instead of the number of elements, the theorems say so.
  \<^item> \<open>Tiny_Json\<close> (\<^verbatim>\<open>src/lib/tiny-json.c\<close>, \<^verbatim>\<open>tiny-json.h\<close>): the parser that works in place over the text and a pool of nodes, and the readers. It
    returns on every terminated text, stays inside the text and the pool, builds a well-formed forest, and inverts the escaping of strings.
  \<^item> \<open>Key_Import\<close> (\<^verbatim>\<open>src/lib/httpRemote.h\<close>, from \<open>del\<close> to \<open>httpImportFromKeystore\<close>): the key manager endpoint; no body ever imports a key.
  \<^item> \<open>Http_Remote\<close> (the rest of \<^verbatim>\<open>src/lib/httpRemote.h\<close>): reading requests, the dispatcher and the responses, against references for the
    text of each response.
  \<^item> \<open>Remote_Signer\<close> (\<^verbatim>\<open>src/remote-signer/src/main.c\<close>, \<^verbatim>\<open>src/remote-signer-7002/src/main.c\<close>, \<^verbatim>\<open>src/lib/tcp.c\<close>): a round of the main loop over each transport, as
    a function from what arrives and what the transport takes to the characters sent. The step relation \<open>signer_step\<close> collects the rounds; the
    locale \<open>signer_inv\<close> shows once that what a round keeps is kept on every path, and is interpreted for the sizes of the arrays and for the keys.
  \<^item> \<open>Wifi_Server\<close> (\<^verbatim>\<open>src/remote-signer-7002/src/main.c\<close>): the server over Wi-Fi from power-on, its connections and the loop over the clients. The buffer is never
    cleared, so the lemmas are about buffers with anything behind the received text (\<open>holding\<close>). Every client that sends a whole request, in pieces or at once, is answered; a request
    that a client abandons is joined with that of the next; and a signer of this build has no key to sign with.
  \<^item> \<open>Touchscreen\<close> (\<^verbatim>\<open>src/lib/touchscreen.c\<close>): the label and the keyboard, over the events that the display library delivers; a confirmed text arrives in the
    caller's buffer and the semaphore is free again. It provides the text that \<open>Key_Import\<close> takes from its parameter \<open>keyboard\<close>.
  \<^item> \<open>Wifi_Link\<close> (\<^verbatim>\<open>src/remote-signer-7002/src/main.c\<close>): the flags that the callbacks of the network manager set between the steps of \<open>main\<close>, and the loops that
    wait for them; the flags agree in every interleaving, and a failed connection is never tried again.
  \<^item> \<open>Board\<close> (\<^verbatim>\<open>src/remote-signer/src/main.c\<close>, \<^verbatim>\<open>src/lib/tcp.c\<close>, \<^verbatim>\<open>src/remote-signer-7002/src/main.c\<close>): the lights and the button, credentials, TLS options, and the start of the serial line and of the
    connection to the bridge.

  This theory holds the property that spans them: a key made at the console signs for the network.

  \<^bold>\<open>Loops.\<close> Loops over data are structural recursion. \<open>go_while\<close> and \<open>parse_string\<close> end at the end of the text. \<open>obj_loop\<close> has as fuel the length of the
  text, and \<open>json_create_safe\<close> shows that it does not run out, because every round moves the pointer. \<open>property_loop\<close>, \<open>keystores_loop\<close> and
  \<open>passwords_loop\<close> follow sibling links with the number of nodes as fuel. The loop of \<open>merge\<close> has 64 rounds, the height of the table it indexes.
  \<open>free_memory_loop\<close> is a partial function that is shown to end when some size cannot be allocated. Loops that wait for a device take what the device delivers as a list.

  \<^bold>\<open>Parameters.\<close> blst, mbedtls and the hash functions, protected storage, the secure partition manager, cJSON and picohttpparser are not part of the
  sources. They are arguments of the definitions, and what the program relies on are named hypotheses (\<open>blst_sizes\<close>, \<open>blst_verifies\<close>, \<open>ps_laws\<close>,
  \<open>spm_delivers\<close>, \<open>cipher_works\<close>, \<open>sign_parsed\<close>, \<open>phr_local\<close>, the readers of \<open>Ssz_Containers\<close>), which concrete functions satisfy in the witnesses. Uninitialised
  memory is an argument too, so that a result which does not depend on it is stated for all its values.

  \<^bold>\<open>Not modelled.\<close> Starting the modem (\<open>modem_configure\<close>, one call of a library), the
  status report of the Wi-Fi interface (\<open>cmd_wifi_status\<close>, logging only), the layout of the touch screen, logging, \<open>json_getReal\<close> (unused, a floating-point value), code that is
  compiled out (\<open>print_colored_error\<close>, the serial loop at the end of the 7002 application, which also stands behind an endless loop) or never called (\<open>GetFreeMemorySize\<close> of
  \<^verbatim>\<open>httpRemote.h\<close>, the same text as in the partition), and the programs of the host in Go, JavaScript and Python.
\<close>

section \<open>From the console to the network\<close>

text \<open>C1: The life of a key. A key is generated at the console of a device in any consistent state; the operation succeeds with the index \<open>r\<close>. A signing request for the public key at that index then arrives over the connection to the bridge. The
  signer sends a 200 response with a signature that \<open>verify_sign\<close> accepts for this public key and the requested signing root, and the
  keystore is the one the console left.\<close>

theorem generated_key_signs_remotely:
  assumes "tfm_inv ext spm (hsm st)" and "idle st" and "\<forall>k\<in>set (hsm_keys h). blst_verifies ext k"
    and "info_bytes info = Some ki" and "secure_keygen b ext info (hsm st) = Some (r, h)" and "0 \<le> r"
    and "p_svc P = direct_svc b' ext junk \<or> p_svc P = tfm_svc spm junk"
    and "sign_request P t (pkhex ext (hsm_keys h ! nat r)) m a"
  shows "\<exists>sig. verify_sign ext junk' (pkhex ext (hsm_keys h ! nat r)) m sig = Some BLSTSUCCESS \<and>
    (\<forall>rs. takes_all rs (http_ok (sign_ctype a) (sign_body a sig)) \<longrightarrow>
      (\<exists>st'. net_round P (Inr t) rs (st\<lparr>hsm := h\<rparr>) = Some (st', http_ok (sign_ctype a) (sign_body a sig)) \<and> hsm st' = h))"
proof -
  have inv: "hsm_inv ext (hsm st)" and sz: "blst_sizes ext" and del: "spm_delivers ext spm" using assms(1) by (simp_all add: tfm_inv_def)
  have h: "hsm_inv ext h \<and> nat r < length (hsm_keys h)"
  proof -
    obtain status ikm p1 where "keygen_ikm b ext (plat (hsm st)) = (status, ikm, p1)" by (cases "keygen_ikm b ext (plat (hsm st))") auto
    from secure_keygen_total [OF inv sz assms(4) this] show ?thesis using assms(5,6) by (auto split: if_splits)
  qed
  let ?k = "pkhex ext (hsm_keys h ! nat r)"
  have lk: "length ?k = 96" by (rule length_pkhex [OF sz])
  then have "find_pk ext ?k (hsm_keys h) \<noteq> None" using h by (auto simp: find_pk_None)
  then obtain i where i: "find_pk ext ?k (hsm_keys h) = Some i" by blast
  let ?s = "signature_of ext (hsm_keys h ! i) (hexbytes m)"
  have m: "list_all is_hex m" "m \<noteq> []" using assms(8) by (auto simp: sign_request_def sign_request_on_def)
  have "pkhex ext (hsm_keys h ! i) = ?k" "hsm_keys h ! i \<in> set (hsm_keys h)" using find_pk_SomeD [OF i] lk by auto
  then have v: "verify_sign ext junk' ?k m ?s = Some BLSTSUCCESS"
    using signature_verifies [OF sz, of "hsm_keys h ! i" m junk'] assms(3) m by (simp add: strip0x_hex)
  have ans: "sign_answer ext h ?k m a = http_ok (sign_ctype a) (sign_body a ?s)"
    using i lk by (simp add: sign_answer_def find_text_pk key_signature_def)
  have "tfm_inv ext spm (hsm (st\<lparr>hsm := h\<rparr>))" "idle (st\<lparr>hsm := h\<rparr>)"
    using h sz del assms(2) by (simp_all add: tfm_inv_def idle_def)
  from net_answers [OF this(1) assms(7,8) this(2)] have "\<exists>st'. net_round P (Inr t) rs (st\<lparr>hsm := h\<rparr>) =
      Some (st', http_ok (sign_ctype a) (sign_body a ?s)) \<and> hsm st' = h"
    if "takes_all rs (http_ok (sign_ctype a) (sign_body a ?s))" for rs
    using that ans by fastforce
  then show ?thesis using v by blast
qed


theorem generated_key_signs_remotely_witness:
  "\<exists>h sig rs st'. secure_keygen Nrf_Tfm demo_ext (Some (replicate 32 (CHR 0x07))) demo_hsm = Some (0, h) \<and>
    verify_sign demo_ext (\<lambda>_. 0) demo_key (hexstr (replicate 32 2)) sig = Some BLSTSUCCESS \<and>
    net_round demo_parts (Inr demo_post) rs (demo_signer\<lparr>hsm := h\<rparr>) = Some (st', http_ok ''text/plain'' (sign_body 0 sig)) \<and> hsm st' = h"
proof -
  let ?info = "replicate 32 (CHR 0x07)"
  let ?st = "demo_signer\<lparr>hsm := demo_hsm\<rparr>"
  have info: "info_bytes (Some ?info) = Some (replicate 4 7)" by code_simp
  obtain h where h: "secure_keygen Nrf_Tfm demo_ext (Some ?info) demo_hsm = Some (0, h)" "hsm_keys h = [replicate 32 7]"
    using secure_keygen_total [OF demo_hsm_simps(1) demo_sizes info, of Nrf_Tfm] by (auto simp: pad_def replicate_add [symmetric])
  have pk: "pkhex demo_ext (hsm_keys h ! nat 0) = demo_key" by (simp add: h(2) demo_key(3))
  have st: "tfm_inv demo_ext demo_spm (hsm ?st)" "idle ?st" using demo_idle(1) by (simp_all add: demo_tfm_inv idle_def)
  have v: "\<forall>k\<in>set (hsm_keys h). blst_verifies demo_ext k" by (simp add: h(2) demo_verifies)
  have g: "secure_keygen Nrf_Tfm demo_ext (Some ?info) (hsm ?st) = Some (0, h)" using h(1) by simp
  have rq: "sign_request demo_parts demo_post (pkhex demo_ext (hsm_keys h ! nat 0)) (hexstr (replicate 32 2)) 0"
    unfolding pk by (rule demo_sign_request)
  from generated_key_signs_remotely [OF st v info g order_refl demo_svc rq, of "\<lambda>_. 0", unfolded pk] obtain sig where
    s: "verify_sign demo_ext (\<lambda>_. 0) demo_key (hexstr (replicate 32 2)) sig = Some BLSTSUCCESS"
      "\<forall>rs. takes_all rs (http_ok (sign_ctype 0) (sign_body 0 sig)) \<longrightarrow>
        (\<exists>st'. net_round demo_parts (Inr demo_post) rs (?st\<lparr>hsm := h\<rparr>) = Some (st', http_ok (sign_ctype 0) (sign_body 0 sig)) \<and> hsm st' = h)"
    by blast
  have "takes_all [int (length (http_ok (sign_ctype 0) (sign_body 0 sig)))] (http_ok (sign_ctype 0) (sign_body 0 sig))"
    by (simp add: takes_all_def http_ok_def)
  with s h(1) show ?thesis by (fastforce simp: sign_ctype_def)
qed

end
